(* ===== verification/Prelude.thy ===== *)
theory Prelude
  imports Main "HOL-Library.Word" "HOL-Library.Char_ord" "HOL-Library.List_Lexorder"
    "HOL-Library.Monad_Syntax"
begin

text \<open>
  Shared vocabulary of the development: how Go values are represented, how a panic is a
  value, big-endian byte strings, and the generic lemmas on lists and maps that the
  component theories use.

  A Go byte is a HOL \<^typ>\<open>char\<close> (eight bits), so a byte slice and a Go string are both a
  \<^typ>\<open>string\<close> and the conversions \<open>[]byte(s)\<close> and \<open>string(b)\<close> are the identity. A nil slice
  and an empty slice are the same value \<open>[]\<close>; the code tells them apart only where the
  theories say so. \<open>bytes.Compare\<close> and the string operators are the lexicographic order of
  \<open>List_Lexorder\<close> over the byte order of \<open>Char_ord\<close>.
\<close>

section \<open>Go values and panics\<close>

type_synonym bytes = "char list"
type_synonym uint64 = "64 word"

text \<open>
  What stops a goroutine: a run-time panic (nil dereference, index or slice out of range), a
  call of \<open>log.Panic\<close>, a call of \<open>os.Exit\<close>, or a fatal stack overflow. A function that can
  stop returns \<open>Inl\<close> of the reason or \<open>Inr\<close> of its result.
\<close>

datatype panic = NilDeref | IndexRange | LogPanic | OsExit | StackOverflow

type_synonym 'a go = "panic + 'a"

definition bind_go :: "'a go \<Rightarrow> ('a \<Rightarrow> 'b go) \<Rightarrow> 'b go" where
  "bind_go m f = (case m of Inl p \<Rightarrow> Inl p | Inr x \<Rightarrow> f x)"

lemma bind_go_simps [simp]:
  "bind_go (Inl p) f = Inl p"
  "bind_go (Inr x) f = f x"
  by (simp_all add: bind_go_def)

lemma bind_go_Inr_iff: "bind_go m f = Inr y \<longleftrightarrow> (\<exists>x. m = Inr x \<and> f x = Inr y)"
  by (cases m) auto

lemma bind_go_Inr_elim:
  assumes "bind_go m f = Inr y"
  obtains x where "m = Inr x" and "f x = Inr y"
  using assms by (auto simp: bind_go_Inr_iff)

lemma bind_go_cong [fundef_cong]:
  "m = m' \<Longrightarrow> (\<And>x. m' = Inr x \<Longrightarrow> f x = f' x) \<Longrightarrow> bind_go m f = bind_go m' f'"
  by (cases m') auto

text \<open>A \<open>for _, x := range xs\<close> loop whose body threads a state and may panic.\<close>

fun fold_go :: "('s \<Rightarrow> 'a \<Rightarrow> 's go) \<Rightarrow> 's \<Rightarrow> 'a list \<Rightarrow> 's go" where
  "fold_go f s [] = Inr s"
| "fold_go f s (x # xs) = bind_go (f s x) (\<lambda>s'. fold_go f s' xs)"

lemma fold_go_append: "fold_go f s (xs @ ys) = bind_go (fold_go f s xs) (\<lambda>s'. fold_go f s' ys)"
proof (induction xs arbitrary: s)
  case Nil
  then show ?case by simp
next
  case (Cons x xs)
  then show ?case by (cases "f s x") auto
qed

lemma fold_go_map: "fold_go f s (map g xs) = fold_go (\<lambda>s x. f s (g x)) s xs"
proof (induction xs arbitrary: s)
  case Nil
  then show ?case by simp
next
  case (Cons x xs)
  then show ?case by (cases "f s (g x)") auto
qed

lemma fold_go_filter:
  "fold_go (\<lambda>s x. if P x then f s x else Inr s) s xs = fold_go f s (filter P xs)"
proof (induction xs arbitrary: s)
  case Nil
  then show ?case by simp
next
  case (Cons x xs)
  then show ?case by (cases "f s x") auto
qed

lemma fold_go_total:
  assumes "\<And>s x. x \<in> set xs \<Longrightarrow> f s x = Inr (g s x)"
  shows "fold_go f s xs = Inr (foldl g s xs)"
  using assms by (induction xs arbitrary: s) auto

lemma fold_go_invariant:
  assumes "fold_go f s xs = Inr s'" and "I s"
    and "\<And>s x t. x \<in> set xs \<Longrightarrow> I s \<Longrightarrow> f s x = Inr t \<Longrightarrow> I t"
  shows "I s'"
  using assms
proof (induction xs arbitrary: s)
  case Nil
  then show ?case by simp
next
  case (Cons x xs)
  from Cons.prems(1) obtain t where t: "f s x = Inr t" "fold_go f t xs = Inr s'"
    by (auto elim: bind_go_Inr_elim)
  have "I t" using Cons.prems(2,3) t(1) by (meson list.set_intros(1))
  with t(2) show ?case using Cons.IH Cons.prems(3) by (meson list.set_intros(2))
qed

text \<open>A computation that may also not return at all: \<open>None\<close>. \<open>bind_run\<close> sequences such computations.\<close>

type_synonym 'a run = "'a go option"

definition bind_run :: "'a run \<Rightarrow> ('a \<Rightarrow> 'b run) \<Rightarrow> 'b run" where
  "bind_run m f = (case m of None \<Rightarrow> None | Some (Inl p) \<Rightarrow> Some (Inl p) | Some (Inr x) \<Rightarrow> f x)"

abbreviation return_run :: "'a \<Rightarrow> 'a run" where
  "return_run x \<equiv> Some (Inr x)"

abbreviation panic_run :: "panic \<Rightarrow> 'a run" where
  "panic_run p \<equiv> Some (Inl p)"

lemma bind_run_simps [simp]:
  "bind_run None f = None"
  "bind_run (Some (Inl p)) f = Some (Inl p)"
  "bind_run (Some (Inr x)) f = f x"
  by (simp_all add: bind_run_def)

lemma bind_run_return_iff:
  "bind_run m f = Some (Inr y) \<longleftrightarrow> (\<exists>x. m = Some (Inr x) \<and> f x = Some (Inr y))"
  by (auto simp: bind_run_def split: option.splits sum.splits)

lemma bind_run_cong [fundef_cong]:
  "m = m' \<Longrightarrow> (\<And>x. m' = Some (Inr x) \<Longrightarrow> f x = f' x) \<Longrightarrow> bind_run m f = bind_run m' f'"
  by (auto simp: bind_run_def split: option.splits sum.splits)

fun fold_run :: "('s \<Rightarrow> 'a \<Rightarrow> 's run) \<Rightarrow> 's \<Rightarrow> 'a list \<Rightarrow> 's run" where
  "fold_run f s [] = return_run s"
| "fold_run f s (x # xs) = bind_run (f s x) (\<lambda>s'. fold_run f s' xs)"

lemma fold_run_total:
  assumes "\<And>s x. x \<in> set xs \<Longrightarrow> f s x = return_run (g s x)"
  shows "fold_run f s xs = return_run (foldl g s xs)"
  using assms by (induction xs arbitrary: s) auto

section \<open>Collections of rules\<close>

named_theorems go_defs \<open>definitions unfolded when a function is evaluated on concrete input\<close>
named_theorems codec_simps \<open>rewrite rules of the byte encodings\<close>

section \<open>Big-endian byte strings\<close>

text \<open>
  \<open>be_bytes k v\<close> is the \<open>k\<close>-byte big-endian encoding of \<open>v\<close> modulo \<open>256 ^ k\<close> and
  \<open>be_nat\<close> reads a byte string back; they are the arithmetic under \<open>encoding/binary\<close> and
  \<open>math/big\<close>.
\<close>

fun be_bytes :: "nat \<Rightarrow> nat \<Rightarrow> bytes" where
  "be_bytes 0 v = []"
| "be_bytes (Suc k) v = be_bytes k (v div 256) @ [char_of v]"

definition be_nat :: "bytes \<Rightarrow> nat" where
  "be_nat bs = foldl (\<lambda>a c. 256 * a + of_char c) 0 bs"

lemma length_be_bytes [simp]: "length (be_bytes k v) = k"
  by (induction k arbitrary: v) auto

lemma be_nat_Nil [simp, codec_simps]: "be_nat [] = 0"
  by (simp add: be_nat_def)

lemma be_nat_snoc [simp, codec_simps]: "be_nat (bs @ [c]) = 256 * be_nat bs + of_char c"
  by (simp add: be_nat_def)

lemma be_nat_bound: "be_nat bs < 256 ^ length bs"
proof (induction bs rule: rev_induct)
  case Nil
  then show ?case by simp
next
  case (snoc c bs)
  have "(of_char c :: nat) < 256" by (rule nat_of_char_less_256)
  with snoc have "256 * be_nat bs + of_char c < 256 * (be_nat bs + 1)" by simp
  also have "\<dots> \<le> 256 * 256 ^ length bs" using snoc by (intro mult_le_mono2) simp
  finally show ?case by simp
qed

lemma be_nat_be_bytes [codec_simps]: "be_nat (be_bytes k v) = v mod 256 ^ k"
proof (induction k arbitrary: v)
  case 0
  then show ?case by simp
next
  case (Suc k)
  have "256 * (v div 256 mod 256 ^ k) + v mod 256 = v mod (256 * 256 ^ k)"
    by (simp add: mod_mult2_eq)
  with Suc show ?case by simp
qed

lemma char_of_last_digit [codec_simps]: "char_of (256 * n + of_char c :: nat) = c"
proof -
  have "char_of (256 * n + of_char c) = (char_of ((256 * n + of_char c) mod 256) :: char)"
    by (simp only: char_of_mod_256)
  then show ?thesis by simp
qed

lemma be_bytes_be_nat [codec_simps]: "length bs = k \<Longrightarrow> be_bytes k (be_nat bs) = bs"
proof (induction bs arbitrary: k rule: rev_induct)
  case Nil
  then show ?case by simp
next
  case (snoc c bs)
  have c: "(of_char c :: nat) < 256" by (rule nat_of_char_less_256)
  have d: "(256 * be_nat bs + of_char c) div 256 = be_nat bs" using c by simp
  with snoc d show ?case by (auto simp: char_of_last_digit)
qed

lemma be_bytes_inject: "v < 256 ^ k \<Longrightarrow> w < 256 ^ k \<Longrightarrow> be_bytes k v = be_bytes k w \<Longrightarrow> v = w"
  by (metis be_nat_be_bytes mod_less)

end
