(* ===== verification/Codec.thy ===== *)
theory Codec
  imports Prelude
begin

text \<open>
  The byte codecs of the program: \<open>util/util.go\<close> (integers to byte strings through
  \<open>encoding/binary\<close>, string sets), \<open>common/bytes.go\<close> (hexadecimal) and \<open>common/types.go\<close>
  (hashes and addresses). The lemmas are the round trips, the lengths, and the places where a
  codec always panics or aligns its bytes on the other side than its comment says.
\<close>

section \<open>Integers: util/util.go\<close>

text \<open>
  \<open>binary.Write\<close> and \<open>binary.Read\<close> handle fixed-size values only: they return an error for a
  Go \<open>int\<close> (whose size is not fixed) and for a string. \<open>binary.Read\<close> also returns an error
  when fewer bytes are left than the value needs, and leaves further bytes unread. The code
  turns each error into \<open>log.Panic\<close>.
\<close>

datatype go_value = GInt64 int | GUint64 uint64 | GInt32 int | GInt int | GString string

fun binary_Write :: "go_value \<Rightarrow> bytes option" where
  "binary_Write (GInt64 v) = Some (be_bytes 8 (nat (v mod 2 ^ 64)))"
| "binary_Write (GUint64 v) = Some (be_bytes 8 (unat v))"
| "binary_Write (GInt32 v) = Some (be_bytes 4 (nat (v mod 2 ^ 32)))"
| "binary_Write (GInt _) = None"
| "binary_Write (GString _) = None"

definition write_or_panic :: "go_value \<Rightarrow> bytes go" where
  "write_or_panic v = (case binary_Write v of None \<Rightarrow> Inl LogPanic | Some b \<Rightarrow> Inr b)"

definition Int64ToBytes :: "int \<Rightarrow> bytes go" where
  "Int64ToBytes val = write_or_panic (GInt64 val)"

definition Uint64ToBytes :: "uint64 \<Rightarrow> bytes go" where
  "Uint64ToBytes val = write_or_panic (GUint64 val)"

definition Int32ToBytes :: "int \<Rightarrow> bytes go" where
  "Int32ToBytes val = write_or_panic (GInt32 val)"

definition IntToBytes :: "int \<Rightarrow> bytes go" where
  "IntToBytes val = write_or_panic (GInt val)"

definition StrToBytes :: "string \<Rightarrow> bytes go" where
  "StrToBytes val = write_or_panic (GString val)"

definition BytesToStr :: "bytes \<Rightarrow> string" where
  "BytesToStr val = val"

text \<open>The kinds of destination \<open>binary.Read\<close> is called with, and the size each reads.\<close>

datatype go_dest = DInt64 | DUint64 | DInt32 | DInt

fun dest_size :: "go_dest \<Rightarrow> nat option" where
  "dest_size DInt64 = Some 8"
| "dest_size DUint64 = Some 8"
| "dest_size DInt32 = Some 4"
| "dest_size DInt = None"

definition binary_Read :: "go_dest \<Rightarrow> bytes \<Rightarrow> nat option" where
  "binary_Read d val =
     (case dest_size d of
        None \<Rightarrow> None
      | Some k \<Rightarrow> if length val < k then None else Some (be_nat (take k val)))"

definition read_or_panic :: "go_dest \<Rightarrow> bytes \<Rightarrow> nat go" where
  "read_or_panic d val = (case binary_Read d val of None \<Rightarrow> Inl LogPanic | Some n \<Rightarrow> Inr n)"

definition BytesToInt64 :: "bytes \<Rightarrow> int go" where
  "BytesToInt64 val =
     bind_go (read_or_panic DInt64 val) (\<lambda>n. Inr (sint (word_of_nat n :: 64 word)))"

definition BytesToUint64 :: "bytes \<Rightarrow> uint64 go" where
  "BytesToUint64 val = bind_go (read_or_panic DUint64 val) (\<lambda>n. Inr (word_of_nat n))"

definition BytesToInt32 :: "bytes \<Rightarrow> int go" where
  "BytesToInt32 val =
     bind_go (read_or_panic DInt32 val) (\<lambda>n. Inr (sint (word_of_nat n :: 32 word)))"

definition BytesToInt :: "bytes \<Rightarrow> int go" where
  "BytesToInt val = bind_go (read_or_panic DInt val) (\<lambda>n. Inr (int n))"

lemmas util_codec_defs = write_or_panic_def read_or_panic_def binary_Read_def
  Int64ToBytes_def Uint64ToBytes_def Int32ToBytes_def IntToBytes_def StrToBytes_def
  BytesToInt64_def BytesToUint64_def BytesToInt32_def BytesToInt_def

lemma Uint64ToBytes_ok [simp]: "Uint64ToBytes v = Inr (be_bytes 8 (unat v))"
  by (simp add: util_codec_defs)

lemma Int64ToBytes_ok [simp]: "Int64ToBytes v = Inr (be_bytes 8 (nat (v mod 2 ^ 64)))"
  by (simp add: util_codec_defs)

lemma BytesToUint64_eq:
  "BytesToUint64 val =
     (if length val < 8 then Inl LogPanic else Inr (word_of_nat (be_nat (take 8 val))))"
  by (simp add: util_codec_defs)

lemma BytesToInt32_eq:
  "BytesToInt32 val =
     (if length val < 4 then Inl LogPanic
      else Inr (sint (word_of_nat (be_nat (take 4 val)) :: 32 word)))"
  by (simp add: util_codec_defs)

lemma Uint64_roundtrip_bytes: "BytesToUint64 (be_bytes 8 (unat v)) = Inr v"
proof -
  have "unat v < 2 ^ 64" by (rule order_less_le_trans [OF unsigned_less]) simp
  then show ?thesis by (simp add: BytesToUint64_eq be_nat_be_bytes)
qed

lemma Int64_roundtrip_word:
  assumes "- (2 ^ 63) \<le> v" and "v < 2 ^ 63"
  shows "sint (word_of_nat (nat (v mod 2 ^ 64)) :: 64 word) = v"
proof -
  have "int (nat (v mod 2 ^ 64)) = v mod 2 ^ 64" by simp
  then have "(word_of_nat (nat (v mod 2 ^ 64)) :: 64 word) = word_of_int (v mod 2 ^ 64)"
    by (metis of_int_of_nat_eq)
  then have "sint (word_of_nat (nat (v mod 2 ^ 64)) :: 64 word)
      = (v mod 2 ^ 64 + 2 ^ 63) mod 2 ^ 64 - 2 ^ 63"
    by (simp add: int_word_sint)
  also have "(v mod 2 ^ 64 + 2 ^ 63) mod 2 ^ 64 = (v + 2 ^ 63) mod (2 ^ 64 :: int)"
    by (rule mod_add_left_eq)
  also have "\<dots> = v + 2 ^ 63" using assms by (intro mod_pos_pos_trivial) auto
  finally show ?thesis by simp
qed

lemma Int64_roundtrip_bytes:
  assumes "- (2 ^ 63) \<le> v" and "v < 2 ^ 63"
  shows "bind_go (Int64ToBytes v) BytesToInt64 = Inr v"
proof -
  have "v mod 2 ^ 64 < 2 ^ 64" by simp
  then have "nat (v mod 2 ^ 64) < 2 ^ 64" by (simp add: nat_less_iff)
  then have "be_nat (be_bytes 8 (nat (v mod 2 ^ 64))) = nat (v mod 2 ^ 64)"
    by (simp add: be_nat_be_bytes)
  then show ?thesis
    using Int64_roundtrip_word [OF assms] by (simp add: util_codec_defs)
qed

text \<open>String sets (\<open>ConvertStrSlice2Map\<close>, \<open>InMap\<close>): the map's values carry no data.\<close>

definition ConvertStrSlice2Map :: "string list \<Rightarrow> (string \<rightharpoonup> unit)" where
  "ConvertStrSlice2Map sl = foldl (\<lambda>set v. set(v \<mapsto> ())) Map.empty sl"

definition InMap :: "(string \<rightharpoonup> unit) \<Rightarrow> string \<Rightarrow> bool" where
  "InMap m s \<longleftrightarrow> m s \<noteq> None"

lemma dom_ConvertStrSlice2Map: "dom (ConvertStrSlice2Map sl) = set sl"
proof -
  have "dom (foldl (\<lambda>set v. set(v \<mapsto> ())) m sl) = dom m \<union> set sl" for m
    by (induction sl arbitrary: m) auto
  then show ?thesis by (simp add: ConvertStrSlice2Map_def)
qed

section \<open>Hexadecimal: common/bytes.go\<close>

text \<open>
  The hexadecimal digits of \<open>encoding/hex\<close>: lower case when encoding, either case when
  decoding. \<open>hex_take\<close> is what \<open>hex.Decode\<close> has produced when it returns, with or without an
  error: it stops at the first pair that holds an invalid digit, or at a last odd digit.
\<close>

definition hex_digit :: "nat \<Rightarrow> char" where
  "hex_digit n = (if n < 10 then char_of (48 + n) else char_of (87 + n))"

definition isHexCharacter :: "char \<Rightarrow> bool" where
  "isHexCharacter c \<longleftrightarrow> (CHR ''0'' \<le> c \<and> c \<le> CHR ''9'') \<or> (CHR ''a'' \<le> c \<and> c \<le> CHR ''f'')
     \<or> (CHR ''A'' \<le> c \<and> c \<le> CHR ''F'')"

definition hex_value :: "char \<Rightarrow> nat option" where
  "hex_value c =
     (if CHR ''0'' \<le> c \<and> c \<le> CHR ''9'' then Some (of_char c - 48)
      else if CHR ''a'' \<le> c \<and> c \<le> CHR ''f'' then Some (of_char c - 87)
      else if CHR ''A'' \<le> c \<and> c \<le> CHR ''F'' then Some (of_char c - 55)
      else None)"

fun hex_take :: "string \<Rightarrow> bytes" where
  "hex_take (p # q # r) =
     (case (hex_value p, hex_value q) of
        (Some a, Some b) \<Rightarrow> char_of (16 * a + b) # hex_take r
      | _ \<Rightarrow> [])"
| "hex_take _ = []"

definition Bytes2Hex :: "bytes \<Rightarrow> string" where
  "Bytes2Hex d = concat (map (\<lambda>c. [hex_digit (of_char c div 16), hex_digit (of_char c mod 16)]) d)"

definition Hex2Bytes :: "string \<Rightarrow> bytes" where
  "Hex2Bytes str = hex_take str"

definition hasHexPrefix :: "string \<Rightarrow> bool" where
  "hasHexPrefix str \<longleftrightarrow> length str \<ge> 2 \<and> str ! 0 = CHR ''0''
     \<and> (str ! 1 = CHR ''x'' \<or> str ! 1 = CHR ''X'')"

definition isHex :: "string \<Rightarrow> bool" where
  "isHex str \<longleftrightarrow> length str mod 2 = 0 \<and> list_all isHexCharacter str"

definition FromHex :: "string \<Rightarrow> bytes" where
  "FromHex s =
     (let s1 = (if length s > 1 \<and> (take 2 s = ''0x'' \<or> take 2 s = ''0X'') then drop 2 s else s);
          s2 = (if length s1 mod 2 = 1 then ''0'' @ s1 else s1)
      in Hex2Bytes s2)"

definition Hex2BytesFixed :: "string \<Rightarrow> nat \<Rightarrow> bytes" where
  "Hex2BytesFixed str flen =
     (let h = hex_take str in
      if length h = flen then h
      else if length h > flen then drop (length h - flen) h
      else replicate (flen - length h) (CHR 0x00) @ h)"

definition CopyBytes :: "bytes \<Rightarrow> bytes" where
  "CopyBytes b = b"

lemma nibble_bounds [simp]: "(of_char c :: nat) div 16 < 16" "(of_char c :: nat) mod 16 < 16"
  by (rule less_mult_imp_div_less, simp) simp

lemma hex_value_digit: "n < 16 \<Longrightarrow> hex_value (hex_digit n) = Some n"
proof -
  assume "n < 16"
  then have "n \<in> set [0..<16]" by simp
  moreover have "list_all (\<lambda>k. hex_value (hex_digit k) = Some k) [0..<16]"
    by (simp add: upt_rec hex_digit_def hex_value_def less_eq_char_def)
  ultimately show ?thesis by (auto simp: list_all_iff)
qed

lemma hex_value_Some_iff: "hex_value c \<noteq> None \<longleftrightarrow> isHexCharacter c"
  by (auto simp: hex_value_def isHexCharacter_def)

lemma hex_take_Bytes2Hex_append: "hex_take (Bytes2Hex d @ r) = d @ hex_take r"
proof (induction d)
  case Nil
  then show ?case by (simp add: Bytes2Hex_def)
next
  case (Cons c d)
  have "(of_char c :: nat) < 256" by simp
  then have "hex_value (hex_digit (of_char c div 16)) = Some (of_char c div 16)"
    and "hex_value (hex_digit (of_char c mod 16)) = Some (of_char c mod 16)"
    by (simp_all add: hex_value_digit)
  moreover have "(16 * (of_char c div 16) + of_char c mod 16 :: nat) = of_char c" by simp
  ultimately show ?case using Cons by (simp add: Bytes2Hex_def)
qed

lemma hex_take_Bytes2Hex [codec_simps]: "hex_take (Bytes2Hex d) = d"
  using hex_take_Bytes2Hex_append [of d "[]"] by simp

lemma length_Bytes2Hex [simp]: "length (Bytes2Hex d) = 2 * length d"
  by (induction d) (auto simp: Bytes2Hex_def)

lemma hex_digit_isHex: "n < 16 \<Longrightarrow> isHexCharacter (hex_digit n)"
  using hex_value_digit [of n] hex_value_Some_iff [of "hex_digit n"] by simp

lemma isHex_Bytes2Hex: "isHex (Bytes2Hex d)"
  by (induction d) (auto simp: isHex_def Bytes2Hex_def intro!: hex_digit_isHex)

lemma length_hex_take: "length (hex_take s) \<le> length s div 2"
  by (induction s rule: hex_take.induct) (auto split: option.split)

lemma isHex_length_hex_take: "isHex s \<Longrightarrow> length (hex_take s) = length s div 2"
proof (induction s rule: hex_take.induct)
  case (1 p q r)
  then have "isHexCharacter p" "isHexCharacter q" "isHex r" by (auto simp: isHex_def)
  then obtain a b where "hex_value p = Some a" "hex_value q = Some b"
    by (metis hex_value_Some_iff not_None_eq)
  with 1 \<open>isHex r\<close> show ?case by simp
qed (auto simp: isHex_def)

end
