(* ===== verification/Hash_Types.thy ===== *)
theory Hash_Types
  imports Codec
begin

text \<open>
  \<open>common/types.go\<close>: the fixed-size types \<open>Hash\<close> (32 bytes) and \<open>Address\<close> (20 bytes) and
  their conversions. An array value is the list of its bytes; \<open>is_hash\<close> and \<open>is_address\<close> say
  that the length is right, and every constructor establishes them.
\<close>

abbreviation HashLength :: nat where "HashLength \<equiv> 32"
abbreviation AddressLength :: nat where "AddressLength \<equiv> 20"
abbreviation zero_byte :: char where "zero_byte \<equiv> CHR 0x00"

type_synonym hash = bytes
type_synonym address = bytes

definition is_hash :: "bytes \<Rightarrow> bool" where
  "is_hash h \<longleftrightarrow> length h = HashLength"

definition is_address :: "bytes \<Rightarrow> bool" where
  "is_address a \<longleftrightarrow> length a = AddressLength"

section \<open>math/big: minimal big-endian bytes\<close>

text \<open>\<open>big.Int.Bytes\<close> has no leading zero byte; \<open>big.Int.SetBytes\<close> is \<^const>\<open>be_nat\<close>.\<close>

fun big_bytes :: "nat \<Rightarrow> bytes" where
  "big_bytes n = (if n = 0 then [] else big_bytes (n div 256) @ [char_of n])"

declare big_bytes.simps [simp del]

lemma big_bytes_0 [simp]: "big_bytes 0 = []"
  by (simp add: big_bytes.simps)

lemma be_nat_big_bytes [codec_simps]: "be_nat (big_bytes n) = n"
proof (induction n rule: big_bytes.induct)
  case (1 n)
  then show ?case by (cases "n = 0") (simp_all add: big_bytes.simps [of n])
qed

lemma be_nat_leading_zero: "be_nat (zero_byte # bs) = be_nat bs"
  by (simp add: be_nat_def)

lemma of_char_0_iff: "of_char c = (0::nat) \<longleftrightarrow> c = zero_byte"
  using of_char_eq_iff [of c zero_byte, where ?'a = nat] by simp

lemma be_nat_eq_0_iff: "be_nat bs = 0 \<longleftrightarrow> (\<forall>c \<in> set bs. c = zero_byte)"
  by (induction bs rule: rev_induct) (auto simp: of_char_0_iff)

lemma be_nat_pos: "bs \<noteq> [] \<Longrightarrow> hd bs \<noteq> zero_byte \<Longrightarrow> be_nat bs \<noteq> 0"
  using be_nat_eq_0_iff hd_in_set by metis

lemma big_bytes_be_nat [codec_simps]:
  "bs \<noteq> [] \<Longrightarrow> hd bs \<noteq> zero_byte \<Longrightarrow> big_bytes (be_nat bs) = bs"
proof (induction bs rule: rev_induct)
  case Nil
  then show ?case by simp
next
  case (snoc c bs)
  have pos: "256 * be_nat bs + of_char c \<noteq> 0"
    using be_nat_pos [OF snoc.prems] by simp
  have d: "(256 * be_nat bs + of_char c) div 256 = be_nat bs"
    using nat_of_char_less_256 [of c] by simp
  have "big_bytes (be_nat bs) = bs"
    using snoc by (cases bs) auto
  with pos d show ?case
    by (simp add: big_bytes.simps [of "256 * be_nat bs + of_char c"] char_of_last_digit)
qed

lemma be_nat_zeros: "be_nat (replicate k zero_byte @ bs) = be_nat bs"
  by (induction k) (simp_all add: be_nat_leading_zero)

lemma big_bytes_zeros:
  "bs = [] \<or> hd bs \<noteq> zero_byte \<Longrightarrow> big_bytes (be_nat (replicate k zero_byte @ bs)) = bs"
  using be_nat_zeros [of k "[]"] by (cases "bs = []") (simp_all add: be_nat_zeros big_bytes_be_nat)

lemma leading_zeros_split:
  obtains k r where "bs = replicate k zero_byte @ r" and "r = [] \<or> hd r \<noteq> zero_byte"
proof -
  let ?z = "takeWhile (\<lambda>c. c = zero_byte) bs" and ?r = "dropWhile (\<lambda>c. c = zero_byte) bs"
  have "?z = replicate (length ?z) zero_byte"
  proof (rule replicate_eqI)
    fix y assume "y \<in> set ?z"
    then show "y = zero_byte" by (rule set_takeWhileD [THEN conjunct2])
  qed simp
  moreover have "bs = ?z @ ?r" by simp
  moreover have "?r = [] \<or> hd ?r \<noteq> zero_byte"
    using hd_dropWhile by blast
  ultimately show thesis using that by metis
qed

section \<open>Hashes\<close>

definition BytesToHash :: "bytes \<Rightarrow> hash" where
  "BytesToHash d =
     (let d1 = (if length d > HashLength then take HashLength d else d)
      in d1 @ replicate (HashLength - length d1) zero_byte)"

definition BigToHash :: "nat \<Rightarrow> hash" where
  "BigToHash b = BytesToHash (big_bytes b)"

definition HexToHash :: "string \<Rightarrow> hash" where
  "HexToHash s = BytesToHash (FromHex s)"

definition Hex :: "bytes \<Rightarrow> bytes" where
  "Hex b = ''0x'' @ Bytes2Hex b"

definition Hash_Hex :: "hash \<Rightarrow> string" where
  "Hash_Hex h = Hex h"

definition Hash_Big :: "hash \<Rightarrow> nat" where
  "Hash_Big h = be_nat h"

definition Hash_Nil :: "hash \<Rightarrow> bool" where
  "Hash_Nil h \<longleftrightarrow> h = replicate HashLength zero_byte"

text \<open>
  \<open>hex.Decode\<close> into a zeroed buffer of \<open>n\<close> bytes: a write past the buffer panics.
\<close>

definition hex_decode_into :: "nat \<Rightarrow> string \<Rightarrow> bytes go" where
  "hex_decode_into n src =
     (let h = hex_take src in
      if length h > n then Inl IndexRange else Inr (h @ replicate (n - length h) zero_byte))"

definition DecodeHash :: "bytes \<Rightarrow> hash go" where
  "DecodeHash data =
     (if length data < 2 then Inl IndexRange
      else bind_go (hex_decode_into HashLength (drop 2 data)) (\<lambda>dec. Inr (BytesToHash dec)))"

lemma BytesToHash_is_hash [intro, simp]: "is_hash (BytesToHash d)"
  by (auto simp: is_hash_def BytesToHash_def Let_def)

lemma BytesToHash_id: "is_hash d \<Longrightarrow> BytesToHash d = d"
  by (simp add: is_hash_def BytesToHash_def)

lemma BytesToHash_keeps_left: "length d \<ge> HashLength \<Longrightarrow> BytesToHash d = take HashLength d"
  by (auto simp: BytesToHash_def Let_def)

lemma BytesToHash_pads_right:
  "length d \<le> HashLength \<Longrightarrow> BytesToHash d = d @ replicate (HashLength - length d) zero_byte"
  by (simp add: BytesToHash_def)

lemma DecodeHash_Hex: "is_hash h \<Longrightarrow> DecodeHash (Hash_Hex h) = Inr h"
  by (simp add: DecodeHash_def Hash_Hex_def Hex_def hex_decode_into_def hex_take_Bytes2Hex
      BytesToHash_id is_hash_def)

lemma FromHex_Hex: "FromHex (Hex b) = b"
  by (simp add: FromHex_def Hex_def Hex2Bytes_def hex_take_Bytes2Hex)

lemma BigToHash_Big_zeros:
  assumes "is_hash h" and "h = replicate k zero_byte @ r" and "r = [] \<or> hd r \<noteq> zero_byte"
  shows "BigToHash (Hash_Big h) = r @ replicate k zero_byte"
proof -
  have "length r = HashLength - k" "k \<le> HashLength" using assms(1,2) by (auto simp: is_hash_def)
  then show ?thesis
    using assms(2,3) by (simp add: BigToHash_def Hash_Big_def big_bytes_zeros BytesToHash_pads_right)
qed

lemma BigToHash_Big_iff:
  assumes "is_hash h"
  shows "BigToHash (Hash_Big h) = h \<longleftrightarrow> hd h \<noteq> zero_byte \<or> Hash_Nil h"
proof -
  obtain k r where h: "h = replicate k zero_byte @ r" and r: "r = [] \<or> hd r \<noteq> zero_byte"
    by (rule leading_zeros_split)
  have eq: "BigToHash (Hash_Big h) = r @ replicate k zero_byte"
    using BigToHash_Big_zeros [OF assms h r] .
  consider "k = 0" | "k > 0" "r = []" | "k > 0" "r \<noteq> []" by auto
  then show ?thesis
  proof cases
    case 1
    with h r assms have "hd h \<noteq> zero_byte" by (auto simp: is_hash_def)
    moreover have "BigToHash (Hash_Big h) = h" using eq 1 h by simp
    ultimately show ?thesis by simp
  next
    case 2
    with eq h have "BigToHash (Hash_Big h) = h" by simp
    moreover have "Hash_Nil h" using 2 h assms by (simp add: is_hash_def Hash_Nil_def)
    ultimately show ?thesis by simp
  next
    case 3
    then have "hd h = zero_byte" "hd (r @ replicate k zero_byte) \<noteq> zero_byte"
      using h r by (cases k; auto)+
    moreover have "\<not> Hash_Nil h"
      using 3 h r by (metis Hash_Nil_def append_is_Nil_conv hd_in_set in_set_replicate
          in_set_conv_decomp append_Nil2 set_append UnCI)
    ultimately show ?thesis by (metis eq)
  qed
qed

section \<open>Addresses\<close>

definition BytesToAddress :: "bytes \<Rightarrow> address" where
  "BytesToAddress b =
     (let b1 = (if length b > AddressLength then take AddressLength b else b)
      in b1 @ replicate (AddressLength - length b1) zero_byte)"

definition BigToAddress :: "nat \<Rightarrow> address" where
  "BigToAddress b = BytesToAddress (big_bytes b)"

definition Address_Big :: "address \<Rightarrow> nat" where
  "Address_Big a = be_nat a"

definition Address_Hex :: "address \<Rightarrow> string" where
  "Address_Hex a = ''0x'' @ Bytes2Hex a"

definition Address_Nil :: "address \<Rightarrow> bool" where
  "Address_Nil a \<longleftrightarrow> a = replicate AddressLength zero_byte"

definition HashToAddr :: "hash \<Rightarrow> address" where
  "HashToAddr h = BytesToAddress (take AddressLength h)"

definition Uint2Bytes :: "uint64 \<Rightarrow> bytes" where
  "Uint2Bytes v = be_bytes 8 (unat v)"

definition Bytes2Uint :: "bytes \<Rightarrow> uint64 go" where
  "Bytes2Uint d = (if length d < 8 then Inl IndexRange else Inr (word_of_nat (be_nat (take 8 d))))"

text \<open>
  \<open>CreateAddress\<close> hashes the address and a nonce; SHA-256 is the parameter \<open>sha\<close>.
\<close>

definition CreateAddress :: "(bytes \<Rightarrow> bytes) \<Rightarrow> address \<Rightarrow> uint64 \<Rightarrow> address" where
  "CreateAddress sha addr nonce = BytesToAddress (sha (addr @ be_bytes 8 (unat nonce)))"

text \<open>
  \<open>HexToAddress\<close> slices \<open>h[:2]\<close>, which Go checks against the capacity of \<open>[]byte(d)\<close>; the
  allocator chooses it, so it is the argument \<open>cap\<close> (at least the length).
\<close>

definition HexToAddress :: "nat \<Rightarrow> string \<Rightarrow> address go" where
  "HexToAddress cap d =
     (if cap < 2 then Inl IndexRange
      else
        let h = (if take 2 (d @ replicate (cap - length d) zero_byte) = ''0x'' then drop 2 d else d)
        in bind_go (hex_decode_into AddressLength h) (\<lambda>dec. Inr (BytesToAddress dec)))"

lemma BytesToAddress_is_address [intro, simp]: "is_address (BytesToAddress b)"
  by (auto simp: is_address_def BytesToAddress_def Let_def)

lemma BytesToAddress_id: "is_address a \<Longrightarrow> BytesToAddress a = a"
  by (simp add: is_address_def BytesToAddress_def)

lemma HexToAddress_Hex:
  "is_address a \<Longrightarrow> HexToAddress (length (Address_Hex a)) (Address_Hex a) = Inr a"
  by (simp add: HexToAddress_def Address_Hex_def hex_decode_into_def hex_take_Bytes2Hex
      BytesToAddress_id is_address_def)

lemma length_Uint2Bytes [simp]: "length (Uint2Bytes v) = 8"
  by (simp add: Uint2Bytes_def)

lemma Bytes2Uint_Uint2Bytes: "Bytes2Uint (Uint2Bytes v @ r) = Inr v"
proof -
  have "unat v < 2 ^ 64" by (rule order_less_le_trans [OF unsigned_less]) simp
  then show ?thesis by (simp add: Bytes2Uint_def Uint2Bytes_def be_nat_be_bytes)
qed

lemma Uint2Bytes_inject [simp]: "Uint2Bytes v = Uint2Bytes w \<longleftrightarrow> v = w"
  by (metis Bytes2Uint_Uint2Bytes append_Nil2 sum.inject(2))

end
