(* ===== verification/Merkle.thy ===== *)
theory Merkle
  imports Prelude
begin

text \<open>
  \<open>MerkleTree/merkel.go\<close>: the Merkle tree over a block's transactions and its proof paths.
  MD5 is the parameter \<open>md5\<close>. A \<open>*MerkleNode\<close> is \<^term>\<open>MNil\<close> or a node; the tree is never
  mutated after a level is built, so it is a tree value. \<open>GetMerkleNode\<close> calls itself until one
  node is left and never returns on an empty level, so it is a partial function whose \<open>None\<close> is
  the endless recursion. The lemmas relate it to a level-by-level digest function.
\<close>

section \<open>The tree and its construction\<close>

datatype mtree = MNil | MNode mtree mtree bytes

fun mdata :: "mtree \<Rightarrow> bytes" where
  "mdata MNil = []"
| "mdata (MNode l r d) = d"

record merkle_tree =
  mt_Root :: mtree
  mt_Hash :: bytes

definition mleaf :: "bytes \<Rightarrow> mtree" where
  "mleaf d = MNode MNil MNil d"

fun merkle_pairs :: "(bytes \<Rightarrow> bytes) \<Rightarrow> mtree list \<Rightarrow> mtree list" where
  "merkle_pairs md5 (a # b # r) = MNode a b (md5 (mdata a @ mdata b)) # merkle_pairs md5 r"
| "merkle_pairs md5 _ = []"

text \<open>
  On an odd level the last node is copied and the copy's children are set to nil after the
  level is built; its digest is all that the pairing reads, so the copy is made without them.
\<close>

definition merkle_even :: "mtree list \<Rightarrow> mtree list" where
  "merkle_even nodes =
     (if length nodes mod 2 \<noteq> 0 then nodes @ [mleaf (mdata (last nodes))] else nodes)"

partial_function (option) GetMerkleNode ::
  "(bytes \<Rightarrow> bytes) \<Rightarrow> mtree list \<Rightarrow> bool \<Rightarrow> mtree list option" where
  "GetMerkleNode md5 merkleNodes isLeaf =
     (if \<not> isLeaf \<and> length merkleNodes = 1 then Some merkleNodes
      else GetMerkleNode md5 (merkle_pairs md5 (merkle_even merkleNodes)) False)"

definition GetMerkleRoot :: "(bytes \<Rightarrow> bytes) \<Rightarrow> bytes list \<Rightarrow> merkle_tree go" where
  "GetMerkleRoot md5 data =
     (let data1 = (if length data mod 2 \<noteq> 0 then data @ [last data] else data);
          nodes = map (\<lambda>v. mleaf (md5 v)) data1
      in case GetMerkleNode md5 nodes True of
           None \<Rightarrow> Inl StackOverflow
         | Some [] \<Rightarrow> Inl IndexRange
         | Some (n # _) \<Rightarrow> Inr \<lparr>mt_Root = n, mt_Hash = mdata n\<rparr>)"

section \<open>Reference: digests level by level\<close>

fun digest_level :: "(bytes \<Rightarrow> bytes) \<Rightarrow> bytes list \<Rightarrow> bytes list" where
  "digest_level md5 (a # b # r) = md5 (a @ b) # digest_level md5 r"
| "digest_level md5 [a] = [md5 (a @ a)]"
| "digest_level md5 [] = []"

lemma length_digest_level [simp]: "length (digest_level md5 ds) = Suc (length ds) div 2"
  by (induction md5 ds rule: digest_level.induct) auto

function merkle_digest :: "(bytes \<Rightarrow> bytes) \<Rightarrow> bytes list \<Rightarrow> bytes" where
  "merkle_digest md5 [] = []"
| "merkle_digest md5 [d] = d"
| "merkle_digest md5 (a # b # r) = merkle_digest md5 (digest_level md5 (a # b # r))"
  by pat_completeness auto
termination
  by (relation "measure (\<lambda>(md5, ds). length ds)") auto

definition merkle_root_digest :: "(bytes \<Rightarrow> bytes) \<Rightarrow> bytes list \<Rightarrow> bytes" where
  "merkle_root_digest md5 data = merkle_digest md5 (digest_level md5 (map md5 data))"

lemma merkle_digest_level: "length ds \<noteq> 1 \<Longrightarrow> merkle_digest md5 (digest_level md5 ds) = merkle_digest md5 ds"
  by (cases "(md5, ds)" rule: merkle_digest.cases) auto

lemma merkle_pairs_digests:
  "even (length ns) \<Longrightarrow> map mdata (merkle_pairs md5 ns) = digest_level md5 (map mdata ns)"
  by (induction md5 ns rule: merkle_pairs.induct) auto

lemma digest_level_dup_last:
  "odd (length ds) \<Longrightarrow> digest_level md5 (ds @ [last ds]) = digest_level md5 ds"
  by (induction md5 ds rule: digest_level.induct) auto

lemma even_merkle_even [simp]: "even (length (merkle_even ns))"
  by (auto simp: merkle_even_def)

lemma merkle_level_digests:
  "map mdata (merkle_pairs md5 (merkle_even ns)) = digest_level md5 (map mdata ns)"
proof -
  have "map mdata (merkle_pairs md5 (merkle_even ns)) = digest_level md5 (map mdata (merkle_even ns))"
    by (rule merkle_pairs_digests) simp
  also have "\<dots> = digest_level md5 (map mdata ns)"
    using digest_level_dup_last [of "map mdata ns" md5]
    by (cases "ns = []") (auto simp: merkle_even_def mleaf_def last_map odd_iff_mod_2_eq_one)
  finally show ?thesis .
qed

lemma length_merkle_level [simp]:
  "length (merkle_pairs md5 (merkle_even ns)) = Suc (length ns) div 2"
  using arg_cong [OF merkle_level_digests [of md5 ns], of length] by simp

lemma GetMerkleNode_inner:
  "ns \<noteq> [] \<Longrightarrow>
   \<exists>n. GetMerkleNode md5 ns False = Some [n] \<and> mdata n = merkle_digest md5 (map mdata ns)"
proof (induction "length ns" arbitrary: ns rule: less_induct)
  case less
  show ?case
  proof (cases "length ns = 1")
    case True
    then show ?thesis by (auto simp: GetMerkleNode.simps length_Suc_conv)
  next
    case False
    let ?up = "merkle_pairs md5 (merkle_even ns)"
    from False less.prems have "2 \<le> length ns" by (cases ns) (auto simp: Suc_le_eq)
    then have "length ?up < length ns" "?up \<noteq> []" by (simp_all flip: length_greater_0_conv)
    then obtain n where "GetMerkleNode md5 ?up False = Some [n]"
      and "mdata n = merkle_digest md5 (digest_level md5 (map mdata ns))"
      using less.hyps [of ?up] by (auto simp: merkle_level_digests)
    then show ?thesis
      using False by (simp add: GetMerkleNode.simps [of md5 ns] merkle_digest_level)
  qed
qed

lemma GetMerkleNode_leaves:
  assumes "ns \<noteq> []"
  shows "\<exists>n. GetMerkleNode md5 ns True = Some [n]
    \<and> mdata n = merkle_digest md5 (digest_level md5 (map mdata ns))"
proof -
  let ?up = "merkle_pairs md5 (merkle_even ns)"
  have "?up \<noteq> []" using assms by (simp flip: length_greater_0_conv)
  from GetMerkleNode_inner [OF this, of md5] show ?thesis
    by (simp add: GetMerkleNode.simps [of md5 ns True] merkle_level_digests)
qed

definition merkle_leaves :: "(bytes \<Rightarrow> bytes) \<Rightarrow> bytes list \<Rightarrow> mtree list" where
  "merkle_leaves md5 data =
     map (\<lambda>v. mleaf (md5 v)) (if length data mod 2 \<noteq> 0 then data @ [last data] else data)"

lemma merkle_leaves_level:
  "digest_level md5 (map mdata (merkle_leaves md5 data)) = digest_level md5 (map md5 data)"
  using digest_level_dup_last [of "map md5 data" md5]
  by (cases "data = []")
     (auto simp: merkle_leaves_def mleaf_def last_map odd_iff_mod_2_eq_one comp_def)

lemma GetMerkleRoot_eq:
  "GetMerkleRoot md5 data =
     (case GetMerkleNode md5 (merkle_leaves md5 data) True of
        None \<Rightarrow> Inl StackOverflow
      | Some [] \<Rightarrow> Inl IndexRange
      | Some (n # _) \<Rightarrow> Inr \<lparr>mt_Root = n, mt_Hash = mdata n\<rparr>)"
  unfolding GetMerkleRoot_def merkle_leaves_def Let_def ..

lemma GetMerkleRoot_Inr:
  assumes "data \<noteq> []"
  obtains n where "GetMerkleNode md5 (merkle_leaves md5 data) True = Some [n]"
    and "GetMerkleRoot md5 data = Inr \<lparr>mt_Root = n, mt_Hash = mdata n\<rparr>"
    and "mdata n = merkle_root_digest md5 data"
proof -
  have "merkle_leaves md5 data \<noteq> []" using assms by (auto simp: merkle_leaves_def)
  from GetMerkleNode_leaves [OF this, of md5] that show thesis
    by (auto simp: GetMerkleRoot_eq merkle_leaves_level merkle_root_digest_def)
qed

lemma GetMerkleRoot_digest:
  assumes "data \<noteq> []"
  shows "\<exists>t. GetMerkleRoot md5 data = Inr t \<and> mt_Hash t = merkle_root_digest md5 data
    \<and> mdata (mt_Root t) = mt_Hash t"
  using GetMerkleRoot_Inr [OF assms, of md5] by fastforce

text \<open>An empty level is never left: the recursion on it does not return.\<close>

lemma GetMerkleNode_returns_nonempty: "GetMerkleNode md5 ns isLeaf = Some r \<Longrightarrow> ns \<noteq> []"
proof (rule GetMerkleNode.raw_induct [where P = "\<lambda>md5 ns isLeaf r. ns \<noteq> []"])
  fix f md5 ns isLeaf r
  assume IH: "\<And>md5 ns isLeaf r. f md5 ns isLeaf = Some r \<Longrightarrow> ns \<noteq> []"
    and eq: "(if \<not> isLeaf \<and> length ns = 1 then Some ns
       else f md5 (merkle_pairs md5 (merkle_even ns)) False) = Some r"
  show "ns \<noteq> []"
  proof
    assume "ns = []"
    then have "f md5 [] False = Some r" using eq by (simp add: merkle_even_def)
    then show False using IH by blast
  qed
qed

lemma GetMerkleRoot_empty: "GetMerkleRoot md5 [] = Inl StackOverflow"
  using GetMerkleNode_returns_nonempty [of md5 "[]" True]
  by (cases "GetMerkleNode md5 [] True") (auto simp: GetMerkleRoot_def)

lemma GetMerkleRoot_cases:
  "GetMerkleRoot md5 data =
     (if data = [] then Inl StackOverflow
      else Inr (projr (GetMerkleRoot md5 data)))"
  using GetMerkleRoot_empty GetMerkleRoot_digest [of data md5] by auto

section \<open>Proof paths\<close>

text \<open>
  \<open>GetNodeProve\<close> searches the tree depth first and carries the digests of the path; a nil
  slice is \<open>[]\<close>, and a path that is returned holds at least one digest.
\<close>

fun GetNodeProve :: "mtree \<Rightarrow> bytes \<Rightarrow> bytes list \<Rightarrow> bytes list" where
  "GetNodeProve MNil hash prove = []"
| "GetNodeProve (MNode l r d) hash prove =
     (if d = hash then prove @ [d]
      else
        let prove1 = (if l = MNil \<or> r = MNil then [] else prove @ [d]);
            p = (if l \<noteq> MNil then GetNodeProve l hash prove1 else [])
        in if p \<noteq> [] then p
           else if r \<noteq> MNil then GetNodeProve r hash prove1 else [])"

definition GetProve :: "(bytes \<Rightarrow> bytes) \<Rightarrow> merkle_tree option \<Rightarrow> bytes \<Rightarrow> string + bytes list" where
  "GetProve md5 t node =
     (case t of
        None \<Rightarrow> Inl ''no tree''
      | Some mt \<Rightarrow>
          if length node = 0 then Inl ''no data''
          else Inr (GetNodeProve (mt_Root mt) (md5 node) []))"

text \<open>\<open>is_path t p\<close>: \<open>p\<close> lists the digests on a path from the root of \<open>t\<close> to some node.\<close>

fun is_path :: "mtree \<Rightarrow> bytes list \<Rightarrow> bool" where
  "is_path (MNode l r d) [x] = (x = d)"
| "is_path (MNode l r d) (x # y # ys) = (x = d \<and> (is_path l (y # ys) \<or> is_path r (y # ys)))"
| "is_path _ _ = False"

fun digests :: "mtree \<Rightarrow> bytes set" where
  "digests MNil = {}"
| "digests (MNode l r d) = insert d (digests l \<union> digests r)"

text \<open>Every node has two children or none.\<close>

fun full_tree :: "mtree \<Rightarrow> bool" where
  "full_tree MNil = True"
| "full_tree (MNode l r d) = ((l = MNil \<longleftrightarrow> r = MNil) \<and> full_tree l \<and> full_tree r)"

lemma GetNodeProve_sound:
  assumes "GetNodeProve t hash prove \<noteq> []" and "full_tree t"
  shows "\<exists>p. GetNodeProve t hash prove = prove @ p \<and> is_path t p \<and> last p = hash \<and> p \<noteq> []"
  using assms
proof (induction t hash prove rule: GetNodeProve.induct)
  case (1 hash prove)
  then show ?case by simp
next
  case (2 l r d hash prove)
  show ?case
  proof (cases "d = hash")
    case True
    then show ?thesis by (intro exI [of _ "[d]"]) simp
  next
    case False
    with "2.prems" have both: "l \<noteq> MNil" "r \<noteq> MNil" "full_tree l" "full_tree r"
      by (auto split: if_splits)
    have step: "\<exists>p. t' @ q = prove @ p \<and> is_path (MNode l r d) p \<and> last p = hash \<and> p \<noteq> []"
      if "t' = prove @ [d]" "is_path l q \<or> is_path r q" "last q = hash" "q \<noteq> []" for t' q
      using that by (cases q) (auto intro!: exI [of _ "d # q"])
    show ?thesis
    proof (cases "GetNodeProve l hash (prove @ [d]) = []")
      case True
      with "2.prems" False both have "GetNodeProve r hash (prove @ [d]) \<noteq> []"
        by (simp split: if_splits)
      with "2.IH"(2) [OF False refl refl] True both False
      obtain q where "GetNodeProve r hash (prove @ [d]) = (prove @ [d]) @ q" "is_path r q"
        "last q = hash" "q \<noteq> []" by auto
      with step [of "prove @ [d]" q] True False both show ?thesis by simp
    next
      case nonempty: False
      with "2.IH"(1) [OF False refl] both False
      obtain q where "GetNodeProve l hash (prove @ [d]) = (prove @ [d]) @ q" "is_path l q"
        "last q = hash" "q \<noteq> []" by auto
      with step [of "prove @ [d]" q] nonempty False both show ?thesis by simp
    qed
  qed
qed

lemma GetNodeProve_complete:
  "hash \<in> digests t \<Longrightarrow> full_tree t \<Longrightarrow> GetNodeProve t hash prove \<noteq> []"
  by (induction t hash prove rule: GetNodeProve.induct) (auto simp: Let_def)

lemma GetNodeProve_absent: "hash \<notin> digests t \<Longrightarrow> GetNodeProve t hash prove = []"
  by (induction t hash prove rule: GetNodeProve.induct) (auto simp: Let_def)

lemma is_path_hd: "is_path t p \<Longrightarrow> hd p = mdata t"
  by (induction t p rule: is_path.induct) auto

section \<open>What the built tree holds\<close>

lemma merkle_pairs_full:
  "\<forall>n \<in> set ns. n \<noteq> MNil \<and> full_tree n \<Longrightarrow>
   \<forall>n \<in> set (merkle_pairs md5 ns). n \<noteq> MNil \<and> full_tree n"
  by (induction md5 ns rule: merkle_pairs.induct) auto

lemma merkle_even_full:
  "\<forall>n \<in> set ns. n \<noteq> MNil \<and> full_tree n \<Longrightarrow>
   \<forall>n \<in> set (merkle_even ns). n \<noteq> MNil \<and> full_tree n"
  by (auto simp: merkle_even_def mleaf_def)

lemma merkle_pairs_digest_sets:
  "even (length ns) \<Longrightarrow> (\<Union>n \<in> set ns. digests n) \<subseteq> (\<Union>n \<in> set (merkle_pairs md5 ns). digests n)"
  by (induction md5 ns rule: merkle_pairs.induct) auto

lemma merkle_level_digest_sets:
  "(\<Union>n \<in> set ns. digests n) \<subseteq> (\<Union>n \<in> set (merkle_pairs md5 (merkle_even ns)). digests n)"
proof -
  have "set ns \<subseteq> set (merkle_even ns)" by (auto simp: merkle_even_def)
  then have "(\<Union>n \<in> set ns. digests n) \<subseteq> (\<Union>n \<in> set (merkle_even ns). digests n)" by blast
  also have "\<dots> \<subseteq> (\<Union>n \<in> set (merkle_pairs md5 (merkle_even ns)). digests n)"
    by (rule merkle_pairs_digest_sets) simp
  finally show ?thesis .
qed

lemma GetMerkleNode_holds:
  assumes "GetMerkleNode md5 ns isLeaf = Some out" and "\<forall>n \<in> set ns. n \<noteq> MNil \<and> full_tree n"
  shows "(\<forall>n \<in> set out. full_tree n) \<and> (\<Union>n \<in> set ns. digests n) \<subseteq> (\<Union>n \<in> set out. digests n)"
proof -
  let ?ok = "\<lambda>ns. \<forall>n \<in> set ns. n \<noteq> MNil \<and> full_tree n"
  let ?P = "\<lambda>md5 ns isLeaf out. ?ok ns \<longrightarrow> (\<forall>n \<in> set out. full_tree n)
    \<and> (\<Union>n \<in> set ns. digests n) \<subseteq> (\<Union>n \<in> set out. digests n)"
  have "?P md5 ns isLeaf out"
  proof (rule GetMerkleNode.raw_induct [where P = ?P, OF _ assms(1)])
    fix f md5 ns isLeaf out
    assume IH: "\<And>md5 ns isLeaf out. f md5 ns isLeaf = Some out \<Longrightarrow> ?P md5 ns isLeaf out"
      and eq: "(if \<not> isLeaf \<and> length ns = 1 then Some ns
         else f md5 (merkle_pairs md5 (merkle_even ns)) False) = Some out"
    show "?P md5 ns isLeaf out"
    proof (cases "\<not> isLeaf \<and> length ns = 1")
      case True
      with eq show ?thesis by auto
    next
      case False
      with eq have f: "f md5 (merkle_pairs md5 (merkle_even ns)) False = Some out" by argo
      show ?thesis
        using IH [OF f] merkle_pairs_full [OF merkle_even_full, of ns md5]
          merkle_level_digest_sets [of ns md5] by (meson order_trans)
    qed
  qed
  with assms(2) show ?thesis by blast
qed

lemma GetMerkleRoot_holds:
  assumes "GetMerkleRoot md5 data = Inr t"
  shows "full_tree (mt_Root t)" and "md5 ` set data \<subseteq> digests (mt_Root t)"
proof -
  have "data \<noteq> []" using assms GetMerkleRoot_empty by auto
  then obtain n where n: "GetMerkleNode md5 (merkle_leaves md5 data) True = Some [n]"
    and t: "GetMerkleRoot md5 data = Inr \<lparr>mt_Root = n, mt_Hash = mdata n\<rparr>"
    by (rule GetMerkleRoot_Inr)
  have root: "mt_Root t = n" using t assms by auto
  have "\<forall>n \<in> set (merkle_leaves md5 data). n \<noteq> MNil \<and> full_tree n"
    by (auto simp: merkle_leaves_def mleaf_def)
  note holds = GetMerkleNode_holds [OF n this]
  show "full_tree (mt_Root t)" using holds root by simp
  have "md5 ` set data \<subseteq> (\<Union>n \<in> set (merkle_leaves md5 data). digests n)"
    by (auto simp: merkle_leaves_def mleaf_def)
  then show "md5 ` set data \<subseteq> digests (mt_Root t)" using holds root by auto
qed

section \<open>The root binds the data\<close>

text \<open>
  \<open>merkle_inputs md5 data\<close> collects every byte string that MD5 is applied to while the root of
  \<open>data\<close> is computed: the leaves' data and each concatenation of two digests.
\<close>

fun level_inputs :: "bytes list \<Rightarrow> bytes set" where
  "level_inputs (a # b # r) = insert (a @ b) (level_inputs r)"
| "level_inputs [a] = {a @ a}"
| "level_inputs [] = {}"

function digest_inputs :: "(bytes \<Rightarrow> bytes) \<Rightarrow> bytes list \<Rightarrow> bytes set" where
  "digest_inputs md5 [] = {}"
| "digest_inputs md5 [d] = {}"
| "digest_inputs md5 (a # b # r) =
     level_inputs (a # b # r) \<union> digest_inputs md5 (digest_level md5 (a # b # r))"
  by pat_completeness auto
termination
  by (relation "measure (\<lambda>(md5, ds). length ds)") auto

definition merkle_inputs :: "(bytes \<Rightarrow> bytes) \<Rightarrow> bytes list \<Rightarrow> bytes set" where
  "merkle_inputs md5 data =
     set data \<union> level_inputs (map md5 data) \<union> digest_inputs md5 (digest_level md5 (map md5 data))"

lemma digest_level_lengths:
  "(\<And>b. length (md5 b) = 16) \<Longrightarrow> \<forall>d \<in> set (digest_level md5 ds). length d = 16"
  by (induction md5 ds rule: digest_level.induct) auto

lemma digest_level_inj:
  assumes "length ds = length es"
    and "\<forall>d \<in> set ds. length d = 16" and "\<forall>d \<in> set es. length d = 16"
    and "inj_on md5 (level_inputs ds \<union> level_inputs es)"
    and "digest_level md5 ds = digest_level md5 es"
  shows "ds = es"
  using assms
proof (induction md5 ds arbitrary: es rule: digest_level.induct)
  case (1 md5 a b r)
  then obtain a' b' r' where es: "es = a' # b' # r'" and len: "length r = length r'"
    by (metis (no_types) Suc_length_conv length_Cons)
  from "1.prems"(5) es have heads: "md5 (a @ b) = md5 (a' @ b')"
    and tails: "digest_level md5 r = digest_level md5 r'" by simp_all
  have "a @ b = a' @ b'"
    by (rule inj_onD [OF "1.prems"(4) heads]) (simp_all add: es)
  then have "a = a' \<and> b = b'" using "1.prems"(2,3) es by simp
  moreover have "inj_on md5 (level_inputs r \<union> level_inputs r')"
    using "1.prems"(4) es by (auto intro: inj_on_subset)
  then have "r = r'" using "1.IH" [of r'] "1.prems"(2,3) len tails es by simp
  ultimately show ?case using es by simp
next
  case (2 md5 a)
  then obtain a' where es: "es = [a']" by (metis length_0_conv length_Suc_conv list.size(3))
  with "2.prems" have "a @ a = a' @ a'" by (auto dest: inj_onD)
  with "2.prems" es show ?case by simp
next
  case (3 md5)
  then show ?case by simp
qed

lemma merkle_digest_inj:
  assumes "length ds = length es"
    and "\<forall>d \<in> set ds. length d = 16" and "\<forall>d \<in> set es. length d = 16"
    and "\<And>b. length (md5 b) = 16"
    and "inj_on md5 (digest_inputs md5 ds \<union> digest_inputs md5 es)"
    and "merkle_digest md5 ds = merkle_digest md5 es"
  shows "ds = es"
  using assms
proof (induction md5 ds arbitrary: es rule: merkle_digest.induct)
  case (1 md5)
  then show ?case by simp
next
  case (2 md5 d)
  then obtain e where "es = [e]" by (metis length_0_conv length_Suc_conv)
  with 2 show ?case by simp
next
  case (3 md5 a b r)
  let ?ds = "a # b # r"
  obtain a' b' r' where es: "es = a' # b' # r'"
    using "3.prems"(1) by (metis (no_types) Suc_length_conv length_Cons)
  have "digest_level md5 ?ds = digest_level md5 es"
  proof (rule "3.IH")
    show "\<forall>d \<in> set (digest_level md5 ?ds). length d = 16"
      "\<forall>d \<in> set (digest_level md5 es). length d = 16"
      by (rule digest_level_lengths, rule "3.prems"(4))+
    show "inj_on md5 (digest_inputs md5 (digest_level md5 ?ds) \<union> digest_inputs md5 (digest_level md5 es))"
      by (rule inj_on_subset [OF "3.prems"(5)]) (auto simp: es)
    show "merkle_digest md5 (digest_level md5 ?ds) = merkle_digest md5 (digest_level md5 es)"
      using "3.prems"(6) es by simp
  qed (use "3.prems"(1,4) in simp_all)
  moreover have "inj_on md5 (level_inputs ?ds \<union> level_inputs es)"
    by (rule inj_on_subset [OF "3.prems"(5)]) (auto simp: es)
  ultimately show ?case
    using digest_level_inj [of ?ds es md5] "3.prems"(1-3) by blast
qed

section \<open>Properties\<close>

text \<open>
  \<open>GetMerkleRoot\<close> on any list of transaction bytes: on the empty list the recursion of
  \<open>GetMerkleNode\<close> never ends (a fatal stack overflow), on every other list it returns, and the
  root hash is the level-by-level reference digest.
\<close>

theorem merkle_root_total:
  "map_sum id mt_Hash (GetMerkleRoot md5 data) =
     (if data = [] then Inl StackOverflow else Inr (merkle_root_digest md5 data))"
  using GetMerkleRoot_empty GetMerkleRoot_digest [of data md5] by auto

text \<open>
  C28. Proof paths: for every non-empty datum of the list the tree was built from, \<open>GetProve\<close>
  returns without an error a non-empty path that runs down the tree from the root hash to the
  datum's digest.
\<close>

theorem merkle_prove_path:
  assumes "GetMerkleRoot md5 data = Inr t" and "x \<in> set data" and "x \<noteq> []"
  shows "\<exists>p. GetProve md5 (Some t) x = Inr p \<and> p \<noteq> [] \<and> hd p = mt_Hash t \<and> last p = md5 x
    \<and> is_path (mt_Root t) p"
proof -
  have full: "full_tree (mt_Root t)" and "md5 x \<in> digests (mt_Root t)"
    using GetMerkleRoot_holds [OF assms(1)] assms(2) by auto
  then have "GetNodeProve (mt_Root t) (md5 x) [] \<noteq> []"
    by (intro GetNodeProve_complete)
  from GetNodeProve_sound [OF this full] obtain p where
    p: "GetNodeProve (mt_Root t) (md5 x) [] = p" "is_path (mt_Root t) p" "last p = md5 x" "p \<noteq> []"
    by auto
  moreover have "mdata (mt_Root t) = mt_Hash t"
    using GetMerkleRoot_digest [of data md5] assms(1) GetMerkleRoot_empty by fastforce
  ultimately show ?thesis
    using is_path_hd [OF p(2)] assms(3) by (simp add: GetProve_def)
qed

definition toy_digest :: "bytes \<Rightarrow> bytes" where
  "toy_digest b = take 16 (rev b @ replicate 16 CHR 0x00)"

lemma length_toy_digest: "length (toy_digest b) = 16"
  by (simp add: toy_digest_def)

theorem merkle_prove_path_witness:
  "\<exists>t p. GetMerkleRoot toy_digest [''a'', ''b'', ''c''] = Inr t
    \<and> GetProve toy_digest (Some t) ''c'' = Inr p \<and> hd p = mt_Hash t \<and> last p = toy_digest ''c''"
proof -
  obtain t where t: "GetMerkleRoot toy_digest [''a'', ''b'', ''c''] = Inr t"
    using GetMerkleRoot_digest [of "[''a'', ''b'', ''c'']" toy_digest] by auto
  from merkle_prove_path [OF t, of "''c''"] t show ?thesis by auto
qed

text \<open>
  C27. The root hash binds the transactions: if MD5 does not collide on the inputs hashed for two
  lists of the same length, equal root hashes mean equal lists.
\<close>

theorem merkle_root_binding:
  assumes "\<And>b. length (md5 b) = 16" and "length data = length data'"
    and "inj_on md5 (merkle_inputs md5 data \<union> merkle_inputs md5 data')"
    and "map_sum id mt_Hash (GetMerkleRoot md5 data) = map_sum id mt_Hash (GetMerkleRoot md5 data')"
  shows "data = data'"
proof (cases "data = []")
  case True
  with assms(2) show ?thesis by simp
next
  case False
  let ?l = "\<lambda>data. digest_level md5 (map md5 data)"
  have inj: "inj_on md5 S" if "S \<subseteq> merkle_inputs md5 data \<union> merkle_inputs md5 data'" for S
    using assms(3) that by (rule inj_on_subset)
  have "data' \<noteq> []" using False assms(2) by auto
  then have "merkle_digest md5 (?l data) = merkle_digest md5 (?l data')"
    using False assms(4) GetMerkleRoot_digest [of data md5] GetMerkleRoot_digest [of data' md5]
    by (auto simp: merkle_root_digest_def)
  then have "?l data = ?l data'"
  proof (rule merkle_digest_inj [rotated -1])
    show "length (?l data) = length (?l data')" using assms(2) by simp
    show "\<forall>d \<in> set (?l data). length d = 16" "\<forall>d \<in> set (?l data'). length d = 16"
      by (rule digest_level_lengths, rule assms(1))+
    show "inj_on md5 (digest_inputs md5 (?l data) \<union> digest_inputs md5 (?l data'))"
      by (rule inj) (auto simp: merkle_inputs_def)
  qed (rule assms(1))
  then have "map md5 data = map md5 data'"
  proof (rule digest_level_inj [rotated -1])
    show "inj_on md5 (level_inputs (map md5 data) \<union> level_inputs (map md5 data'))"
      by (rule inj) (auto simp: merkle_inputs_def)
  qed (simp_all add: assms(1,2))
  moreover have "inj_on md5 (set data \<union> set data')"
    by (rule inj) (auto simp: merkle_inputs_def)
  ultimately show ?thesis by (rule map_inj_on)
qed

theorem merkle_root_binding_witness:
  "inj_on toy_digest (merkle_inputs toy_digest [''a'', ''b''] \<union> merkle_inputs toy_digest [''a'', ''b''])
   \<and> [''a'', ''b''] = ([''a'', ''b''] :: bytes list)"
proof
  show inj: "inj_on toy_digest
      (merkle_inputs toy_digest [''a'', ''b''] \<union> merkle_inputs toy_digest [''a'', ''b''])"
    by (simp add: merkle_inputs_def toy_digest_def eval_nat_numeral)
  show "[''a'', ''b''] = ([''a'', ''b''] :: bytes list)"
    by (rule merkle_root_binding [OF length_toy_digest refl inj refl])
qed

text \<open>
  The length matters: appending the last transaction again to a list of odd length does not
  change the root hash.
\<close>

theorem merkle_root_duplicate_last:
  assumes "odd (length data)"
  shows "map_sum id mt_Hash (GetMerkleRoot md5 (data @ [last data])) =
    map_sum id mt_Hash (GetMerkleRoot md5 data)"
proof -
  have "data \<noteq> []" using assms by auto
  then show ?thesis
    using GetMerkleRoot_digest [of data md5] GetMerkleRoot_digest [of "data @ [last data]" md5]
      digest_level_dup_last [of "map md5 data" md5] assms
    by (auto simp: merkle_root_digest_def last_map)
qed

theorem merkle_root_duplicate_last_witness:
  "map_sum id mt_Hash (GetMerkleRoot toy_digest [''a'', ''b'', ''c'', ''c'']) =
   map_sum id mt_Hash (GetMerkleRoot toy_digest [''a'', ''b'', ''c''])"
  using merkle_root_duplicate_last [of "[''a'', ''b'', ''c'']" toy_digest] by simp

end
