(* ===== verification/Strconv.thy ===== *)
theory Strconv
  imports Prelude
begin

text \<open>
  Of the Go library: \<open>strconv.Itoa\<close> and \<open>strconv.Atoi\<close>, on 64-bit integers, and \<open>strings.Split\<close> (on bytes
  \<open>bytes.Split\<close>).
\<close>

definition digit :: "nat \<Rightarrow> char" where
  "digit n = char_of (48 + n mod 10)"

fun digits :: "nat \<Rightarrow> string" where
  "digits n = (if n < 10 then [digit n] else digits (n div 10) @ [digit n])"

definition Itoa :: "int \<Rightarrow> string" where
  "Itoa i = (if i < 0 then CHR ''-'' # digits (nat (- i)) else digits (nat i))"

definition is_digit :: "char \<Rightarrow> bool" where
  "is_digit c \<longleftrightarrow> 48 \<le> (of_char c :: nat) \<and> (of_char c :: nat) \<le> 57"

definition digits_value :: "string \<Rightarrow> nat" where
  "digits_value s = foldl (\<lambda>a c. 10 * a + (of_char c - 48)) 0 s"

text \<open>No value is the error of \<open>Atoi\<close>: no digit, another character, or out of range.\<close>

definition Atoi :: "string \<Rightarrow> int option" where
  "Atoi s =
     (let (neg, ds) = (case s of [] \<Rightarrow> (False, [])
                       | c # r \<Rightarrow> if c = CHR ''-'' then (True, r) else if c = CHR ''+'' then (False, r) else (False, s));
          v = (if neg then - int (digits_value ds) else int (digits_value ds))
      in if ds = [] \<or> \<not> list_all is_digit ds \<or> v < - (2 ^ 63) \<or> 2 ^ 63 \<le> v then None else Some v)"

declare digits.simps [simp del]

lemma of_char_digit: "(of_char (digit n) :: nat) = 48 + n mod 10"
proof -
  have "n mod 10 < 10" by simp
  then have "48 + n mod 10 < 256" by linarith
  then show ?thesis by (simp add: digit_def of_char_of)
qed

lemma digits_value_snoc [simp]: "digits_value (s @ [c]) = 10 * digits_value s + (of_char c - 48)"
  by (simp add: digits_value_def)

lemma digits_value_Nil [simp]: "digits_value [] = 0"
  by (simp add: digits_value_def)

lemma digits_value_digits: "digits_value (digits n) = n"
proof (induction n rule: digits.induct)
  case (1 n)
  show ?case
  proof (cases "n < 10")
    case True
    then show ?thesis
      using digits_value_snoc [of "[]" "digit n"] of_char_digit [of n] by (simp add: digits.simps [of n])
  next
    case False
    then show ?thesis using 1 of_char_digit [of n] by (simp add: digits.simps [of n])
  qed
qed

lemma digits_all: "list_all is_digit (digits n)"
proof (induction n rule: digits.induct)
  case (1 n)
  have "n mod 10 < 10" by simp
  then have "is_digit (digit n)" unfolding is_digit_def of_char_digit by linarith
  then show ?case using 1 by (simp add: digits.simps [of n])
qed

lemma digits_nonempty [simp]: "digits n \<noteq> []"
  by (simp add: digits.simps [of n])

lemma digits_no_sign: "c \<in> set (digits n) \<Longrightarrow> c \<noteq> CHR ''-'' \<and> c \<noteq> CHR ''+''"
  using digits_all [of n] by (auto simp: list_all_iff is_digit_def)

lemma Atoi_Itoa:
  assumes "- (2 ^ 63) \<le> i" and "i < 2 ^ 63"
  shows "Atoi (Itoa i) = Some i"
proof (cases "i < 0")
  case True
  then show ?thesis using assms digits_all [of "nat (- i)"]
    by (simp add: Atoi_def Itoa_def digits_value_digits)
next
  case False
  obtain c r where d: "digits (nat i) = c # r" by (cases "digits (nat i)") auto
  then have "c \<noteq> CHR ''-'' \<and> c \<noteq> CHR ''+''" using digits_no_sign [of c "nat i"] by simp
  then show ?thesis using False assms digits_all [of "nat i"] digits_value_digits [of "nat i"] d
    by (simp add: Atoi_def Itoa_def)
qed

lemma Itoa_inject: "- (2 ^ 63) \<le> i \<Longrightarrow> i < 2 ^ 63 \<Longrightarrow> - (2 ^ 63) \<le> j \<Longrightarrow> j < 2 ^ 63 \<Longrightarrow> Itoa i = Itoa j \<longleftrightarrow> i = j"
  using Atoi_Itoa by (metis option.inject)

section \<open>Splitting\<close>

text \<open>\<open>strings.Split\<close> with a separator of one character.\<close>

fun split_at :: "char \<Rightarrow> string \<Rightarrow> string list" where
  "split_at c [] = [[]]"
| "split_at c (x # xs) = (if x = c then [] # split_at c xs
     else case split_at c xs of [] \<Rightarrow> [[x]] | y # ys \<Rightarrow> (x # y) # ys)"

text \<open>Joining what \<open>strings.Split\<close> returns gives the string back.\<close>

fun join_with :: "char \<Rightarrow> string list \<Rightarrow> string" where
  "join_with c [] = []"
| "join_with c [s] = s"
| "join_with c (s # t # ss) = s @ c # join_with c (t # ss)"

lemma split_at_nonempty [simp]: "split_at c s \<noteq> []"
  by (induction s) (auto split: list.split)

lemma join_with_Cons: "ss \<noteq> [] \<Longrightarrow> join_with c (s # ss) = s @ c # join_with c ss"
  by (cases ss) auto

text \<open>
  Splitting loses nothing (joining the parts gives the text back), no part contains the separator,
  and parts without the separator that are joined come out as they were.
\<close>

lemma split_join:
  "join_with c (split_at c s) = s \<and> (\<forall>e \<in> set (split_at c s). c \<notin> set e)
   \<and> (ss \<noteq> [] \<longrightarrow> (\<forall>e \<in> set ss. c \<notin> set e) \<longrightarrow> split_at c (join_with c ss) = ss)"
proof (intro conjI impI)
  show "join_with c (split_at c s) = s"
  proof (induction s)
    case (Cons x s)
    show ?case
    proof (cases "x = c")
      case True
      then show ?thesis using Cons by (simp add: join_with_Cons)
    next
      case False
      obtain y ys where "split_at c s = y # ys" by (cases "split_at c s") auto
      then show ?thesis using Cons False by (cases ys) auto
    qed
  qed simp
  show "\<forall>e \<in> set (split_at c s). c \<notin> set e"
    by (induction s) (auto split: list.split)
  assume "ss \<noteq> []" and "\<forall>e \<in> set ss. c \<notin> set e"
  then show "split_at c (join_with c ss) = ss"
  proof (induction c ss rule: join_with.induct)
    case (2 c s)
    then show ?case by (induction s) auto
  next
    case (3 c s t ss)
    then have IH: "split_at c (join_with c (t # ss)) = t # ss" by simp
    have "c \<notin> set s" using 3 by simp
    then have "split_at c (s @ c # join_with c (t # ss)) = s # t # ss"
      by (induction s) (auto simp: IH)
    then show ?case by simp
  qed simp
qed

end
