(* ===== verification/Linked_Queue.thy ===== *)
theory Linked_Queue
  imports Prelude
begin

text \<open>
  Doubly linked lists with sentinel nodes, as \<open>txpool\<close> (\<open>txQueue\<close>, \<open>tableQueue\<close>) and \<open>cache\<close>
  (\<open>lruTx\<close>, \<open>lruIndex\<close>) build them by hand. All four Go structs have the same fields: a current
  and a maximal size, a map from keys to nodes, and pointers to a head and a tail sentinel. They
  are one record here, over the payload type; the nodes live in a store with one function per
  node field (\<open>nx\<close> for \<open>next\<close>, \<open>pv\<close> for \<open>pre\<close>, \<open>dat\<close> for the payload). A pointer is an optional
  address, and following or writing through a nil pointer gives \<open>None\<close>, the panic.

  \<open>wf_links q as\<close> is the shape invariant (\<open>as\<close> lists the addresses between the sentinels), and
  the lemmas say what linking a node in and unlinking it do to that shape.
\<close>

type_synonym addr = nat
type_synonym ptr = "nat option"

record 'a pqueue =
  curSize :: int
  maxSize :: int
  qmap :: "bytes \<rightharpoonup> addr"
  qhead :: addr
  qtail :: addr
  nx :: "addr \<Rightarrow> ptr"
  pv :: "addr \<Rightarrow> ptr"
  dat :: "addr \<Rightarrow> 'a"
  brk :: addr

text \<open>
  \<open>init\<close> of each of the four structs: two fresh zero nodes, linked to each other. \<open>zero\<close> is the
  zero value of the payload and \<open>mx\<close> the maximal size that the struct's \<open>init\<close> sets.
\<close>

definition queue_init :: "'a \<Rightarrow> int \<Rightarrow> 'a pqueue" where
  "queue_init zero mx =
     \<lparr>curSize = 0, maxSize = mx, qmap = Map.empty, qhead = 0, qtail = 1,
      nx = (\<lambda>_. None)(0 := Some 1), pv = (\<lambda>_. None)(1 := Some 0), dat = (\<lambda>_. zero), brk = 2\<rparr>"

text \<open>\<open>p := &node{payload, nil, nil}\<close>: the new node's address is the next unused one.\<close>

definition new_node :: "'a \<Rightarrow> 'a pqueue \<Rightarrow> addr \<times> 'a pqueue" where
  "new_node x q =
     (let p = brk q in
      (p, q\<lparr>dat := (dat q)(p := x), nx := (nx q)(p := None), pv := (pv q)(p := None),
            brk := Suc p\<rparr>))"

text \<open>
  The four assignments that link \<open>p\<close> in after \<open>p1\<close>, in the code's order:
  \<open>p.next = p1.next\<close>, \<open>p1.next.pre = p\<close>, \<open>p.pre = p1\<close>, \<open>p1.next = p\<close>.
\<close>

definition link_after :: "addr \<Rightarrow> addr \<Rightarrow> 'a pqueue \<Rightarrow> 'a pqueue option" where
  "link_after p1 p q = do {
     let q1 = q\<lparr>nx := (nx q)(p := nx q p1)\<rparr>;
     b \<leftarrow> nx q1 p1;
     let q2 = q1\<lparr>pv := (pv q1)(b := Some p)\<rparr>;
     let q3 = q2\<lparr>pv := (pv q2)(p := Some p1)\<rparr>;
     Some (q3\<lparr>nx := (nx q3)(p1 := Some p)\<rparr>)
   }"

text \<open>\<open>p.pre.next = p.next\<close>, then \<open>p.next.pre = p.pre\<close>.\<close>

definition unlink :: "addr \<Rightarrow> 'a pqueue \<Rightarrow> 'a pqueue option" where
  "unlink p q = do {
     a \<leftarrow> pv q p;
     let q1 = q\<lparr>nx := (nx q)(a := nx q p)\<rparr>;
     b \<leftarrow> nx q1 p;
     Some (q1\<lparr>pv := (pv q1)(b := pv q1 p)\<rparr>)
   }"

section \<open>Shape\<close>

fun links :: "(addr \<Rightarrow> ptr) \<Rightarrow> (addr \<Rightarrow> ptr) \<Rightarrow> addr list \<Rightarrow> bool" where
  "links n p (a # b # r) = (n a = Some b \<and> p b = Some a \<and> links n p (b # r))"
| "links n p _ = True"

definition qpath :: "'a pqueue \<Rightarrow> addr list \<Rightarrow> addr list" where
  "qpath q as = qhead q # as @ [qtail q]"

definition wf_links :: "'a pqueue \<Rightarrow> addr list \<Rightarrow> bool" where
  "wf_links q as \<longleftrightarrow> links (nx q) (pv q) (qpath q as) \<and> distinct (qpath q as)
     \<and> (\<forall>a \<in> set (qpath q as). a < brk q) \<and> pv q (qhead q) = None \<and> nx q (qtail q) = None"

lemma links_append: "links n p (xs @ a # ys) \<longleftrightarrow> links n p (xs @ [a]) \<and> links n p (a # ys)"
proof (induction xs)
  case Nil
  then show ?case by simp
next
  case (Cons x xs)
  then show ?case by (cases xs) auto
qed

lemma links_cong:
  assumes "\<And>a. a \<in> set (butlast xs) \<Longrightarrow> n a = n' a" and "\<And>a. a \<in> set (tl xs) \<Longrightarrow> p a = p' a"
  shows "links n p xs = links n' p' xs"
  using assms
proof (induction xs)
  case Nil
  then show ?case by simp
next
  case (Cons x xs)
  show ?case
  proof (cases xs)
    case Nil
    then show ?thesis by simp
  next
    case (Cons y ys)
    have "links n p xs = links n' p' xs"
    proof (rule Cons.IH)
      fix a
      assume "a \<in> set (butlast xs)"
      then show "n a = n' a" using Cons.prems(1) Cons by simp
    next
      fix a
      assume "a \<in> set (tl xs)"
      then show "p a = p' a" using Cons.prems(2) Cons by simp
    qed
    moreover have "n x = n' x" and "p y = p' y" using Cons.prems Cons by simp_all
    ultimately show ?thesis using Cons by simp
  qed
qed

lemma links_next: "links n p (xs @ a # b # ys) \<Longrightarrow> n a = Some b \<and> p b = Some a"
  using links_append [of n p xs a "b # ys"] by simp

lemma links_insert:
  assumes "links n p (xs @ a # b # ys)" and "distinct (xs @ a # b # ys)" and "c \<notin> set (xs @ a # b # ys)"
  shows "links (n(c := Some b, a := Some c)) (p(b := Some c, c := Some a)) (xs @ a # c # b # ys)"
proof -
  let ?n = "n(c := Some b, a := Some c)" and ?p = "p(b := Some c, c := Some a)"
  have l: "links n p (xs @ [a])" and r: "links n p (b # ys)"
    using assms(1) links_append [of n p xs a "b # ys"] by simp_all
  have "links ?n ?p (xs @ [a]) = links n p (xs @ [a])"
  proof (rule links_cong)
    fix x
    assume "x \<in> set (butlast (xs @ [a]))"
    then show "?n x = n x" using assms(2,3) by auto
  next
    fix x
    assume "x \<in> set (tl (xs @ [a]))"
    then have "x \<in> set (xs @ [a])" by (rule list.set_sel(2) [rotated]) simp
    then show "?p x = p x" using assms(2,3) by auto
  qed
  moreover have "links ?n ?p (b # ys) = links n p (b # ys)"
  proof (rule links_cong)
    fix x
    assume "x \<in> set (butlast (b # ys))"
    then have "x \<in> set (b # ys)" by (rule in_set_butlastD)
    then show "?n x = n x" using assms(2,3) by auto
  next
    fix x
    assume "x \<in> set (tl (b # ys))"
    then show "?p x = p x" using assms(2,3) by auto
  qed
  moreover have "a \<noteq> c" and "b \<noteq> c" using assms(3) by auto
  ultimately show ?thesis using l r links_append [of ?n ?p xs a "c # b # ys"] by simp
qed

lemma links_remove:
  assumes "links n p (xs @ a # c # b # ys)" and "distinct (xs @ a # c # b # ys)"
  shows "links (n(a := Some b)) (p(b := Some a)) (xs @ a # b # ys)"
proof -
  let ?n = "n(a := Some b)" and ?p = "p(b := Some a)"
  have l: "links n p (xs @ [a])" and r: "links n p (b # ys)"
    using assms(1) links_append [of n p xs a "c # b # ys"] by simp_all
  have "links ?n ?p (xs @ [a]) = links n p (xs @ [a])"
  proof (rule links_cong)
    fix x
    assume "x \<in> set (butlast (xs @ [a]))"
    then show "?n x = n x" using assms(2) by auto
  next
    fix x
    assume "x \<in> set (tl (xs @ [a]))"
    then have "x \<in> set (xs @ [a])" by (rule list.set_sel(2) [rotated]) simp
    then show "?p x = p x" using assms(2) by auto
  qed
  moreover have "links ?n ?p (b # ys) = links n p (b # ys)"
  proof (rule links_cong)
    fix x
    assume "x \<in> set (butlast (b # ys))"
    then have "x \<in> set (b # ys)" by (rule in_set_butlastD)
    then show "?n x = n x" using assms(2) by auto
  next
    fix x
    assume "x \<in> set (tl (b # ys))"
    then show "?p x = p x" using assms(2) by auto
  qed
  ultimately show ?thesis using l r links_append [of ?n ?p xs a "b # ys"] by simp
qed


lemma wf_links_neighbours:
  assumes "wf_links q as" and "qpath q as = pre @ a # b # post"
  shows "nx q a = Some b" and "pv q b = Some a" and "b \<noteq> qhead q" and "a \<noteq> qtail q"
    and "a \<noteq> b" and "a < brk q" and "b < brk q"
proof -
  have l: "links (nx q) (pv q) (pre @ a # b # post)" and d: "distinct (pre @ a # b # post)"
    and bd: "\<forall>c\<in>set (pre @ a # b # post). c < brk q"
    using assms unfolding wf_links_def by simp_all
  show "nx q a = Some b" "pv q b = Some a" using links_next [OF l] by simp_all
  have "hd (pre @ a # b # post) = qhead q" using assms(2) by (metis list.sel(1) qpath_def)
  then show "b \<noteq> qhead q" using d by (cases pre) auto
  have "last (pre @ a # b # post) = qtail q"
    using assms(2) by (metis last.simps last_snoc list.discI append_is_Nil_conv qpath_def)
  then have "qtail q \<in> set (b # post)" by (simp add: last_append) (metis last_in_set)
  then show "a \<noteq> qtail q" using d by auto
  show "a \<noteq> b" using d by simp
  show "a < brk q" "b < brk q" using bd by simp_all
qed

lemma new_node_shape:
  assumes "wf_links q as" and "new_node x q = (p, q')"
  shows "wf_links q' as" and "p \<notin> set (qpath q' as)" and "p < brk q'" and "dat q' p = x"
    and "map (dat q') as = map (dat q) as" and "\<forall>a\<in>set as. dat q' a = dat q a"
    and "qhead q' = qhead q" and "qtail q' = qtail q" and "curSize q' = curSize q"
    and "maxSize q' = maxSize q" and "qmap q' = qmap q" and "p = brk q"
    and "qpath q' as = qpath q as"
proof -
  have p: "p = brk q" and q': "q' = q\<lparr>dat := (dat q)(p := x), nx := (nx q)(p := None),
      pv := (pv q)(p := None), brk := Suc p\<rparr>"
    using assms(2) by (auto simp: new_node_def Let_def)
  have np: "p \<notin> set (qpath q as)" using assms(1) p by (auto simp: wf_links_def)
  have path: "qpath q' as = qpath q as" by (simp add: q' qpath_def)
  have "links (nx q') (pv q') (qpath q as) = links (nx q) (pv q) (qpath q as)"
  proof (rule links_cong)
    fix a
    assume "a \<in> set (butlast (qpath q as))"
    then have "a \<noteq> p" using np in_set_butlastD by metis
    then show "nx q' a = nx q a" by (simp add: q')
  next
    fix a
    assume "a \<in> set (tl (qpath q as))"
    then have "a \<noteq> p" using np by (metis list.set_sel(2) tl_Nil empty_iff list.set(1))
    then show "pv q' a = pv q a" by (simp add: q')
  qed
  then show "wf_links q' as" using assms(1) p path
    by (auto simp: wf_links_def q' less_SucI)
  show "p \<notin> set (qpath q' as)" using np path by simp
  show "\<forall>a\<in>set as. dat q' a = dat q a" using np by (auto simp: q' qpath_def)
  then show "map (dat q') as = map (dat q) as" by simp
  show "p < brk q'" "dat q' p = x" "qhead q' = qhead q" "qtail q' = qtail q" "p = brk q"
    "curSize q' = curSize q" "maxSize q' = maxSize q" "qmap q' = qmap q" by (simp_all add: q' p)
  show "qpath q' as = qpath q as" by (rule path)
qed

lemma link_after_shape:
  assumes wf: "wf_links q as" and path: "qpath q as = pre @ p1 # b # post"
    and p: "p \<notin> set (qpath q as)" "p < brk q" and new: "qpath q as' = pre @ p1 # p # b # post"
  shows "\<exists>q'. link_after p1 p q = Some q' \<and> wf_links q' as' \<and> dat q' = dat q \<and> qmap q' = qmap q
           \<and> curSize q' = curSize q \<and> maxSize q' = maxSize q \<and> qhead q' = qhead q
           \<and> qtail q' = qtail q \<and> brk q' = brk q"
proof -
  note nb = wf_links_neighbours [OF wf path]
  have ne: "p \<noteq> p1" "p \<noteq> b" using p(1) path by auto
  let ?n = "(nx q)(p := Some b, p1 := Some p)" and ?v = "(pv q)(b := Some p, p := Some p1)"
  let ?q = "q\<lparr>nx := ?n, pv := ?v\<rparr>"
  have eq: "link_after p1 p q = Some ?q" using nb ne by (simp add: link_after_def Let_def)
  have l: "links ?n ?v (pre @ p1 # p # b # post)"
    using wf path p by (intro links_insert) (simp_all add: wf_links_def)
  have pq: "qpath ?q as' = pre @ p1 # p # b # post" using new by (simp add: qpath_def)
  have "qhead q \<in> set (qpath q as)" "qtail q \<in> set (qpath q as)" by (simp_all add: qpath_def)
  then have "qhead q \<noteq> p" "qtail q \<noteq> p" using p(1) by auto
  moreover have "distinct (pre @ p1 # p # b # post)" "\<forall>a\<in>set (pre @ p1 # p # b # post). a < brk q"
    using wf path p by (auto simp: wf_links_def)
  moreover have "pv q (qhead q) = None" "nx q (qtail q) = None" using wf by (simp_all add: wf_links_def)
  ultimately have "wf_links ?q as'" unfolding wf_links_def pq using l nb by simp
  then show ?thesis using eq by auto
qed

lemma unlink_shape:
  assumes wf: "wf_links q as" and path: "qpath q as = pre @ a # c # b # post"
    and new: "qpath q as' = pre @ a # b # post"
  shows "\<exists>q'. unlink c q = Some q' \<and> wf_links q' as' \<and> dat q' = dat q \<and> qmap q' = qmap q
           \<and> curSize q' = curSize q \<and> maxSize q' = maxSize q \<and> qhead q' = qhead q
           \<and> qtail q' = qtail q \<and> brk q' = brk q"
proof -
  note n1 = wf_links_neighbours [OF wf path]
  have path2: "qpath q as = (pre @ [a]) @ c # b # post" using path by simp
  note n2 = wf_links_neighbours [OF wf path2]
  let ?n = "(nx q)(a := Some b)" and ?v = "(pv q)(b := Some a)"
  let ?q = "q\<lparr>nx := ?n, pv := ?v\<rparr>"
  have eq: "unlink c q = Some ?q" using n1 n2 by (simp add: unlink_def Let_def)
  have l: "links ?n ?v (pre @ a # b # post)"
    using wf path by (intro links_remove [where c = c]) (simp_all add: wf_links_def)
  have pq: "qpath ?q as' = pre @ a # b # post" using new by (simp add: qpath_def)
  moreover have "distinct (pre @ a # b # post)" "\<forall>x\<in>set (pre @ a # b # post). x < brk q"
    using wf path by (auto simp: wf_links_def)
  moreover have "pv q (qhead q) = None" "nx q (qtail q) = None" using wf by (simp_all add: wf_links_def)
  moreover have "a \<noteq> qtail q" by (rule n1(4))
  ultimately have "wf_links ?q as'" unfolding wf_links_def pq using l n1 n2 by simp
  then show ?thesis using eq by auto
qed

lemma wf_links_init: "wf_links (queue_init zero mx) []"
  by (simp add: wf_links_def queue_init_def qpath_def)

lemma qpath_split_elem:
  assumes "as = xs @ c # ys"
  shows "\<exists>pre a b post. qpath q as = pre @ a # c # b # post \<and> qpath q (xs @ ys) = pre @ a # b # post"
proof -
  obtain pre a where pre: "qhead q # xs = pre @ [a]" by (metis list.discI rev_exhaust)
  obtain b post where post: "ys @ [qtail q] = b # post"
    by (metis append_is_Nil_conv list.discI neq_Nil_conv)
  have "qpath q as = (qhead q # xs) @ c # (ys @ [qtail q])"
    and "qpath q (xs @ ys) = (qhead q # xs) @ (ys @ [qtail q])" using assms by (simp_all add: qpath_def)
  then show ?thesis unfolding pre post by (metis append.assoc append_Cons append_Nil)
qed

lemma qpath_split_gap:
  "\<exists>pre b post. last (qhead q # xs) = a \<longrightarrow>
     qpath q (xs @ ys) = pre @ a # b # post \<and> qpath q (xs @ p # ys) = pre @ a # p # b # post"
proof -
  obtain pre a' where pre: "qhead q # xs = pre @ [a']" by (metis list.discI rev_exhaust)
  obtain b post where post: "ys @ [qtail q] = b # post"
    by (metis append_is_Nil_conv list.discI neq_Nil_conv)
  have "qpath q (xs @ ys) = (qhead q # xs) @ (ys @ [qtail q])"
    and "qpath q (xs @ p # ys) = (qhead q # xs) @ p # (ys @ [qtail q])" by (simp_all add: qpath_def)
  then have "qpath q (xs @ ys) = pre @ a' # b # post" "qpath q (xs @ p # ys) = pre @ a' # p # b # post"
    unfolding pre post by simp_all
  moreover have "last (qhead q # xs) = a'" unfolding pre by simp
  ultimately show ?thesis by blast
qed


lemma wf_links_pv:
  assumes "wf_links q (xs @ c # rest)"
  shows "pv q c = Some (last (qhead q # xs))" and "nx q (last (qhead q # xs)) = Some c"
proof -
  obtain pre a where pre: "qhead q # xs = pre @ [a]" by (metis list.discI rev_exhaust)
  have "qpath q (xs @ c # rest) = (qhead q # xs) @ c # rest @ [qtail q]" by (simp add: qpath_def)
  then have "qpath q (xs @ c # rest) = pre @ a # c # rest @ [qtail q]" unfolding pre by simp
  note nb = wf_links_neighbours [OF assms this]
  have "last (qhead q # xs) = a" unfolding pre by simp
  with nb show "pv q c = Some (last (qhead q # xs))" "nx q (last (qhead q # xs)) = Some c" by simp_all
qed

lemma wf_links_ends:
  assumes "wf_links q as"
  shows "pv q (qtail q) = Some (last (qhead q # as))" and "nx q (last (qhead q # as)) = Some (qtail q)"
    and "nx q (qhead q) = Some (hd (as @ [qtail q]))"
proof -
  obtain pre a where pre: "qhead q # as = pre @ [a]" by (metis list.discI rev_exhaust)
  have "qpath q as = (qhead q # as) @ [qtail q]" by (simp add: qpath_def)
  then have "qpath q as = pre @ a # qtail q # []" unfolding pre by simp
  note nb = wf_links_neighbours [OF assms this]
  have "last (qhead q # as) = a" unfolding pre by simp
  with nb show "pv q (qtail q) = Some (last (qhead q # as))" "nx q (last (qhead q # as)) = Some (qtail q)"
    by simp_all
  obtain b post where post: "as @ [qtail q] = b # post"
    by (metis append_is_Nil_conv list.discI neq_Nil_conv)
  then have "qpath q as = [] @ qhead q # b # post" by (simp add: qpath_def)
  from wf_links_neighbours [OF assms this] post show "nx q (qhead q) = Some (hd (as @ [qtail q]))" by simp
qed

end
