(* ===== verification/Tx_Queue.thy ===== *)
theory Tx_Queue
  imports Linked_Queue
begin

text \<open>
  The waiting queues of the transaction pools: \<open>txQueue\<close> of \<open>txpool/txpool_data.go\<close> and
  \<open>tableQueue\<close> of \<open>txpool/txpool_table.go\<close>. The two have the same code over two transaction
  types, so the operations take the two fields they read as arguments: \<open>ts\<close> is \<open>TimeStamp\<close> and
  \<open>ident\<close> is \<open>TxID\<close>. The contract \<open>timed_queue\<close> is what the pools rely on; the pointer code is
  shown to provide it.
\<close>

section \<open>The pointer code\<close>

text \<open>\<open>for p1.pre != nil && p1.tx.TimeStamp > tsp { p1 = p1.pre }\<close>\<close>

partial_function (option) back_search :: "('a \<Rightarrow> int) \<Rightarrow> int \<Rightarrow> 'a pqueue \<Rightarrow> addr \<Rightarrow> addr option" where
  "back_search ts tsp q p1 =
     (case pv q p1 of
        None \<Rightarrow> Some p1
      | Some a \<Rightarrow> if ts (dat q p1) > tsp then back_search ts tsp q a else Some p1)"

definition queue_in :: "('a \<Rightarrow> int) \<Rightarrow> ('a \<Rightarrow> bytes) \<Rightarrow> 'a \<Rightarrow> 'a pqueue \<Rightarrow> 'a pqueue option" where
  "queue_in ts ident transaction q = do {
     let (p, q1) = new_node transaction q;
     let tsp = ts (dat q1 p);
     t \<leftarrow> pv q1 (qtail q1);
     p1 \<leftarrow> back_search ts tsp q1 t;
     q2 \<leftarrow> link_after p1 p q1;
     Some (q2\<lparr>qmap := (qmap q2)(ident (dat q2 p) \<mapsto> p), curSize := curSize q2 + 1\<rparr>)
   }"

definition queue_out :: "('a \<Rightarrow> bytes) \<Rightarrow> 'a \<Rightarrow> 'a pqueue \<Rightarrow> 'a pqueue option" where
  "queue_out ident transaction q = do {
     p \<leftarrow> qmap q (ident transaction);
     q1 \<leftarrow> unlink p q;
     Some (q1\<lparr>qmap := (qmap q1)(ident transaction := None), curSize := curSize q1 - 1\<rparr>)
   }"

section \<open>The contract\<close>

definition later :: "('a \<Rightarrow> int) \<Rightarrow> 'a \<Rightarrow> 'a list \<Rightarrow> 'a list" where
  "later ts x xs = rev (takeWhile (\<lambda>y. ts x < ts y) (rev xs))"

definition not_later :: "('a \<Rightarrow> int) \<Rightarrow> 'a \<Rightarrow> 'a list \<Rightarrow> 'a list" where
  "not_later ts x xs = rev (dropWhile (\<lambda>y. ts x < ts y) (rev xs))"

definition back_insert :: "('a \<Rightarrow> int) \<Rightarrow> 'a \<Rightarrow> 'a list \<Rightarrow> 'a list" where
  "back_insert ts x xs = not_later ts x xs @ x # later ts x xs"

lemma not_later_later: "not_later ts x xs @ later ts x xs = xs"
  unfolding not_later_def later_def by (metis rev_append rev_rev_ident takeWhile_dropWhile_id)

lemma later_gt: "y \<in> set (later ts x xs) \<Longrightarrow> ts x < ts y"
  unfolding later_def by (auto dest: set_takeWhileD)

lemma not_later_last: "not_later ts x xs \<noteq> [] \<Longrightarrow> ts (last (not_later ts x xs)) \<le> ts x"
  unfolding not_later_def using hd_dropWhile [of "\<lambda>y. ts x < ts y" "rev xs"]
  by (simp add: last_rev not_less)

lemma set_back_insert: "set (back_insert ts x xs) = insert x (set xs)"
proof -
  have "set (not_later ts x xs) \<union> set (later ts x xs) = set xs"
    by (metis not_later_later set_append)
  then show ?thesis by (auto simp: back_insert_def)
qed

lemma length_back_insert [simp]: "length (back_insert ts x xs) = Suc (length xs)"
  using arg_cong [OF not_later_later [of ts x xs], of length] by (simp add: back_insert_def)

lemma sorted_back_insert:
  assumes "sorted (map ts xs)"
  shows "sorted (map ts (back_insert ts x xs))"
proof -
  let ?n = "not_later ts x xs" and ?l = "later ts x xs"
  have s: "sorted (map ts (?n @ ?l))" using assms by (simp add: not_later_later)
  then have sn: "sorted (map ts ?n)" and sl: "sorted (map ts ?l)" by (simp_all add: sorted_append)
  have "\<forall>y\<in>set ?n. ts y \<le> ts x"
  proof
    fix y
    assume y: "y \<in> set ?n"
    then obtain zs where zs: "?n = zs @ [last ?n]" by (metis append_butlast_last_id empty_iff empty_set)
    have "sorted (map ts (zs @ [last ?n]))" using sn zs by simp
    then have "\<forall>z\<in>set (zs @ [last ?n]). ts z \<le> ts (last ?n)" by (auto simp: sorted_append)
    then have "ts y \<le> ts (last ?n)" using y zs by metis
    also have "\<dots> \<le> ts x" using y by (intro not_later_last) auto
    finally show "ts y \<le> ts x" .
  qed
  with sn sl show ?thesis
    by (fastforce simp: back_insert_def sorted_append dest: later_gt)
qed

locale timed_queue =
  fixes ts :: "'a \<Rightarrow> int" and ident :: "'a \<Rightarrow> bytes"
    and rep :: "'q \<Rightarrow> 'a list \<Rightarrow> bool"
    and enq :: "'a \<Rightarrow> 'q \<Rightarrow> 'q option"
    and deq :: "'a \<Rightarrow> 'q \<Rightarrow> 'q option"
  assumes rep_distinct: "rep q xs \<Longrightarrow> distinct (map ident xs)"
    and enq_insert: "rep q xs \<Longrightarrow> ident x \<notin> ident ` set xs \<Longrightarrow>
      \<exists>q'. enq x q = Some q' \<and> rep q' (back_insert ts x xs)"
    and deq_remove: "rep q xs \<Longrightarrow> ident x \<in> ident ` set xs \<Longrightarrow>
      \<exists>q'. deq x q = Some q' \<and> rep q' (filter (\<lambda>y. ident y \<noteq> ident x) xs)"
    and deq_absent: "rep q xs \<Longrightarrow> ident x \<notin> ident ` set xs \<Longrightarrow> deq x q = None"
begin

fun deq_all :: "'a list \<Rightarrow> 'q \<Rightarrow> 'q option" where
  "deq_all [] q = Some q"
| "deq_all (x # xs) q = Option.bind (deq x q) (deq_all xs)"

lemma deq_all_remove:
  "rep q xs \<Longrightarrow> distinct (map ident ys) \<Longrightarrow> ident ` set ys \<subseteq> ident ` set xs \<Longrightarrow>
   \<exists>q'. deq_all ys q = Some q' \<and> rep q' (filter (\<lambda>y. ident y \<notin> ident ` set ys) xs)"
proof (induction ys arbitrary: q xs)
  case Nil
  then show ?case by simp
next
  case (Cons y ys)
  have "ident y \<in> ident ` set xs" using Cons.prems(3) by auto
  then obtain q1 where q1: "deq y q = Some q1" "rep q1 (filter (\<lambda>x. ident x \<noteq> ident y) xs)"
    using deq_remove [OF Cons.prems(1)] by blast
  have "ident ` set ys \<subseteq> ident ` set (filter (\<lambda>x. ident x \<noteq> ident y) xs)"
  proof
    fix k
    assume k: "k \<in> ident ` set ys"
    then have "k \<noteq> ident y" using Cons.prems(2) by (auto simp: rev_image_eqI)
    with k show "k \<in> ident ` set (filter (\<lambda>x. ident x \<noteq> ident y) xs)" using Cons.prems(3) by auto
  qed
  moreover have "distinct (map ident ys)" using Cons.prems(2) by simp
  ultimately obtain q2 where q2: "deq_all ys q1 = Some q2"
    "rep q2 (filter (\<lambda>x. ident x \<notin> ident ` set ys) (filter (\<lambda>x. ident x \<noteq> ident y) xs))"
    using Cons.IH [OF q1(2)] by blast
  moreover have "filter (\<lambda>x. ident x \<notin> ident ` set ys) (filter (\<lambda>x. ident x \<noteq> ident y) xs)
      = filter (\<lambda>x. ident x \<notin> ident ` set (y # ys)) xs" by (auto intro: filter_cong)
  ultimately show ?case using q1(1) by auto
qed

lemma deq_all_absent:
  "rep q xs \<Longrightarrow> y \<in> set ys \<Longrightarrow> ident y \<notin> ident ` set xs \<Longrightarrow> deq_all ys q = None"
proof (induction ys arbitrary: q xs)
  case Nil
  then show ?case by simp
next
  case (Cons z ys)
  show ?case
  proof (cases "ident z \<in> ident ` set xs")
    case False
    then show ?thesis using deq_absent [OF Cons.prems(1)] by simp
  next
    case True
    then obtain q1 where q1: "deq z q = Some q1" "rep q1 (filter (\<lambda>x. ident x \<noteq> ident z) xs)"
      using deq_remove [OF Cons.prems(1)] by blast
    have "y \<in> set ys" using True Cons.prems(2,3) by auto
    moreover have "ident y \<notin> ident ` set (filter (\<lambda>x. ident x \<noteq> ident z) xs)"
      using Cons.prems(3) by auto
    ultimately show ?thesis using Cons.IH [OF q1(2)] q1(1) by simp
  qed
qed

lemma enq_sorted:
  "rep q xs \<Longrightarrow> sorted (map ts xs) \<Longrightarrow> ident x \<notin> ident ` set xs \<Longrightarrow>
   \<exists>q' xs'. enq x q = Some q' \<and> rep q' xs' \<and> sorted (map ts xs') \<and> set xs' = insert x (set xs)
      \<and> length xs' = Suc (length xs)"
  using enq_insert [of q xs x] sorted_back_insert [of ts xs x] set_back_insert [of ts x xs]
    length_back_insert [of ts x xs] by metis

end

section \<open>The pointer code provides it\<close>

definition tq_addrs :: "('a \<Rightarrow> bytes) \<Rightarrow> 'a pqueue \<Rightarrow> addr list \<Rightarrow> bool" where
  "tq_addrs ident q as \<longleftrightarrow> wf_links q as \<and> curSize q = int (length as)
     \<and> distinct (map (\<lambda>a. ident (dat q a)) as)
     \<and> (\<forall>k a. qmap q k = Some a \<longleftrightarrow> a \<in> set as \<and> ident (dat q a) = k)"

definition tq_rep :: "('a \<Rightarrow> bytes) \<Rightarrow> 'a pqueue \<Rightarrow> 'a list \<Rightarrow> bool" where
  "tq_rep ident q xs \<longleftrightarrow> (\<exists>as. tq_addrs ident q as \<and> xs = map (dat q) as)"

lemma back_search_walk:
  assumes "wf_links q (ys @ zs @ rest)" and "\<forall>a\<in>set zs. tsp < ts (dat q a)"
    and "ys \<noteq> [] \<Longrightarrow> ts (dat q (last ys)) \<le> tsp"
  shows "back_search ts tsp q (last (qhead q # ys @ zs)) = Some (last (qhead q # ys))"
  using assms(1,2)
proof (induction zs arbitrary: rest rule: rev_induct)
  case Nil
  show ?case
  proof (cases "ys = []")
    case True
    then show ?thesis using Nil by (simp add: back_search.simps [of ts tsp q "qhead q"] wf_links_def)
  next
    case False
    then show ?thesis using assms(3)
      by (simp add: back_search.simps [of ts tsp q "last ys"] split: option.split)
  qed
next
  case (snoc c zs)
  have wf: "wf_links q ((ys @ zs) @ c # rest)" using snoc.prems(1) by simp
  have "back_search ts tsp q (last (qhead q # ys @ zs)) = Some (last (qhead q # ys))"
    using snoc.IH [of "c # rest"] snoc.prems by simp
  moreover have "tsp < ts (dat q c)" using snoc.prems(2) by simp
  ultimately show ?case
    using wf_links_pv(1) [OF wf] by (simp add: back_search.simps [of ts tsp q c])
qed

lemma later_map:
  "later ts x (map f as) = map f (later (\<lambda>a. ts (f a)) y as)" if "ts (f y) = ts x"
  using that unfolding later_def by (simp add: rev_map takeWhile_map comp_def)

lemma not_later_map:
  "not_later ts x (map f as) = map f (not_later (\<lambda>a. ts (f a)) y as)" if "ts (f y) = ts x"
  using that unfolding not_later_def by (simp add: rev_map dropWhile_map comp_def)

lemma queue_in_addrs:
  assumes "tq_addrs ident q as" and "ident x \<notin> ident ` set (map (dat q) as)"
  shows "\<exists>q' p. queue_in ts ident x q = Some q'
     \<and> tq_addrs ident q' (back_insert (\<lambda>a. ts (dat q' a)) p as)
     \<and> map (dat q') (back_insert (\<lambda>a. ts (dat q' a)) p as) = back_insert ts x (map (dat q) as)"
proof -
  obtain p q1 where pq: "new_node x q = (p, q1)" by fastforce
  have wf: "wf_links q as" using assms(1) by (simp add: tq_addrs_def)
  note nn = new_node_shape [OF wf pq]
  let ?k = "\<lambda>a. ts (dat q1 a)"
  let ?ys = "not_later ?k p as" and ?zs = "later ?k p as"
  have as: "as = ?ys @ ?zs" by (simp add: not_later_later)
  have wf1: "wf_links q1 (?ys @ ?zs @ [])" using nn(1) as by simp
  have bs: "back_search ts (ts x) q1 (last (qhead q1 # as)) = Some (last (qhead q1 # ?ys))"
    using back_search_walk [OF wf1, of "ts x" ts] later_gt [of _ ?k p as] not_later_last [of ?k p as]
      nn(4) as by simp
  obtain pre b post where gap:
    "qpath q1 (?ys @ ?zs) = pre @ last (qhead q1 # ?ys) # b # post"
    "qpath q1 (?ys @ p # ?zs) = pre @ last (qhead q1 # ?ys) # p # b # post"
    using qpath_split_gap [of q1 ?ys "last (qhead q1 # ?ys)" ?zs p] by blast
  let ?as' = "?ys @ p # ?zs"
  obtain q2 where q2: "link_after (last (qhead q1 # ?ys)) p q1 = Some q2" "wf_links q2 ?as'"
    "dat q2 = dat q1" "qmap q2 = qmap q1" "curSize q2 = curSize q1"
    using link_after_shape [OF nn(1) _ nn(2,3) gap(2)] gap(1) as by metis
  let ?q = "q2\<lparr>qmap := (qmap q2)(ident x \<mapsto> p), curSize := curSize q2 + 1\<rparr>"
  have run: "queue_in ts ident x q = Some ?q"
    using pq wf_links_ends(1) [OF nn(1)] bs q2(1,3) nn(4) by (simp add: queue_in_def Let_def)
  have bi: "back_insert (\<lambda>a. ts (dat ?q a)) p as = ?as'" by (simp add: back_insert_def q2(3))
  have dats: "\<forall>a\<in>set as. dat q1 a = dat q a" by (rule nn(6))
  have np: "p \<notin> set as" using nn(2) by (simp add: qpath_def)
  have fresh: "\<forall>a\<in>set as. ident (dat q1 a) \<noteq> ident x" using assms(2) dats by (force simp: image_iff)
  have mem: "set ?as' = insert p (set as)" using set_back_insert [of ?k p as] by (simp add: back_insert_def)
  have dist: "distinct (map (\<lambda>a. ident (dat q1 a)) ?as')"
  proof -
    have "distinct (map (\<lambda>a. ident (dat q a)) as)" using assms(1) by (simp add: tq_addrs_def)
    moreover have "map (\<lambda>a. ident (dat q a)) as = map (\<lambda>a. ident (dat q1 a)) as" using dats by simp
    ultimately have "distinct (map (\<lambda>a. ident (dat q1 a)) (?ys @ ?zs))" using as by simp
    moreover have "ident x \<notin> set (map (\<lambda>a. ident (dat q1 a)) (?ys @ ?zs))"
      using fresh as by (metis (no_types, lifting) imageE list.set_map)
    ultimately show ?thesis using nn(4) by auto
  qed
  have maps: "\<forall>k a. qmap ?q k = Some a \<longleftrightarrow> a \<in> set ?as' \<and> ident (dat q1 a) = k"
    using assms(1) fresh np nn(4,11) dats unfolding mem by (auto simp: tq_addrs_def q2(4))
  have wf': "wf_links ?q ?as'" using q2(2) by (simp add: wf_links_def qpath_def)
  have len: "curSize ?q = int (length ?as')"
    using assms(1) q2(5) nn(9) arg_cong [OF as, of length] by (simp add: tq_addrs_def)
  have "tq_addrs ident ?q ?as'"
    unfolding tq_addrs_def using wf' len dist maps q2(3) by simp
  moreover have "map (dat ?q) ?as' = back_insert ts x (map (dat q) as)"
  proof -
    have e: "map (dat q) as = map (dat q1) as" by (rule nn(5) [symmetric])
    show ?thesis unfolding e
      by (simp add: back_insert_def q2(3) nn(4) later_map [of ts "dat q1" p x]
          not_later_map [of ts "dat q1" p x])
  qed
  ultimately show ?thesis using run bi by metis
qed

lemma queue_out_addrs:
  assumes "tq_addrs ident q as" and "a \<in> set as" and "ident (dat q a) = ident x"
  shows "\<exists>q'. queue_out ident x q = Some q' \<and> dat q' = dat q
     \<and> tq_addrs ident q' (filter (\<lambda>b. ident (dat q b) \<noteq> ident x) as)"
proof -
  from assms(2) obtain us vs where as: "as = us @ a # vs" by (meson split_list)
  have d: "distinct (map (\<lambda>a. ident (dat q a)) as)" using assms(1) by (simp add: tq_addrs_def)
  have nu: "\<forall>b\<in>set us. ident (dat q b) \<noteq> ident x" and nv: "\<forall>b\<in>set vs. ident (dat q b) \<noteq> ident x"
    using d assms(3) unfolding as by (force simp: image_iff)+
  then have fl: "filter (\<lambda>b. ident (dat q b) \<noteq> ident x) as = us @ vs" unfolding as
    using assms(3) by simp
  have m: "qmap q (ident x) = Some a" using assms by (simp add: tq_addrs_def)
  obtain pre l b post where path: "qpath q as = pre @ l # a # b # post"
    "qpath q (us @ vs) = pre @ l # b # post" using qpath_split_elem [OF as] by blast
  have wf: "wf_links q as" using assms(1) by (simp add: tq_addrs_def)
  obtain q1 where q1: "unlink a q = Some q1" "wf_links q1 (us @ vs)" "dat q1 = dat q"
    "qmap q1 = qmap q" "curSize q1 = curSize q"
    using unlink_shape [OF wf path] by blast
  let ?q = "q1\<lparr>qmap := (qmap q1)(ident x := None), curSize := curSize q1 - 1\<rparr>"
  have "queue_out ident x q = Some ?q" using m q1(1) by (simp add: queue_out_def)
  moreover have "wf_links ?q (us @ vs)" using q1(2) by (simp add: wf_links_def qpath_def)
  moreover have "curSize ?q = int (length (us @ vs))" using assms(1) q1(5) as by (simp add: tq_addrs_def)
  moreover have "distinct (map (\<lambda>a. ident (dat ?q a)) (us @ vs))" using d q1(3) as by simp
  moreover have "\<forall>k c. qmap ?q k = Some c \<longleftrightarrow> c \<in> set (us @ vs) \<and> ident (dat ?q c) = k"
    using assms(1,3) nu nv by (auto simp: tq_addrs_def q1(3,4) as)
  ultimately show ?thesis using fl q1(3) unfolding tq_addrs_def by simp
qed

interpretation tx_queue: timed_queue ts ident "tq_rep ident" "queue_in ts ident" "queue_out ident"
  for ts :: "'a \<Rightarrow> int" and ident :: "'a \<Rightarrow> bytes"
proof
  fix q :: "'a pqueue" and xs
  assume "tq_rep ident q xs"
  then show "distinct (map ident xs)" by (auto simp: tq_rep_def tq_addrs_def comp_def)
next
  fix q :: "'a pqueue" and xs x
  assume "tq_rep ident q xs" and n: "ident x \<notin> ident ` set xs"
  then obtain as where "tq_addrs ident q as" "xs = map (dat q) as" by (auto simp: tq_rep_def)
  then show "\<exists>q'. queue_in ts ident x q = Some q' \<and> tq_rep ident q' (back_insert ts x xs)"
    using queue_in_addrs [of ident q as x ts] n unfolding tq_rep_def by metis
next
  fix q :: "'a pqueue" and xs x
  assume "tq_rep ident q xs" and n: "ident x \<in> ident ` set xs"
  then obtain as where as: "tq_addrs ident q as" "xs = map (dat q) as" by (auto simp: tq_rep_def)
  then obtain a where "a \<in> set as" "ident (dat q a) = ident x" using n by auto
  then obtain q' where "queue_out ident x q = Some q'" "dat q' = dat q"
    "tq_addrs ident q' (filter (\<lambda>b. ident (dat q b) \<noteq> ident x) as)"
    using queue_out_addrs [OF as(1)] by blast
  moreover have "filter (\<lambda>y. ident y \<noteq> ident x) xs
      = map (dat q) (filter (\<lambda>b. ident (dat q b) \<noteq> ident x) as)"
    by (simp add: as(2) filter_map comp_def)
  ultimately show "\<exists>q'. queue_out ident x q = Some q'
      \<and> tq_rep ident q' (filter (\<lambda>y. ident y \<noteq> ident x) xs)" unfolding tq_rep_def by metis
next
  fix q :: "'a pqueue" and xs x
  assume "tq_rep ident q xs" and n: "ident x \<notin> ident ` set xs"
  then have "qmap q (ident x) = None"
    unfolding tq_rep_def tq_addrs_def by (metis (no_types, lifting) image_eqI list.set_map not_None_eq)
  then show "queue_out ident x q = None" by (simp add: queue_out_def)
qed

lemma tq_rep_init: "tq_rep ident (queue_init zero mx) []"
  by (auto simp: tq_rep_def tq_addrs_def wf_links_init) (simp_all add: queue_init_def)

lemma tq_rep_curSize: "tq_rep ident q xs \<Longrightarrow> curSize q = int (length xs)"
  by (auto simp: tq_rep_def tq_addrs_def)

end
