(* ===== verification/Block_Queue.thy ===== *)
theory Block_Queue
  imports Linked_Queue
begin

text \<open>
  \<open>blockqueue/queue.go\<close>: the queue of blocks that still have to be sent to the other nodes. It is
  a singly linked list with a head and a rear pointer; \<open>Put\<close> and the second half of \<open>Get\<close> run
  under the queue's lock, but \<open>Get\<close> reads \<open>Head\<close> before it takes the lock. The first part of the
  theory treats the operations as they run alone and shows that the pointers implement a FIFO
  list; the second part splits \<open>Get\<close> at its lock, as a step relation over several goroutines.
\<close>

section \<open>Operations\<close>

record 'a bqueue =
  Head :: ptr
  Rear :: ptr
  Size :: int
  node_data :: "addr \<Rightarrow> 'a"
  node_next :: "addr \<Rightarrow> ptr"
  node_brk :: addr

definition bq_Init :: "'a \<Rightarrow> 'a bqueue" where
  "bq_Init zero = \<lparr>Head = None, Rear = None, Size = 0, node_data = (\<lambda>_. zero),
                   node_next = (\<lambda>_. None), node_brk = 0\<rparr>"

definition Put :: "'a \<Rightarrow> 'a bqueue \<Rightarrow> 'a bqueue" where
  "Put element q =
     (let n = node_brk q;
          q1 = q\<lparr>node_data := (node_data q)(n := element), node_next := (node_next q)(n := None),
                 node_brk := Suc n\<rparr>;
          q2 = (case Rear q1 of
                  None \<Rightarrow> q1\<lparr>Head := Some n, Rear := Some n\<rparr>
                | Some r \<Rightarrow> q1\<lparr>node_next := (node_next q1)(r := Some n), Rear := Some n\<rparr>)
      in q2\<lparr>Size := Size q2 + 1\<rparr>)"

text \<open>\<open>Get\<close> is the unlocked read of \<open>Head\<close> followed by the locked part on the node it read.\<close>

definition get_commit :: "addr \<Rightarrow> 'a bqueue \<Rightarrow> 'a \<times> 'a bqueue" where
  "get_commit n q =
     (let q1 = (case node_next q n of
                  None \<Rightarrow> q\<lparr>Head := None, Rear := None\<rparr>
                | Some m \<Rightarrow> q\<lparr>Head := Some m\<rparr>)
      in (node_data q1 n, q1\<lparr>Size := Size q1 - 1\<rparr>))"

definition Get :: "'a bqueue \<Rightarrow> 'a option \<times> 'a bqueue" where
  "Get q =
     (case Head q of
        None \<Rightarrow> (None, q)
      | Some n \<Rightarrow> (let (d, q') = get_commit n q in (Some d, q')))"

section \<open>The FIFO contract\<close>

text \<open>What a client of a queue relies on, over a relation between the queue and its contents.\<close>

datatype 'a qop = OpPut 'a | OpGet

fun fifo_run :: "'a qop list \<Rightarrow> 'a list \<Rightarrow> 'a option list \<times> 'a list" where
  "fifo_run [] xs = ([], xs)"
| "fifo_run (OpPut x # ops) xs = fifo_run ops (xs @ [x])"
| "fifo_run (OpGet # ops) [] = (let (r, ys) = fifo_run ops [] in (None # r, ys))"
| "fifo_run (OpGet # ops) (x # xs) = (let (r, ys) = fifo_run ops xs in (Some x # r, ys))"

locale fifo =
  fixes rep :: "'q \<Rightarrow> 'a list \<Rightarrow> bool"
    and put :: "'a \<Rightarrow> 'q \<Rightarrow> 'q"
    and get :: "'q \<Rightarrow> 'a option \<times> 'q"
  assumes rep_put: "rep q xs \<Longrightarrow> rep (put x q) (xs @ [x])"
    and get_empty: "rep q [] \<Longrightarrow> get q = (None, q)"
    and get_first: "rep q (x # xs) \<Longrightarrow> \<exists>q'. get q = (Some x, q') \<and> rep q' xs"
begin

fun run :: "'a qop list \<Rightarrow> 'q \<Rightarrow> 'a option list \<times> 'q" where
  "run [] q = ([], q)"
| "run (OpPut x # ops) q = run ops (put x q)"
| "run (OpGet # ops) q = (let (a, q') = get q; (r, q'') = run ops q' in (a # r, q''))"

lemma run_refines:
  "rep q xs \<Longrightarrow> fst (run ops q) = fst (fifo_run ops xs) \<and> rep (snd (run ops q)) (snd (fifo_run ops xs))"
proof (induction ops xs arbitrary: q rule: fifo_run.induct)
  case (1 xs)
  then show ?case by simp
next
  case (2 x ops xs)
  then show ?case using rep_put by simp
next
  case (3 ops)
  have g: "get q = (None, q)" using 3(2) by (rule get_empty)
  have "fst (run ops q) = fst (fifo_run ops []) \<and> rep (snd (run ops q)) (snd (fifo_run ops []))"
    using 3(1) [OF 3(2)] .
  then show ?case using g by (simp add: case_prod_beta)
next
  case (4 ops x xs)
  obtain q' where q': "get q = (Some x, q')" "rep q' xs" using get_first [OF 4(2)] by auto
  then show ?case using 4(1) [of q'] by (auto split: prod.splits)
qed

end

section \<open>The pointers implement it\<close>

fun next_path :: "(addr \<Rightarrow> ptr) \<Rightarrow> addr list \<Rightarrow> bool" where
  "next_path nxt (a # b # r) = (nxt a = Some b \<and> next_path nxt (b # r))"
| "next_path nxt [a] = (nxt a = None)"
| "next_path nxt [] = True"

definition bq_addrs :: "'a bqueue \<Rightarrow> addr list \<Rightarrow> bool" where
  "bq_addrs q as \<longleftrightarrow> next_path (node_next q) as \<and> distinct as \<and> (\<forall>a\<in>set as. a < node_brk q)
     \<and> Head q = (if as = [] then None else Some (hd as))
     \<and> Rear q = (if as = [] then None else Some (last as)) \<and> Size q = int (length as)"

definition bq_rep :: "'a bqueue \<Rightarrow> 'a list \<Rightarrow> bool" where
  "bq_rep q xs \<longleftrightarrow> (\<exists>as. bq_addrs q as \<and> xs = map (node_data q) as)"

lemma next_path_snoc:
  "next_path nxt (as @ [a]) \<Longrightarrow> b \<notin> set (as @ [a]) \<Longrightarrow> distinct (as @ [a]) \<Longrightarrow>
   next_path (nxt(b := None, a := Some b)) (as @ [a, b])"
  by (induction nxt as rule: next_path.induct) auto

lemma Put_addrs:
  assumes "bq_addrs q as"
  shows "bq_addrs (Put x q) (as @ [node_brk q])"
proof (cases as rule: rev_cases)
  case Nil
  then show ?thesis using assms by (simp add: bq_addrs_def Put_def Let_def)
next
  case (snoc bs b)
  have "node_brk q \<notin> set as" using assms by (auto simp: bq_addrs_def)
  with snoc have p: "next_path ((node_next q)(node_brk q := None, b := Some (node_brk q))) (bs @ [b, node_brk q])"
    using assms by (intro next_path_snoc) (simp_all add: bq_addrs_def)
  have h: "hd (bs @ [b, node_brk q]) = hd (bs @ [b])" by (cases bs) simp_all
  show ?thesis using assms p h \<open>node_brk q \<notin> set as\<close> snoc
    by (auto simp: bq_addrs_def Put_def Let_def less_SucI)
qed

lemma bq_rep_Put: "bq_rep q xs \<Longrightarrow> bq_rep (Put x q) (xs @ [x])"
proof -
  assume "bq_rep q xs"
  then obtain as where as: "bq_addrs q as" "xs = map (node_data q) as" by (auto simp: bq_rep_def)
  have d: "node_data (Put x q) = (node_data q)(node_brk q := x)"
    by (simp add: Put_def Let_def split: option.split)
  have "node_brk q \<notin> set as" using as(1) by (auto simp: bq_addrs_def)
  then have "xs @ [x] = map (node_data (Put x q)) (as @ [node_brk q])" using as(2) d by auto
  with Put_addrs [OF as(1)] show "bq_rep (Put x q) (xs @ [x])" unfolding bq_rep_def by blast
qed

lemma Get_addrs:
  assumes "bq_addrs q (a # as)"
  shows "\<exists>q'. Get q = (Some (node_data q a), q') \<and> bq_addrs q' as \<and> node_data q' = node_data q"
  using assms by (cases as) (auto simp: bq_addrs_def Get_def get_commit_def Let_def)

lemma bq_rep_Nil: "bq_rep q [] \<longleftrightarrow> bq_addrs q []"
  by (auto simp: bq_rep_def)

interpretation block_queue: fifo bq_rep Put Get
proof
  fix q :: "'a bqueue" and xs x
  assume "bq_rep q xs"
  then show "bq_rep (Put x q) (xs @ [x])" by (rule bq_rep_Put)
next
  fix q :: "'a bqueue"
  assume "bq_rep q []"
  then show "Get q = (None, q)" by (simp add: bq_rep_Nil bq_addrs_def Get_def)
next
  fix q :: "'a bqueue" and x xs
  assume "bq_rep q (x # xs)"
  then obtain a as where "bq_addrs q (a # as)" "x = node_data q a" "xs = map (node_data q) as"
    by (auto simp: bq_rep_def Cons_eq_map_conv)
  then show "\<exists>q'. Get q = (Some x, q') \<and> bq_rep q' xs"
    using Get_addrs [of q a as] by (auto simp: bq_rep_def)
qed

lemma bq_rep_Init: "bq_rep (bq_Init zero) []"
  by (simp add: bq_rep_Nil bq_addrs_def bq_Init_def)

text \<open>The operations of one goroutine, in order: the results of its \<open>Get\<close>s and the final queue.\<close>

fun bq_run :: "'a qop list \<Rightarrow> 'a bqueue \<Rightarrow> 'a option list \<times> 'a bqueue" where
  "bq_run [] q = ([], q)"
| "bq_run (OpPut x # ops) q = bq_run ops (Put x q)"
| "bq_run (OpGet # ops) q = (let (a, q') = Get q; (r, q'') = bq_run ops q' in (a # r, q''))"

lemma bq_run_eq: "bq_run ops q = block_queue.run ops q"
  by (induction ops q rule: bq_run.induct) (auto split: prod.splits)

lemma bq_rep_Size: "bq_rep q xs \<Longrightarrow> Size q = int (length xs)"
  by (auto simp: bq_rep_def bq_addrs_def)

text \<open>
  C37. The block queue is first in, first out: whatever puts and gets one goroutine runs on a new
  queue, the gets return what they would return on a list that is appended to and read at its
  front, nil exactly when that list is empty, and \<open>Size\<close> is the number of elements left.
\<close>

theorem block_queue_fifo:
  "fst (bq_run ops (bq_Init zero)) = fst (fifo_run ops [])
   \<and> Size (snd (bq_run ops (bq_Init zero))) = int (length (snd (fifo_run ops [])))"
  using block_queue.run_refines [OF bq_rep_Init, of ops zero]
    bq_rep_Size [of "snd (block_queue.run ops (bq_Init zero))" "snd (fifo_run ops [])"]
  by (simp add: bq_run_eq)

section \<open>Several goroutines\<close>

text \<open>
  A consumer is between calls, has read \<open>Head\<close> and not yet taken the lock, or has returned.
  \<open>GRPC/util.go\<close> starts a consumer per call of \<open>Command\<close>'s loop, so several of them run at a time.
\<close>

datatype 'a get_pc = Idle | HasRead addr | Returned "'a option"

inductive bq_step :: "'a bqueue \<times> (nat \<Rightarrow> 'a get_pc) \<Rightarrow> 'a bqueue \<times> (nat \<Rightarrow> 'a get_pc) \<Rightarrow> bool" where
  step_put: "bq_step (q, pc) (Put x q, pc)"
| step_read_nil: "pc t = Idle \<Longrightarrow> Head q = None \<Longrightarrow> bq_step (q, pc) (q, pc(t := Returned None))"
| step_read: "pc t = Idle \<Longrightarrow> Head q = Some n \<Longrightarrow> bq_step (q, pc) (q, pc(t := HasRead n))"
| step_commit: "pc t = HasRead n \<Longrightarrow> get_commit n q = (d, q') \<Longrightarrow>
     bq_step (q, pc) (q', pc(t := Returned (Some d)))"
| step_again: "pc t = Returned r \<Longrightarrow> bq_step (q, pc) (q, pc(t := Idle))"

inductive_cases bq_stepE: "bq_step (q, pc) s"

text \<open>
  Two consumers can be handed the same block: after one \<open>Put\<close> of any \<open>x\<close> there is an
  interleaving of two \<open>Get\<close>s in which both return \<open>x\<close> and \<open>Size\<close> becomes \<open>-1\<close>, because \<open>Head\<close> is
  read before the lock is taken and not read again after it.
\<close>

theorem block_queue_double_delivery:
  "\<exists>q pc. bq_step\<^sup>*\<^sup>* (bq_Init zero, \<lambda>_. Idle) (q, pc)
     \<and> pc 0 = Returned (Some x) \<and> pc (Suc 0) = Returned (Some x) \<and> Size q = -1"
proof -
  let ?q0 = "bq_Init zero" and ?p0 = "\<lambda>_::nat. Idle"
  let ?q1 = "Put x ?q0"
  let ?q2 = "snd (get_commit 0 ?q1)"
  let ?q3 = "snd (get_commit 0 ?q2)"
  let ?p1 = "?p0(0 := HasRead 0)"
  let ?p2 = "?p1(Suc 0 := HasRead 0)"
  let ?p3 = "?p2(0 := Returned (Some x))"
  let ?p4 = "?p3(Suc 0 := Returned (Some x))"
  note d = bq_Init_def Put_def get_commit_def Let_def
  have "bq_step (?q0, ?p0) (?q1, ?p0)" by (rule step_put)
  moreover have "bq_step (?q1, ?p0) (?q1, ?p1)" by (rule step_read) (simp_all add: d)
  moreover have "bq_step (?q1, ?p1) (?q1, ?p2)" by (rule step_read) (simp_all add: d)
  moreover have "bq_step (?q1, ?p2) (?q2, ?p3)" by (rule step_commit [where n = 0]) (simp_all add: d)
  moreover have "bq_step (?q2, ?p3) (?q3, ?p4)" by (rule step_commit [where n = 0]) (simp_all add: d)
  ultimately have "bq_step\<^sup>*\<^sup>* (?q0, ?p0) (?q3, ?p4)"
    by (meson converse_rtranclp_into_rtranclp rtranclp.rtrancl_refl)
  moreover have "Size ?q3 = -1" by (simp add: d)
  ultimately show ?thesis by (intro exI [of _ ?q3] exI [of _ ?p4]) simp
qed

text \<open>
  With a single consumer the same steps are safe. \<open>lone_step\<close> lets only goroutine 0 get, and
  carries along the blocks put so far and the blocks returned so far.
\<close>

inductive lone_step ::
  "'a bqueue \<times> 'a get_pc \<times> 'a list \<times> 'a list \<Rightarrow> 'a bqueue \<times> 'a get_pc \<times> 'a list \<times> 'a list \<Rightarrow> bool" where
  lone_put: "lone_step (q, pc, ins, outs) (Put x q, pc, ins @ [x], outs)"
| lone_read_nil: "Head q = None \<Longrightarrow> lone_step (q, Idle, ins, outs) (q, Returned None, ins, outs)"
| lone_read: "Head q = Some n \<Longrightarrow> lone_step (q, Idle, ins, outs) (q, HasRead n, ins, outs)"
| lone_commit: "get_commit n q = (d, q') \<Longrightarrow>
     lone_step (q, HasRead n, ins, outs) (q', Returned (Some d), ins, outs @ [d])"
| lone_again: "lone_step (q, Returned r, ins, outs) (q, Idle, ins, outs)"

inductive_cases lone_stepE: "lone_step (q, pc, ins, outs) s"

definition lone_ok :: "'a bqueue \<times> 'a get_pc \<times> 'a list \<times> 'a list \<Rightarrow> bool" where
  "lone_ok s = (case s of (q, pc, ins, outs) \<Rightarrow>
     (\<exists>as. bq_addrs q as \<and> ins = outs @ map (node_data q) as
        \<and> (\<forall>n. pc = HasRead n \<longrightarrow> as \<noteq> [] \<and> n = hd as)))"

lemma lone_ok_Put:
  assumes "lone_ok (q, pc, ins, outs)"
  shows "lone_ok (Put x q, pc, ins @ [x], outs)"
proof -
  from assms obtain as where as: "bq_addrs q as" "ins = outs @ map (node_data q) as"
    "\<forall>n. pc = HasRead n \<longrightarrow> as \<noteq> [] \<and> n = hd as" by (auto simp: lone_ok_def)
  have d: "node_data (Put x q) = (node_data q)(node_brk q := x)"
    by (simp add: Put_def Let_def split: option.split)
  have "node_brk q \<notin> set as" using as(1) by (auto simp: bq_addrs_def)
  then have "ins @ [x] = outs @ map (node_data (Put x q)) (as @ [node_brk q])" using as(2) d by simp
  moreover have "\<forall>n. pc = HasRead n \<longrightarrow> as @ [node_brk q] \<noteq> [] \<and> n = hd (as @ [node_brk q])"
    using as(3) by auto
  ultimately show ?thesis using Put_addrs [OF as(1)] unfolding lone_ok_def by blast
qed

lemma lone_ok_commit:
  assumes "lone_ok (q, HasRead n, ins, outs)" and "get_commit n q = (d, q')"
  shows "lone_ok (q', Returned (Some d), ins, outs @ [d])"
proof -
  from assms(1) obtain as where as: "bq_addrs q (n # as)" "ins = outs @ map (node_data q) (n # as)"
    unfolding lone_ok_def by (clarsimp simp: neq_Nil_conv)
  have "Get q = (Some d, q')" using as(1) assms(2) by (simp add: Get_def bq_addrs_def)
  with Get_addrs [OF as(1)] as(2) show ?thesis by (auto simp: lone_ok_def)
qed

lemma lone_ok_step: "lone_step s t \<Longrightarrow> lone_ok s \<Longrightarrow> lone_ok t"
proof (induction rule: lone_step.induct)
  case (lone_put q pc ins outs x)
  then show ?case by (rule lone_ok_Put)
next
  case (lone_read_nil q ins outs)
  then show ?case by (auto simp: lone_ok_def)
next
  case (lone_read q n ins outs)
  then show ?case by (auto simp: lone_ok_def bq_addrs_def split: if_splits)
next
  case (lone_commit n q d q' ins outs)
  then show ?case by (blast intro: lone_ok_commit)
next
  case (lone_again q r ins outs)
  then show ?case by (auto simp: lone_ok_def)
qed

text \<open>
  With one consuming goroutine, in every reachable state the blocks returned so far followed
  by the blocks still in the queue are exactly the blocks put, in their order: none is lost, sent
  twice or reordered, however the puts interleave with the two halves of \<open>Get\<close>.
\<close>

theorem lone_consumer_exact:
  assumes "lone_step\<^sup>*\<^sup>* (bq_Init zero, Idle, [], []) (q, pc, ins, outs)"
  shows "\<exists>xs. bq_rep q xs \<and> ins = outs @ xs"
proof -
  have "lone_ok (bq_Init zero, Idle, [], [])"
    using bq_rep_Init [of zero] by (simp add: lone_ok_def bq_rep_def)
  with assms have "lone_ok (q, pc, ins, outs)"
    by (induction rule: rtranclp_induct) (auto intro: lone_ok_step)
  then show ?thesis by (auto simp: lone_ok_def bq_rep_def)
qed

theorem lone_consumer_exact_witness:
  "\<exists>xs. bq_rep (snd (get_commit 0 (Put (7::nat) (bq_Init 0)))) xs \<and> [7] = [7] @ xs"
proof -
  let ?q0 = "bq_Init (0::nat)"
  let ?q1 = "Put 7 ?q0"
  let ?q2 = "snd (get_commit 0 ?q1)"
  have a: "lone_step (?q0, Idle, [], []) (?q1, Idle, [7], [])"
    using lone_put [of ?q0 Idle "[]" "[]" 7] by simp
  have b: "lone_step (?q1, Idle, [7], []) (?q1, HasRead 0, [7], [])"
    by (rule lone_read) (simp add: bq_Init_def Put_def Let_def)
  have c: "get_commit 0 ?q1 = (7, ?q2)" by (simp add: bq_Init_def Put_def get_commit_def Let_def)
  have "lone_step (?q1, HasRead 0, [7], []) (?q2, Returned (Some 7), [7], [7])"
    using lone_commit [OF c, of "[7]" "[]"] by simp
  with a b have "lone_step\<^sup>*\<^sup>* (?q0, Idle, [], []) (?q2, Returned (Some 7), [7], [7])"
    by (blast intro: converse_rtranclp_into_rtranclp)
  then show ?thesis by (rule lone_consumer_exact)
qed

end
