(* ===== verification/Data_Block.thy ===== *)
theory Data_Block
  imports Codec Hash_Types Merkle
begin

text \<open>
  Transactions and blocks of the data chain: \<open>blockchain/blockchain_data/transaction.go\<close>,
  \<open>block.go\<close> and \<open>CheckDataBlock\<close> of \<open>util.go\<close>. The hash functions, ECDSA over P-256 and the
  byte format of \<open>encoding/gob\<close> are fields of \<open>crypto\<close> and \<open>codec\<close>, over which everything is
  parametric: the code only relies on verification accepting what signing produced and on a
  decoder inverting its encoder, and a theorem that needs that says so.
\<close>

section \<open>Cryptography and serialization used by the chains\<close>

record crypto =
  md5 :: "bytes \<Rightarrow> bytes"
  sha256 :: "bytes \<Rightarrow> bytes"
  gob_slice :: "bytes \<Rightarrow> bytes"
  ecdsa_sign :: "bytes \<Rightarrow> nat \<Rightarrow> bytes \<Rightarrow> bytes option"
  ecdsa_verify :: "nat \<Rightarrow> nat \<Rightarrow> bytes \<Rightarrow> bytes \<Rightarrow> bool"

text \<open>
  \<open>ecdsa_sign rand priv digest\<close> is \<open>ecdsa.SignASN1\<close> (no value is its error) and
  \<open>ecdsa_verify x y digest sig\<close> is \<open>ecdsa.VerifyASN1\<close> under the key with coordinates \<open>x\<close>, \<open>y\<close>.
\<close>

record 'b codec =
  encode :: "'b \<Rightarrow> bytes"
  decode :: "bytes \<Rightarrow> 'b option"

section \<open>Transactions\<close>

record transaction =
  TxID :: bytes
  DataID :: bytes
  Table :: string
  Key :: string
  Value :: string
  Possessor :: string
  TimeStamp :: int
  PublicKey :: bytes
  Signature :: bytes

definition zero_tx :: transaction where
  "zero_tx = \<lparr>TxID = [], DataID = [], Table = [], Key = [], Value = [], Possessor = [],
              TimeStamp = 0, PublicKey = [], Signature = []\<rparr>"

text \<open>\<open>util.Int64ToBytes\<close> never panics (\<open>Int64ToBytes_ok\<close>), so its result is taken out of the sum.\<close>

definition transactionsToBytes :: "transaction \<Rightarrow> bytes" where
  "transactionsToBytes tx =
     TxID tx @ DataID tx @ Table tx @ Key tx @ Value tx @ Possessor tx
     @ projr (Int64ToBytes (TimeStamp tx)) @ PublicKey tx @ Signature tx"

definition SetDataID :: "transaction \<Rightarrow> transaction" where
  "SetDataID tx = tx\<lparr>DataID := Table tx @ ''-QAQ-'' @ Key tx\<rparr>"

definition SetTxID :: "crypto \<Rightarrow> transaction \<Rightarrow> transaction" where
  "SetTxID cr tx = tx\<lparr>TxID := sha256 cr (gob_slice cr (transactionsToBytes tx))\<rparr>"

definition Sign :: "crypto \<Rightarrow> bytes \<Rightarrow> nat \<Rightarrow> transaction \<Rightarrow> transaction go" where
  "Sign cr rnd privateKey tx =
     (case ecdsa_sign cr rnd privateKey (TxID tx) of
        None \<Rightarrow> Inl LogPanic
      | Some sig \<Rightarrow> Inr (tx\<lparr>Signature := sig\<rparr>))"

definition tx_Init :: "crypto \<Rightarrow> bytes \<Rightarrow> int \<Rightarrow> string \<Rightarrow> string \<Rightarrow> string \<Rightarrow> string \<Rightarrow> bytes \<Rightarrow> nat \<Rightarrow>
    transaction \<Rightarrow> transaction go" where
  "tx_Init cr rnd now table key value' possessor publicKey privateKey tx =
     (let tx1 = tx\<lparr>Table := table, Key := key, Value := value', Possessor := possessor,
                   TimeStamp := now, PublicKey := publicKey\<rparr>
      in Sign cr rnd privateKey (SetTxID cr (SetDataID tx1)))"

definition restore_key :: "bytes \<Rightarrow> nat \<times> nat" where
  "restore_key publicKey =
     (be_nat (take (length publicKey div 2) publicKey), be_nat (drop (length publicKey div 2) publicKey))"

definition VerifyTransaction :: "crypto \<Rightarrow> transaction \<Rightarrow> bool" where
  "VerifyTransaction cr tx =
     (let (x, y) = restore_key (PublicKey tx);
          tx' = SetTxID cr (tx\<lparr>Signature := [], TxID := []\<rparr>)
      in ecdsa_verify cr x y (TxID tx') (Signature tx))"

section \<open>Blocks\<close>

record block =
  Round :: uint64
  CurrentBlockHash :: bytes
  PreviousBlockHash :: bytes
  MerKelRoot :: bytes
  Transactions :: "transaction list"
  BTimeStamp :: uint64
  Author :: bytes
  Seed :: bytes
  Proof :: bytes
  BType :: int
  BSignature :: bytes

definition NewBlock :: block where
  "NewBlock = \<lparr>Round = 0, CurrentBlockHash = [], PreviousBlockHash = [], MerKelRoot = [],
     Transactions = [], BTimeStamp = 0, Author = replicate AddressLength zero_byte, Seed = [],
     Proof = [], BType = 0, BSignature = []\<rparr>"

definition SetBlockHash :: "crypto \<Rightarrow> block codec \<Rightarrow> block \<Rightarrow> block" where
  "SetBlockHash cr cd b = b\<lparr>CurrentBlockHash := sha256 cr (encode cd b)\<rparr>"

definition Serialize :: "block codec \<Rightarrow> block \<Rightarrow> bytes" where
  "Serialize cd b = encode cd b"

definition Deserialize :: "block codec \<Rightarrow> bytes \<Rightarrow> block go" where
  "Deserialize cd data = (case decode cd data of None \<Rightarrow> Inl LogPanic | Some b \<Rightarrow> Inr b)"

definition IsGenesisBlock :: "block \<Rightarrow> bool" where
  "IsGenesisBlock b \<longleftrightarrow> PreviousBlockHash b = []"

definition InitBlock :: "crypto \<Rightarrow> block codec \<Rightarrow> uint64 \<Rightarrow> transaction list \<Rightarrow> bytes \<Rightarrow> uint64 \<Rightarrow>
    block \<Rightarrow> block go" where
  "InitBlock cr cd now txs previousBlockHash ID b =
     bind_go (GetMerkleRoot (md5 cr) (map transactionsToBytes txs)) (\<lambda>t.
       let b1 = b\<lparr>Round := ID, PreviousBlockHash := previousBlockHash, Transactions := txs,
                  MerKelRoot := mt_Hash t, BTimeStamp := now\<rparr>;
           b2 = SetBlockHash cr cd b1;
           emptyHash = sha256 cr []
       in Inr (b2\<lparr>Seed := emptyHash, Author := HashToAddr emptyHash\<rparr>))"

definition InitGenesisBlock :: "crypto \<Rightarrow> block codec \<Rightarrow> transaction list \<Rightarrow> bytes \<Rightarrow> uint64 \<Rightarrow>
    block \<Rightarrow> block go" where
  "InitGenesisBlock cr cd txs previousBlockHash ID b =
     bind_go (GetMerkleRoot (md5 cr) (map transactionsToBytes txs)) (\<lambda>t.
       let b1 = b\<lparr>Round := ID, PreviousBlockHash := previousBlockHash, Transactions := txs,
                  MerKelRoot := mt_Hash t, BTimeStamp := 1234567800\<rparr>
       in Inr (SetBlockHash cr cd b1))"

definition genesis_parent :: bytes where
  "genesis_parent = ''welcome to 407''"

definition CheckDataBlock :: "crypto \<Rightarrow> block \<Rightarrow> bool go" where
  "CheckDataBlock cr b =
     (if PreviousBlockHash b = genesis_parent then Inr True
      else if \<exists>tx \<in> set (Transactions b). \<not> VerifyTransaction cr tx then Inr False
      else bind_go (GetMerkleRoot (md5 cr) (map transactionsToBytes (Transactions b))) (\<lambda>t.
             if mt_Hash t \<noteq> MerKelRoot b then Inl LogPanic else Inr True))"

section \<open>Lemmas\<close>

lemma tx_Init_fields:
  assumes "tx_Init cr rnd now t k v p pub priv tx = Inr tx'"
  shows "Table tx' = t" and "Key tx' = k" and "Value tx' = v" and "Possessor tx' = p"
    and "TimeStamp tx' = now" and "PublicKey tx' = pub" and "DataID tx' = t @ ''-QAQ-'' @ k"
  using assms by (auto simp: tx_Init_def Sign_def SetTxID_def SetDataID_def Let_def split: option.splits)

lemma VerifyTransaction_unfold:
  "VerifyTransaction cr tx = ecdsa_verify cr (fst (restore_key (PublicKey tx)))
     (snd (restore_key (PublicKey tx)))
     (sha256 cr (gob_slice cr (transactionsToBytes (tx\<lparr>Signature := [], TxID := []\<rparr>)))) (Signature tx)"
  by (simp add: VerifyTransaction_def SetTxID_def split_beta)

lemma restore_key_padded:
  assumes "length xb = n" and "length yb = n"
  shows "restore_key (xb @ yb) = (be_nat xb, be_nat yb)"
  using assms by (simp add: restore_key_def)

lemma InitBlock_Inr:
  assumes "txs \<noteq> []"
  shows "\<exists>b'. InitBlock cr cd now txs prev ID b = Inr b' \<and> Transactions b' = txs
     \<and> PreviousBlockHash b' = prev \<and> Round b' = ID \<and> BTimeStamp b' = now
     \<and> MerKelRoot b' = merkle_root_digest (md5 cr) (map transactionsToBytes txs)"
  using GetMerkleRoot_digest [of "map transactionsToBytes txs" "md5 cr"] assms
  by (auto simp: InitBlock_def SetBlockHash_def Let_def)

lemma InitBlock_empty: "InitBlock cr cd now [] prev ID b = Inl StackOverflow"
  by (simp add: InitBlock_def GetMerkleRoot_empty)

lemma CheckDataBlock_cases:
  "CheckDataBlock cr b =
     (if PreviousBlockHash b = genesis_parent then Inr True
      else if \<not> (\<forall>tx \<in> set (Transactions b). VerifyTransaction cr tx) then Inr False
      else if Transactions b = [] then Inl StackOverflow
      else if merkle_root_digest (md5 cr) (map transactionsToBytes (Transactions b)) \<noteq> MerKelRoot b
      then Inl LogPanic else Inr True)"
  using GetMerkleRoot_digest [of "map transactionsToBytes (Transactions b)" "md5 cr"]
  by (auto simp: CheckDataBlock_def GetMerkleRoot_empty)

section \<open>Properties\<close>

text \<open>A concrete instance, for the witnesses.\<close>

definition toy_crypto :: crypto where
  "toy_crypto = \<lparr>md5 = toy_digest, sha256 = (\<lambda>b. take 32 (rev b @ replicate 32 CHR 0x00)),
     gob_slice = (\<lambda>b. b), ecdsa_sign = (\<lambda>rnd priv d. Some (be_bytes 2 priv @ d)),
     ecdsa_verify = (\<lambda>x y d s. s = be_bytes 2 (x + y) @ d)\<rparr>"

lemma tx_Init_verifies_padded:
  assumes "length xb = n" and "length yb = n"
    and "\<And>d sig. ecdsa_sign cr rnd priv d = Some sig \<Longrightarrow> ecdsa_verify cr (be_nat xb) (be_nat yb) d sig"
    and "tx_Init cr rnd now table key val pos (xb @ yb) priv zero_tx = Inr tx"
  shows "VerifyTransaction cr tx \<and> DataID tx = table @ ''-QAQ-'' @ key"
proof -
  let ?u = "SetDataID (zero_tx\<lparr>Table := table, Key := key, Value := val, Possessor := pos,
      TimeStamp := now, PublicKey := xb @ yb\<rparr>)"
  obtain sig where sig: "ecdsa_sign cr rnd priv (TxID (SetTxID cr ?u)) = Some sig"
    and tx: "tx = (SetTxID cr ?u)\<lparr>Signature := sig\<rparr>"
    using assms(4) by (auto simp: tx_Init_def Sign_def Let_def split: option.splits)
  have "tx\<lparr>Signature := [], TxID := []\<rparr> = ?u"
    by (simp add: tx SetTxID_def SetDataID_def zero_tx_def)
  then have "VerifyTransaction cr tx = ecdsa_verify cr (be_nat xb) (be_nat yb)
      (TxID (SetTxID cr ?u)) sig"
    using restore_key_padded [OF assms(1,2)]
    by (simp add: VerifyTransaction_unfold tx SetTxID_def SetDataID_def)
  then show ?thesis using assms(3) [OF sig] by (simp add: tx SetTxID_def SetDataID_def)
qed

text \<open>
  C39. A freshly initialised transaction verifies, if the public key is the two coordinates padded
  to the same width and signing with the private key is accepted under them: \<open>VerifyTransaction\<close>
  recomputes the hash that \<open>Init\<close> signed.
\<close>

theorem tx_init_verifies:
  assumes "length xb = n" and "length yb = n"
    and "\<And>d sig. ecdsa_sign cr rnd priv d = Some sig \<Longrightarrow> ecdsa_verify cr (be_nat xb) (be_nat yb) d sig"
    and "tx_Init cr rnd now table key val pos (xb @ yb) priv zero_tx = Inr tx"
  shows "VerifyTransaction cr tx \<and> DataID tx = table @ ''-QAQ-'' @ key"
  using assms by (rule tx_Init_verifies_padded)

theorem tx_init_verifies_witness:
  "\<exists>tx. tx_Init toy_crypto [] 5 ''t'' ''k'' ''v'' ''p'' [CHR 0x01, CHR 0x02] 3 zero_tx = Inr tx
     \<and> VerifyTransaction toy_crypto tx"
proof -
  obtain tx where tx: "tx_Init toy_crypto [] 5 ''t'' ''k'' ''v'' ''p'' ([CHR 0x01] @ [CHR 0x02]) 3 zero_tx = Inr tx"
    by (simp add: tx_Init_def Sign_def toy_crypto_def Let_def)
  have "VerifyTransaction toy_crypto tx \<and> DataID tx = ''t'' @ ''-QAQ-'' @ ''k''"
    by (rule tx_init_verifies [OF _ _ _ tx, of 1]) (simp_all add: toy_crypto_def be_nat_def numeral_3_eq_3)
  then show ?thesis using tx by auto
qed

text \<open>
  What the signature does not cover: a transaction verifies exactly if any other one verifies
  that has the same public key and signature and the same bytes in a row from \<open>DataID\<close> to the
  time stamp, so bytes can be moved between neighbouring fields (the end of the key to the start
  of the value) and \<open>TxID\<close> replaced without the check noticing.
\<close>

theorem verify_ignores_boundaries:
  assumes "PublicKey tx' = PublicKey tx" and "Signature tx' = Signature tx"
    and "TimeStamp tx' = TimeStamp tx"
    and "DataID tx' @ Table tx' @ Key tx' @ Value tx' @ Possessor tx' =
         DataID tx @ Table tx @ Key tx @ Value tx @ Possessor tx"
  shows "VerifyTransaction cr tx' = VerifyTransaction cr tx"
proof -
  have "transactionsToBytes (tx'\<lparr>Signature := [], TxID := []\<rparr>)
      = (DataID tx' @ Table tx' @ Key tx' @ Value tx' @ Possessor tx')
        @ projr (Int64ToBytes (TimeStamp tx')) @ PublicKey tx'"
    by (simp add: transactionsToBytes_def)
  also have "\<dots> = transactionsToBytes (tx\<lparr>Signature := [], TxID := []\<rparr>)"
    unfolding assms(4) by (simp add: transactionsToBytes_def assms(1,3))
  finally show ?thesis by (simp add: VerifyTransaction_unfold assms(1,2))
qed

theorem verify_ignores_boundaries_witness:
  "VerifyTransaction toy_crypto (zero_tx\<lparr>Key := ''a'', Value := ''bc''\<rparr>)
     = VerifyTransaction toy_crypto (zero_tx\<lparr>TxID := ''x'', Key := ''ab'', Value := ''c''\<rparr>)"
  by (rule verify_ignores_boundaries) (simp_all add: zero_tx_def)

text \<open>
  \<open>CheckDataBlock\<close> decides a block by three tests and nothing else: a block whose parent
  hash is the genesis marker is accepted unseen; any other block is rejected if a transaction does
  not verify; otherwise an empty block overflows the stack in the Merkle code, a wrong root panics
  instead of being rejected, and the right root is accepted. The block's own hash, round, author,
  seed and signature do not matter.
\<close>

theorem check_data_block:
  "CheckDataBlock cr b =
     (if PreviousBlockHash b = ''welcome to 407'' then Inr True
      else if \<not> list_all (VerifyTransaction cr) (Transactions b) then Inr False
      else if Transactions b = [] then Inl StackOverflow
      else if merkle_root_digest (md5 cr) (map transactionsToBytes (Transactions b)) \<noteq> MerKelRoot b
      then Inl LogPanic else Inr True)
   \<and> CheckDataBlock cr (b\<lparr>CurrentBlockHash := h, Round := r, Author := a, Seed := s, BSignature := g\<rparr>)
     = CheckDataBlock cr b"
proof
  show "CheckDataBlock cr (b\<lparr>CurrentBlockHash := h, Round := r, Author := a, Seed := s, BSignature := g\<rparr>)
      = CheckDataBlock cr b" by (simp add: CheckDataBlock_def)
qed (simp only: CheckDataBlock_cases genesis_parent_def list_all_iff)

text \<open>
  The author's block passes: what \<open>InitBlock\<close> builds from verified transactions is accepted
  by \<open>CheckDataBlock\<close>, and with no transactions \<open>InitBlock\<close> itself does not return.
\<close>

theorem init_block_accepted:
  assumes "list_all (VerifyTransaction cr) txs"
  shows "bind_go (InitBlock cr cd now txs prev ID b) (CheckDataBlock cr) =
    (if txs = [] then Inl StackOverflow else Inr True)"
proof (cases "txs = []")
  case True
  then show ?thesis by (simp add: InitBlock_empty)
next
  case False
  then obtain b' where "InitBlock cr cd now txs prev ID b = Inr b'" "Transactions b' = txs"
    "MerKelRoot b' = merkle_root_digest (md5 cr) (map transactionsToBytes txs)"
    using InitBlock_Inr by metis
  then show ?thesis using False assms
    by (simp add: CheckDataBlock_cases list_all_iff)
qed

theorem init_block_accepted_witness:
  "bind_go (InitBlock toy_crypto \<lparr>encode = (\<lambda>_. []), decode = (\<lambda>_. None)\<rparr> 9
      [SetDataID (zero_tx\<lparr>Signature := be_bytes 2 0 @ toy_digest [] @ toy_digest []\<rparr>)] ''h'' 1 NewBlock)
      (CheckDataBlock (toy_crypto\<lparr>ecdsa_verify := (\<lambda>x y d s. True)\<rparr>)) = Inr True"
  (is "bind_go (InitBlock _ ?cd 9 [?tx] _ _ _) _ = _")
proof -
  let ?cr = "toy_crypto\<lparr>ecdsa_verify := (\<lambda>x y d s. True)\<rparr>"
  have "InitBlock toy_crypto ?cd 9 [?tx] ''h'' 1 NewBlock = InitBlock ?cr ?cd 9 [?tx] ''h'' 1 NewBlock"
    by (simp add: InitBlock_def SetBlockHash_def)
  then show ?thesis
    using init_block_accepted [of ?cr "[?tx]" ?cd 9 "''h''" 1 NewBlock]
    by (simp add: VerifyTransaction_unfold)
qed

lemma be_nat_big_bytes_ge: "n \<noteq> 0 \<Longrightarrow> 256 ^ (length (big_bytes n) - 1) \<le> n"
proof (induction n rule: big_bytes.induct)
  case (1 n)
  show ?case
  proof (cases "n div 256 = 0")
    case True
    then have "big_bytes n = [char_of n]"
      using 1(2) by (simp add: big_bytes.simps [of n] big_bytes.simps [of 0])
    then show ?thesis using 1(2) by simp
  next
    case False
    have b: "big_bytes n = big_bytes (n div 256) @ [char_of n]"
      using 1(2) by (simp add: big_bytes.simps [of n])
    have "big_bytes (n div 256) \<noteq> []" using False by (simp add: big_bytes.simps [of "n div 256"])
    then have "length (big_bytes n) - 1 = Suc (length (big_bytes (n div 256)) - 1)"
      unfolding b by (cases "big_bytes (n div 256)") simp_all
    moreover have "256 ^ (length (big_bytes (n div 256)) - 1) \<le> n div 256"
      using 1 False by blast
    ultimately show ?thesis by simp
  qed
qed

lemma hd_big_bytes: "n \<noteq> 0 \<Longrightarrow> big_bytes n \<noteq> []"
  by (simp add: big_bytes.simps [of n])

lemma be_nat_append: "be_nat (xs @ ys) = be_nat xs * 256 ^ length ys + be_nat ys"
proof (induction ys rule: rev_induct)
  case Nil
  then show ?case by simp
next
  case (snoc c ys)
  then show ?case by (simp add: algebra_simps flip: append_assoc)
qed

lemma restore_key_fst_iff:
  assumes "X \<noteq> 0"
  shows "fst (restore_key (big_bytes X @ big_bytes Y)) = X \<longleftrightarrow>
    (length (big_bytes X) + length (big_bytes Y)) div 2 = length (big_bytes X)"
  (is "_ \<longleftrightarrow> ?h = ?l")
proof
  assume "?h = ?l"
  then show "fst (restore_key (big_bytes X @ big_bytes Y)) = X"
    by (simp add: restore_key_def be_nat_big_bytes)
next
  assume eq: "fst (restore_key (big_bytes X @ big_bytes Y)) = X"
  show "?h = ?l"
  proof (rule ccontr)
    assume "?h \<noteq> ?l"
    then consider "?h < ?l" | "?l < ?h" by linarith
    then show False
    proof cases
      case 1
      then have "X = be_nat (take ?h (big_bytes X))" using eq by (simp add: restore_key_def)
      then have "X < 256 ^ ?h"
        using be_nat_bound [of "take ?h (big_bytes X)"] 1 by simp
      also have "\<dots> \<le> 256 ^ (?l - 1)" using 1 by (intro power_increasing) simp_all
      also have "\<dots> \<le> X" using be_nat_big_bytes_ge [OF assms] .
      finally show False by simp
    next
      case 2
      let ?t = "take (?h - ?l) (big_bytes Y)"
      have "X = X * 256 ^ length ?t + be_nat ?t"
        using eq 2 by (simp add: restore_key_def be_nat_append be_nat_big_bytes)
      moreover have "length ?t \<noteq> 0" using 2 by simp
      then have "(256::nat) ^ 1 \<le> 256 ^ length ?t" by (intro power_increasing) simp_all
      then have "X * 256 \<le> X * 256 ^ length ?t" by simp
      ultimately show False using assms by linarith
    qed
  qed
qed

text \<open>
  Restoring the public key. The key bytes are the two coordinates without leading zeros, one
  after the other (\<open>userManage.go\<close>), and verification cuts them in the middle: the coordinates
  come back exactly if \<open>Y\<close> has as many bytes as \<open>X\<close> or one more, so a key whose \<open>X\<close> is longer
  than \<open>Y\<close> never verifies under its own coordinates.
\<close>

theorem restore_key_iff:
  assumes "X \<noteq> 0"
  shows "restore_key (big_bytes X @ big_bytes Y) = (X, Y) \<longleftrightarrow>
    length (big_bytes Y) \<in> {length (big_bytes X), Suc (length (big_bytes X))}"
proof -
  have "(length (big_bytes X) + length (big_bytes Y)) div 2 = length (big_bytes X) \<longleftrightarrow>
    length (big_bytes Y) \<in> {length (big_bytes X), Suc (length (big_bytes X))}" by auto
  moreover have "restore_key (big_bytes X @ big_bytes Y) = (X, Y)"
    if "(length (big_bytes X) + length (big_bytes Y)) div 2 = length (big_bytes X)"
    using that by (simp add: restore_key_def be_nat_big_bytes)
  ultimately show ?thesis using restore_key_fst_iff [OF assms, of Y] by (metis fst_conv)
qed

theorem restore_key_iff_witness:
  "restore_key (big_bytes 300 @ big_bytes 7) \<noteq> (300, 7)"
  using restore_key_iff [of 300 7] by (simp add: big_bytes.simps)

end
