(* ===== verification/Bolt_Store.thy ===== *)
theory Bolt_Store
  imports Prelude
begin

text \<open>
  The embedded key/value store \<open>github.com/boltdb/bolt\<close>, which is not part of the repository. The
  operations the code calls are the fields of a record over which every store-using definition is
  parametric, and \<open>bolt_laws\<close> states the documented behaviour the code relies on: a bucket is
  created once and under a non-empty name, \<open>Put\<close> fails exactly on an empty or too large key or a
  too large value, and \<open>Get\<close> returns what was last put, nil (here \<open>[]\<close>) for a missing key.
  \<open>mapdb\<close> is a concrete store that satisfies the laws, for the witnesses.
\<close>

record 'db bolt =
  empty_db :: 'db
  has_bucket :: "'db \<Rightarrow> bytes \<Rightarrow> bool"
  create_bucket :: "'db \<Rightarrow> bytes \<Rightarrow> 'db option"
  bolt_get :: "'db \<Rightarrow> bytes \<Rightarrow> bytes \<Rightarrow> bytes"
  bolt_put :: "'db \<Rightarrow> bytes \<Rightarrow> bytes \<Rightarrow> bytes \<Rightarrow> 'db option"

definition storable :: "bytes \<Rightarrow> bytes \<Rightarrow> bool" where
  "storable k v \<longleftrightarrow> k \<noteq> [] \<and> length k \<le> 32768 \<and> length v \<le> 2147483646"

definition create_law :: "'db bolt \<Rightarrow> bool" where
  "create_law B \<longleftrightarrow> (\<forall>db b.
     if has_bucket B db b \<or> b = [] then create_bucket B db b = None
     else \<exists>db'. create_bucket B db b = Some db'
        \<and> has_bucket B db' = (\<lambda>c. c = b \<or> has_bucket B db c)
        \<and> bolt_get B db' = (bolt_get B db)(b := (\<lambda>_. [])))"

definition put_law :: "'db bolt \<Rightarrow> bool" where
  "put_law B \<longleftrightarrow> (\<forall>db b k v. has_bucket B db b \<longrightarrow>
     (if \<not> storable k v then bolt_put B db b k v = None
      else \<exists>db'. bolt_put B db b k v = Some db' \<and> has_bucket B db' = has_bucket B db
        \<and> bolt_get B db' = (bolt_get B db)(b := (bolt_get B db b)(k := v))))"

definition bolt_laws :: "'db bolt \<Rightarrow> bool" where
  "bolt_laws B \<longleftrightarrow> (\<forall>b. \<not> has_bucket B (empty_db B) b) \<and> create_law B \<and> put_law B"

lemma bolt_empty: "bolt_laws B \<Longrightarrow> \<not> has_bucket B (empty_db B) b"
  by (simp add: bolt_laws_def)

lemma bolt_create:
  assumes "bolt_laws B" and "\<not> has_bucket B db b" and "b \<noteq> []"
  obtains db' where "create_bucket B db b = Some db'"
    and "has_bucket B db' = (\<lambda>c. c = b \<or> has_bucket B db c)"
    and "bolt_get B db' = (bolt_get B db)(b := (\<lambda>_. []))"
proof -
  have "create_law B" using assms(1) by (simp add: bolt_laws_def)
  then show thesis using assms(2,3) that unfolding create_law_def by (metis (no_types, lifting))
qed

lemma bolt_create_fails:
  "bolt_laws B \<Longrightarrow> has_bucket B db b \<or> b = [] \<Longrightarrow> create_bucket B db b = None"
  unfolding bolt_laws_def create_law_def by presburger

lemma bolt_put_fails:
  assumes "bolt_laws B" and "has_bucket B db b" and "\<not> storable k v"
  shows "bolt_put B db b k v = None"
proof -
  have "put_law B" using assms(1) by (simp add: bolt_laws_def)
  then show ?thesis using assms(2,3) unfolding put_law_def by metis
qed

lemma bolt_put:
  assumes "bolt_laws B" and "has_bucket B db b" and "storable k v"
  obtains db' where "bolt_put B db b k v = Some db'" and "has_bucket B db' = has_bucket B db"
    and "bolt_get B db' = (bolt_get B db)(b := (bolt_get B db b)(k := v))"
proof -
  have "put_law B" using assms(1) by (simp add: bolt_laws_def)
  then show thesis using assms(2,3) that unfolding put_law_def by metis
qed

lemma bolt_put_some:
  assumes "bolt_laws B" and "has_bucket B db b" and "bolt_put B db b k v = Some db'"
  shows "has_bucket B db' = has_bucket B db" and "storable k v"
    and "bolt_get B db' = (bolt_get B db)(b := (bolt_get B db b)(k := v))"
proof -
  show s: "storable k v" using bolt_put_fails [OF assms(1,2), of k v] assms(3) by auto
  show "has_bucket B db' = has_bucket B db"
    and "bolt_get B db' = (bolt_get B db)(b := (bolt_get B db b)(k := v))"
    using bolt_put [OF assms(1,2) s] assms(3) by (metis option.sel)+
qed

text \<open>A store as a finite map from bucket names to maps.\<close>

type_synonym mapdb = "bytes \<rightharpoonup> (bytes \<rightharpoonup> bytes)"

definition map_bolt :: "mapdb bolt" where
  "map_bolt = \<lparr>empty_db = Map.empty,
     has_bucket = (\<lambda>db b. db b \<noteq> None),
     create_bucket = (\<lambda>db b. if db b \<noteq> None \<or> b = [] then None else Some (db(b \<mapsto> Map.empty))),
     bolt_get = (\<lambda>db b k. case db b of None \<Rightarrow> [] | Some m \<Rightarrow> (case m k of None \<Rightarrow> [] | Some v \<Rightarrow> v)),
     bolt_put = (\<lambda>db b k v. case db b of None \<Rightarrow> None
       | Some m \<Rightarrow> if storable k v then Some (db(b \<mapsto> m(k \<mapsto> v))) else None)\<rparr>"

lemma map_bolt_create_law: "create_law map_bolt"
  unfolding create_law_def
proof (intro allI)
  fix db :: mapdb and b
  have "has_bucket map_bolt (db(b \<mapsto> Map.empty)) = (\<lambda>c. c = b \<or> has_bucket map_bolt db c)"
    and "bolt_get map_bolt (db(b \<mapsto> Map.empty)) = (bolt_get map_bolt db)(b := (\<lambda>_. []))"
    by (auto simp: map_bolt_def fun_eq_iff)
  then show "if has_bucket map_bolt db b \<or> b = [] then create_bucket map_bolt db b = None
     else \<exists>db'. create_bucket map_bolt db b = Some db'
        \<and> has_bucket map_bolt db' = (\<lambda>c. c = b \<or> has_bucket map_bolt db c)
        \<and> bolt_get map_bolt db' = (bolt_get map_bolt db)(b := (\<lambda>_. []))"
    by (auto simp: map_bolt_def)
qed

lemma map_bolt_put_law: "put_law map_bolt"
  unfolding put_law_def
proof (intro allI impI)
  fix db :: mapdb and b k v
  assume "has_bucket map_bolt db b"
  then obtain m where m: "db b = Some m" by (auto simp: map_bolt_def)
  let ?db = "db(b \<mapsto> m(k \<mapsto> v))"
  have "has_bucket map_bolt ?db = has_bucket map_bolt db"
    by (rule ext) (simp add: map_bolt_def m)
  moreover have "bolt_get map_bolt ?db = (bolt_get map_bolt db)(b := (bolt_get map_bolt db b)(k := v))"
    by (rule ext) (auto simp: map_bolt_def m)
  moreover have "bolt_put map_bolt db b k v = (if storable k v then Some ?db else None)"
    using m by (simp add: map_bolt_def)
  ultimately show "if \<not> storable k v then bolt_put map_bolt db b k v = None
      else \<exists>db'. bolt_put map_bolt db b k v = Some db' \<and> has_bucket map_bolt db' = has_bucket map_bolt db
        \<and> bolt_get map_bolt db' = (bolt_get map_bolt db)(b := (bolt_get map_bolt db b)(k := v))"
    by simp
qed

lemma map_bolt_laws: "bolt_laws map_bolt"
  by (simp add: bolt_laws_def map_bolt_create_law map_bolt_put_law) (simp add: map_bolt_def)

text \<open>Other keys and other buckets are not touched by a put.\<close>

lemma bolt_put_other:
  assumes "bolt_laws B" and "has_bucket B db b" and "bolt_put B db b k v = Some db'"
  shows "bolt_get B db' = (bolt_get B db)(b := (bolt_get B db b)(k := v))" and "has_bucket B db' = has_bucket B db"
proof -
  have st: "storable k v"
  proof (rule ccontr)
    assume "\<not> storable k v"
    then show False using assms by (auto simp: bolt_laws_def put_law_def)
  qed
  obtain db1 where "bolt_put B db b k v = Some db1" "has_bucket B db1 = has_bucket B db"
    "bolt_get B db1 = (bolt_get B db)(b := (bolt_get B db b)(k := v))" using bolt_put [OF assms(1,2) st] .
  then show "bolt_get B db' = (bolt_get B db)(b := (bolt_get B db b)(k := v))" "has_bucket B db' = has_bucket B db"
    using assms(3) by simp_all
qed

end
