(* ===== verification/Chain_Store.thy ===== *)
theory Chain_Store
  imports Bolt_Store
begin

text \<open>
  A block chain in a bolt file, the code that \<open>blockchain_data/blockchain.go\<close> and
  \<open>blockchain_table/blockchain.go\<close> have in common word for word: the chain struct,
  \<open>AddBlockToChain\<close>, the iterator and \<open>GetBlockByHash\<close>. The two packages differ in the block type,
  so the operations take what they use of a block: its encoder \<open>enc\<close> and decoder \<open>dec\<close>, its hash
  \<open>hsh\<close> and its parent hash \<open>prv\<close>. \<open>Data_Chain\<close> and \<open>Table_Chain\<close> instantiate them.

  A chain is opened by one process, so the database is part of the chain's state. A panic inside
  a bolt transaction rolls it back; the process is gone then, and the result is the panic.
\<close>

record ('db, 'b, 'i) chain =
  Db :: 'db
  TailHash :: bytes
  BlockBucket :: bytes
  LastHashKey :: bytes
  LastID :: 'i
  GenesisBlock :: "'b option"

definition put_block :: "'db bolt \<Rightarrow> ('b \<Rightarrow> bytes) \<Rightarrow> ('b \<Rightarrow> bytes) \<Rightarrow> 'b \<Rightarrow> ('db, 'b, 'i) chain \<Rightarrow>
    ('db, 'b, 'i) chain go" where
  "put_block B enc hsh b ch =
     (case bolt_put B (Db ch) (BlockBucket ch) (hsh b) (enc b) of
        None \<Rightarrow> Inl LogPanic
      | Some db1 \<Rightarrow>
          (case bolt_put B db1 (BlockBucket ch) (LastHashKey ch) (hsh b) of
             None \<Rightarrow> Inl LogPanic
           | Some db2 \<Rightarrow> Inr (ch\<lparr>Db := db2, TailHash := hsh b\<rparr>)))"

definition add_block :: "'db bolt \<Rightarrow> ('b \<Rightarrow> bytes) \<Rightarrow> ('b \<Rightarrow> bytes) \<Rightarrow> 'b \<Rightarrow> ('db, 'b, 'i) chain \<Rightarrow>
    ('db, 'b, 'i) chain go" where
  "add_block B enc hsh b ch =
     (if \<not> has_bucket B (Db ch) (BlockBucket ch) then Inl OsExit else put_block B enc hsh b ch)"

definition open_chain :: "'db bolt \<Rightarrow> 'db \<Rightarrow> ('db, 'b, 'i) chain \<Rightarrow> ('db, 'b, 'i) chain go" where
  "open_chain B db ch =
     (if \<not> has_bucket B db (BlockBucket ch) then Inl OsExit
      else Inr (ch\<lparr>Db := db, TailHash := bolt_get B db (BlockBucket ch) (LastHashKey ch)\<rparr>))"

record iterator =
  it_BlockBucket :: bytes
  CurrentHash :: bytes

definition create_iterator :: "('db, 'b, 'i) chain \<Rightarrow> iterator" where
  "create_iterator ch = \<lparr>it_BlockBucket = BlockBucket ch, CurrentHash = TailHash ch\<rparr>"

definition iterator_next :: "'db bolt \<Rightarrow> (bytes \<Rightarrow> 'b option) \<Rightarrow> ('b \<Rightarrow> bytes) \<Rightarrow> 'db \<Rightarrow> iterator \<Rightarrow>
    ('b \<times> iterator) go" where
  "iterator_next B dec prv db it =
     (if \<not> has_bucket B db (it_BlockBucket it) then Inl OsExit
      else case dec (bolt_get B db (it_BlockBucket it) (CurrentHash it)) of
             None \<Rightarrow> Inl LogPanic
           | Some b \<Rightarrow> Inr (b, it\<lparr>CurrentHash := prv b\<rparr>))"

definition get_block_by_hash :: "'db bolt \<Rightarrow> (bytes \<Rightarrow> 'b option) \<Rightarrow> ('db, 'b, 'i) chain \<Rightarrow> bytes \<Rightarrow> 'b go" where
  "get_block_by_hash B dec ch h =
     (if \<not> has_bucket B (Db ch) (BlockBucket ch) then Inl LogPanic
      else let v = bolt_get B (Db ch) (BlockBucket ch) h in
           if v = [] then Inl LogPanic
           else case dec v of None \<Rightarrow> Inl LogPanic | Some b \<Rightarrow> Inr b)"

section \<open>The contract of a block store\<close>

text \<open>
  \<open>rep c bs\<close>: the chain \<open>c\<close> holds the blocks \<open>bs\<close>, newest first. \<open>ok c b\<close>: \<open>b\<close> may be appended.
\<close>

locale block_store =
  fixes rep :: "'c \<Rightarrow> 'b list \<Rightarrow> bool"
    and ok :: "'c \<Rightarrow> 'b \<Rightarrow> bool"
    and add :: "'b \<Rightarrow> 'c \<Rightarrow> 'c go"
    and lookup :: "'c \<Rightarrow> bytes \<Rightarrow> 'b go"
    and tail :: "'c \<Rightarrow> bytes"
    and hsh :: "'b \<Rightarrow> bytes"
    and prv :: "'b \<Rightarrow> bytes"
  assumes add_rep: "rep c bs \<Longrightarrow> ok c b \<Longrightarrow> \<exists>c'. add b c = Inr c' \<and> rep c' (b # bs)"
    and lookup_mem: "rep c bs \<Longrightarrow> b \<in> set bs \<Longrightarrow> lookup c (hsh b) = Inr b"
    and tail_hd: "rep c (b # bs) \<Longrightarrow> tail c = hsh b"
    and linked: "rep c (xs @ b # b' # bs) \<Longrightarrow> prv b = hsh b'"
begin

lemma lookup_tail: "rep c (b # bs) \<Longrightarrow> lookup c (tail c) = Inr b"
  using lookup_mem [of c "b # bs" b] tail_hd [of c b bs] by simp

lemma lookup_parent: "rep c (xs @ b # b' # bs) \<Longrightarrow> lookup c (prv b) = Inr b'"
  using lookup_mem [of c "xs @ b # b' # bs" b'] linked [of c xs b b' bs] by simp

text \<open>Appending a list of blocks, each of which may be appended when its turn comes.\<close>

fun add_all :: "'b list \<Rightarrow> 'c \<Rightarrow> 'c go" where
  "add_all [] c = Inr c"
| "add_all (b # bs) c = bind_go (add b c) (add_all bs)"

lemma lookup_survives:
  "rep c bs \<Longrightarrow> ok c b \<Longrightarrow> add b c = Inr c' \<Longrightarrow> x \<in> insert b (set bs) \<Longrightarrow> lookup c' (hsh x) = Inr x"
  using add_rep [of c bs b] lookup_mem [of c' "b # bs" x] by auto

end

section \<open>The bolt chain provides it\<close>

definition genesis_mark :: bytes where
  "genesis_mark = ''welcome to 407''"

fun stored :: "'db bolt \<Rightarrow> (bytes \<Rightarrow> 'b option) \<Rightarrow> ('b \<Rightarrow> bytes) \<Rightarrow> ('b \<Rightarrow> bytes) \<Rightarrow> 'db \<Rightarrow> bytes \<Rightarrow> bytes \<Rightarrow>
    'b list \<Rightarrow> bool" where
  "stored B dec hsh prv db bk h [] \<longleftrightarrow> h = genesis_mark"
| "stored B dec hsh prv db bk h (b # bs) \<longleftrightarrow>
     bolt_get B db bk h \<noteq> [] \<and> dec (bolt_get B db bk h) = Some b \<and> hsh b = h
     \<and> stored B dec hsh prv db bk (prv b) bs"

text \<open>
  The invariant of an open chain: the bucket is there, the blocks are stored under their hashes
  and linked by their parent hashes down to the genesis marker, no two share a hash, none has
  the key of the tail hash as its hash, and that key holds the tail hash.
\<close>

definition chain_rep :: "'db bolt \<Rightarrow> (bytes \<Rightarrow> 'b option) \<Rightarrow> ('b \<Rightarrow> bytes) \<Rightarrow> ('b \<Rightarrow> bytes) \<Rightarrow>
    ('db, 'b, 'i) chain \<Rightarrow> 'b list \<Rightarrow> bool" where
  "chain_rep B dec hsh prv ch bs \<longleftrightarrow> bolt_laws B \<and> has_bucket B (Db ch) (BlockBucket ch) \<and> bs \<noteq> []
     \<and> stored B dec hsh prv (Db ch) (BlockBucket ch) (TailHash ch) bs
     \<and> distinct (map hsh bs) \<and> LastHashKey ch \<notin> hsh ` set bs
     \<and> bolt_get B (Db ch) (BlockBucket ch) (LastHashKey ch) = TailHash ch"

definition block_ok :: "('b \<Rightarrow> bytes) \<Rightarrow> (bytes \<Rightarrow> 'b option) \<Rightarrow> ('b \<Rightarrow> bytes) \<Rightarrow> ('b \<Rightarrow> bytes) \<Rightarrow>
    'db bolt \<Rightarrow> ('db, 'b, 'i) chain \<Rightarrow> 'b \<Rightarrow> bool" where
  "block_ok enc dec hsh prv B ch b \<longleftrightarrow> prv b = TailHash ch \<and> dec (enc b) = Some b \<and> enc b \<noteq> []
     \<and> storable (hsh b) (enc b) \<and> storable (LastHashKey ch) (hsh b) \<and> hsh b \<noteq> LastHashKey ch
     \<and> bolt_get B (Db ch) (BlockBucket ch) (hsh b) = []"

lemma stored_cong:
  "(\<And>b. b \<in> set bs \<Longrightarrow> bolt_get B db' bk (hsh b) = bolt_get B db bk (hsh b)) \<Longrightarrow>
   stored B dec hsh prv db bk h bs \<Longrightarrow> stored B dec hsh prv db' bk h bs"
proof (induction bs arbitrary: h)
  case Nil
  then show ?case by simp
next
  case (Cons b bs)
  have "hsh b = h" using Cons.prems(2) by simp
  moreover have "bolt_get B db' bk (hsh b) = bolt_get B db bk (hsh b)" using Cons.prems(1) by simp
  moreover have "stored B dec hsh prv db' bk (prv b) bs" using Cons by simp
  ultimately show ?case using Cons.prems(2) by simp
qed

lemma stored_mem:
  "stored B dec hsh prv db bk h bs \<Longrightarrow> b \<in> set bs \<Longrightarrow>
   bolt_get B db bk (hsh b) \<noteq> [] \<and> dec (bolt_get B db bk (hsh b)) = Some b"
  by (induction bs arbitrary: h) auto

lemma stored_linked: "stored B dec hsh prv db bk h (xs @ b # b' # bs) \<Longrightarrow> prv b = hsh b'"
  by (induction xs arbitrary: h) auto

lemma chain_rep_add:
  fixes ch :: "('db, 'b, 'i) chain"
  assumes rep: "chain_rep B dec hsh prv ch bs" and ok: "block_ok enc dec hsh prv B ch b"
  shows "\<exists>ch'. add_block B enc hsh b ch = Inr ch' \<and> chain_rep B dec hsh prv ch' (b # bs)
    \<and> BlockBucket ch' = BlockBucket ch \<and> LastHashKey ch' = LastHashKey ch \<and> TailHash ch' = hsh b"
proof -
  let ?bk = "BlockBucket ch" and ?k = "LastHashKey ch"
  have laws: "bolt_laws B" and has: "has_bucket B (Db ch) ?bk" using rep by (simp_all add: chain_rep_def)
  have s1: "storable (hsh b) (enc b)" and s2: "storable ?k (hsh b)" using ok by (simp_all add: block_ok_def)
  obtain db1 where db1: "bolt_put B (Db ch) ?bk (hsh b) (enc b) = Some db1"
    "has_bucket B db1 = has_bucket B (Db ch)"
    "bolt_get B db1 = (bolt_get B (Db ch))(?bk := (bolt_get B (Db ch) ?bk)(hsh b := enc b))"
    using bolt_put [OF laws has s1] .
  have has1: "has_bucket B db1 ?bk" using db1(2) has by simp
  obtain db2 where db2: "bolt_put B db1 ?bk ?k (hsh b) = Some db2" "has_bucket B db2 = has_bucket B db1"
    "bolt_get B db2 = (bolt_get B db1)(?bk := (bolt_get B db1 ?bk)(?k := hsh b))"
    using bolt_put [OF laws has1 s2] .
  let ?ch = "ch\<lparr>Db := db2, TailHash := hsh b\<rparr>"
  have run: "add_block B enc hsh b ch = Inr ?ch"
    using has db1(1) db2(1) by (simp add: add_block_def put_block_def)
  have st: "stored B dec hsh prv (Db ch) ?bk (TailHash ch) bs" using rep by (simp add: chain_rep_def)
  have fresh: "hsh x \<noteq> hsh b" if "x \<in> set bs" for x
    using stored_mem [OF st that] ok by (auto simp: block_ok_def)
  have nk: "hsh x \<noteq> ?k" if "x \<in> set bs" for x using rep that by (force simp: chain_rep_def)
  have "stored B dec hsh prv db2 ?bk (TailHash ch) bs"
    using fresh nk by (intro stored_cong [OF _ st]) (simp add: db1(3) db2(3))
  then have "stored B dec hsh prv db2 ?bk (hsh b) (b # bs)"
    using ok by (simp add: db1(3) db2(3) block_ok_def)
  moreover have "distinct (map hsh (b # bs))" using rep fresh by (force simp: chain_rep_def)
  moreover have "?k \<notin> hsh ` set (b # bs)" using ok rep by (auto simp: block_ok_def chain_rep_def)
  moreover have "bolt_get B db2 ?bk ?k = hsh b" by (simp add: db2(3))
  ultimately have "chain_rep B dec hsh prv ?ch (b # bs)"
    using laws has db1(2) db2(2) by (simp add: chain_rep_def)
  then show ?thesis using run by simp
qed

lemma chain_rep_lookup:
  assumes "chain_rep B dec hsh prv ch bs" and "b \<in> set bs"
  shows "get_block_by_hash B dec ch (hsh b) = Inr b"
  using assms stored_mem [of B dec hsh prv "Db ch" "BlockBucket ch" "TailHash ch" bs b]
  by (simp add: chain_rep_def get_block_by_hash_def Let_def)

interpretation bolt_chain: block_store "chain_rep B dec hsh prv" "block_ok enc dec hsh prv B"
    "add_block B enc hsh" "get_block_by_hash B dec" TailHash hsh prv
  for B :: "'db bolt" and enc :: "'b \<Rightarrow> bytes" and dec hsh prv
proof
  fix c :: "('db, 'b, 'i) chain" and bs b
  assume r: "chain_rep B dec hsh prv c bs" and o: "block_ok enc dec hsh prv B c b"
  show "\<exists>c'. add_block B enc hsh b c = Inr c' \<and> chain_rep B dec hsh prv c' (b # bs)"
    using chain_rep_add [OF r o] by auto
next
  fix c :: "('db, 'b, 'i) chain" and bs b
  assume "chain_rep B dec hsh prv c bs" and "b \<in> set bs"
  then show "get_block_by_hash B dec c (hsh b) = Inr b" by (rule chain_rep_lookup)
next
  fix c :: "('db, 'b, 'i) chain" and bs b
  assume "chain_rep B dec hsh prv c (b # bs)"
  then show "TailHash c = hsh b" by (simp add: chain_rep_def)
next
  fix c :: "('db, 'b, 'i) chain" and xs bs b b'
  assume "chain_rep B dec hsh prv c (xs @ b # b' # bs)"
  then show "prv b = hsh b'" by (auto simp: chain_rep_def dest: stored_linked)
qed

text \<open>Reopening the file finds the same blocks: the tail hash is read back from its key.\<close>

lemma chain_rep_reopen:
  assumes "chain_rep B dec hsh prv ch bs" and "BlockBucket ch' = BlockBucket ch"
    and "LastHashKey ch' = LastHashKey ch"
  shows "\<exists>ch''. open_chain B (Db ch) ch' = Inr ch'' \<and> chain_rep B dec hsh prv ch'' bs
    \<and> TailHash ch'' = TailHash ch"
  using assms by (auto simp: open_chain_def chain_rep_def)

section \<open>Walking the chain with the iterator\<close>

text \<open>\<open>n\<close> calls of \<open>Next\<close>: the blocks returned and the iterator left behind.\<close>

fun next_n :: "'db bolt \<Rightarrow> (bytes \<Rightarrow> 'b option) \<Rightarrow> ('b \<Rightarrow> bytes) \<Rightarrow> 'db \<Rightarrow> nat \<Rightarrow> iterator \<Rightarrow>
    ('b list \<times> iterator) go" where
  "next_n B dec prv db 0 it = Inr ([], it)"
| "next_n B dec prv db (Suc n) it = bind_go (iterator_next B dec prv db it) (\<lambda>(b, it').
     bind_go (next_n B dec prv db n it') (\<lambda>(bs, it''). Inr (b # bs, it'')))"

lemma iterator_next_stored:
  assumes "has_bucket B db bk" and "stored B dec hsh prv db bk h (b # bs)"
  shows "iterator_next B dec prv db \<lparr>it_BlockBucket = bk, CurrentHash = h\<rparr>
    = Inr (b, \<lparr>it_BlockBucket = bk, CurrentHash = prv b\<rparr>)"
  using assms by (simp add: iterator_next_def)

lemma next_n_stored:
  "has_bucket B db bk \<Longrightarrow> stored B dec hsh prv db bk h bs \<Longrightarrow>
   next_n B dec prv db (length bs) \<lparr>it_BlockBucket = bk, CurrentHash = h\<rparr>
     = Inr (bs, \<lparr>it_BlockBucket = bk, CurrentHash = genesis_mark\<rparr>)"
proof (induction bs arbitrary: h)
  case Nil
  then show ?case by simp
next
  case (Cons b bs)
  have "stored B dec hsh prv db bk (prv b) bs" using Cons.prems(2) by simp
  then show ?case using Cons.IH [OF Cons.prems(1)] iterator_next_stored [OF Cons.prems] by simp
qed

lemma chain_rep_next_n:
  assumes "chain_rep B dec hsh prv ch bs"
  shows "next_n B dec prv (Db ch) (length bs) (create_iterator ch)
     = Inr (bs, \<lparr>it_BlockBucket = BlockBucket ch, CurrentHash = genesis_mark\<rparr>)"
  using assms next_n_stored [of B "Db ch" "BlockBucket ch" dec hsh prv "TailHash ch" bs]
  by (simp add: chain_rep_def create_iterator_def)

section \<open>Adding and following\<close>

text \<open>Appending touches only the block's key and the key of the tail hash.\<close>

lemma add_block_other:
  assumes "add_block B enc hsh b ch = Inr ch'" and "bolt_laws B"
  shows "BlockBucket ch' = BlockBucket ch" and "LastHashKey ch' = LastHashKey ch" and "TailHash ch' = hsh b"
    and "has_bucket B (Db ch') = has_bucket B (Db ch)"
    and "h \<noteq> hsh b \<Longrightarrow> h \<noteq> LastHashKey ch \<Longrightarrow>
      bolt_get B (Db ch') (BlockBucket ch) h = bolt_get B (Db ch) (BlockBucket ch) h"
    and "m \<noteq> BlockBucket ch \<Longrightarrow> bolt_get B (Db ch') m = bolt_get B (Db ch) m"
proof -
  let ?bk = "BlockBucket ch"
  have has: "has_bucket B (Db ch) ?bk"
    using assms(1) by (auto simp: add_block_def split: if_splits)
  then obtain db1 db2 where db: "bolt_put B (Db ch) ?bk (hsh b) (enc b) = Some db1"
    "bolt_put B db1 ?bk (LastHashKey ch) (hsh b) = Some db2"
    "ch' = ch\<lparr>Db := db2, TailHash := hsh b\<rparr>"
    using assms(1) by (auto simp: add_block_def put_block_def split: option.splits)
  then show "BlockBucket ch' = BlockBucket ch" "LastHashKey ch' = LastHashKey ch" "TailHash ch' = hsh b"
    by simp_all
  note p1 = bolt_put_other [OF assms(2) has db(1)]
  have "has_bucket B db1 ?bk" using p1(2) has by simp
  note p2 = bolt_put_other [OF assms(2) this db(2)]
  show "has_bucket B (Db ch') = has_bucket B (Db ch)" using db(3) p1(2) p2(2) by simp
  show "bolt_get B (Db ch') ?bk h = bolt_get B (Db ch) ?bk h" if "h \<noteq> hsh b" "h \<noteq> LastHashKey ch"
    using that db(3) p1(1) p2(1) by simp
  show "bolt_get B (Db ch') m = bolt_get B (Db ch) m" if "m \<noteq> ?bk"
    using that db(3) p1(1) p2(1) by simp
qed

text \<open>Changes to other buckets of the file leave the chain as it is.\<close>

lemma chain_rep_other_buckets:
  assumes "chain_rep B dec hsh prv ch bs" and "has_bucket B db (BlockBucket ch)"
    and "bolt_get B db (BlockBucket ch) = bolt_get B (Db ch) (BlockBucket ch)"
  shows "chain_rep B dec hsh prv (ch\<lparr>Db := db\<rparr>) bs"
  using assms stored_cong [of bs B db "BlockBucket ch" hsh "Db ch" dec prv "TailHash ch"] by (simp add: chain_rep_def)

text \<open>Each block of the list (oldest first) follows the one before, the first one the hash \<open>h\<close>.\<close>

fun linked_up :: "('b \<Rightarrow> bytes) \<Rightarrow> ('b \<Rightarrow> bytes) \<Rightarrow> bytes \<Rightarrow> 'b list \<Rightarrow> bool" where
  "linked_up hsh prv h [] \<longleftrightarrow> True"
| "linked_up hsh prv h (b # bs) \<longleftrightarrow> prv b = h \<and> linked_up hsh prv (hsh b) bs"

lemma linked_up_snoc:
  "linked_up hsh prv h (bs @ [b]) \<longleftrightarrow> linked_up hsh prv h bs \<and> prv b = (if bs = [] then h else hsh (last bs))"
  by (induction bs arbitrary: h) auto

lemma stored_linked_up:
  "stored B dec hsh prv db bk t (news @ b # olds) \<Longrightarrow> linked_up hsh prv (hsh b) (rev news)"
proof (induction news arbitrary: t)
  case Nil
  then show ?case by simp
next
  case (Cons n news)
  have "linked_up hsh prv (hsh b) (rev news)"
    by (rule Cons.IH [of "prv n"]) (use Cons.prems in simp)
  moreover have "prv n = hsh (hd (news @ [b]))"
    using stored_linked [of B dec hsh prv db bk t "[]" n "hd (news @ [b])" "tl (news @ [b]) @ olds"] Cons.prems
    by (cases news) simp_all
  ultimately show ?case by (simp add: linked_up_snoc last_rev hd_append)
qed

text \<open>What a block that is to follow later needs: all of \<open>block_ok\<close> but its parent.\<close>

definition block_fits :: "('b \<Rightarrow> bytes) \<Rightarrow> (bytes \<Rightarrow> 'b option) \<Rightarrow> ('b \<Rightarrow> bytes) \<Rightarrow> 'db bolt \<Rightarrow> ('db, 'b, 'i) chain \<Rightarrow> 'b \<Rightarrow> bool" where
  "block_fits enc dec hsh B ch b \<longleftrightarrow> dec (enc b) = Some b \<and> enc b \<noteq> [] \<and> storable (hsh b) (enc b)
     \<and> storable (LastHashKey ch) (hsh b) \<and> hsh b \<noteq> LastHashKey ch \<and> bolt_get B (Db ch) (BlockBucket ch) (hsh b) = []"

lemma block_ok_fits: "block_ok enc dec hsh prv B ch b \<longleftrightarrow> prv b = TailHash ch \<and> block_fits enc dec hsh B ch b"
  by (simp add: block_ok_def block_fits_def)

lemma block_fits_after:
  assumes "block_fits enc dec hsh B ch x" and "add_block B enc hsh b ch = Inr ch'" and "bolt_laws B" and "hsh x \<noteq> hsh b"
  shows "block_fits enc dec hsh B ch' x"
  using assms(1,4) add_block_other(1,2) [OF assms(2,3)] add_block_other(5) [OF assms(2,3), of "hsh x"]
  by (simp add: block_fits_def)

end
