(* ===== verification/Data_Chain.thy ===== *)
theory Data_Chain
  imports Data_Block Chain_Store
begin

text \<open>
  The data chain: \<open>blockchain_data/blockchain.go\<close> and the look-ups of \<open>util.go\<close>, as instances of
  the shared chain code, with \<open>InitBlockChain\<close> for a missing and for an existing file and
  \<open>GetByRound\<close>.
\<close>

type_synonym 'db data_chain = "('db, block, uint64) chain"

definition new_data_chain :: "'db bolt \<Rightarrow> 'db data_chain" where
  "new_data_chain B = \<lparr>Db = empty_db B, TailHash = [], BlockBucket = ''blockBucket'',
     LastHashKey = ''lastHashKey'', LastID = 0, GenesisBlock = None\<rparr>"

definition genesis_tx :: transaction where
  "genesis_tx = zero_tx\<lparr>Table := ''sample table'', Key := ''sample key'', Value := ''sample value''\<rparr>"

definition AddBlockToChain :: "'db bolt \<Rightarrow> block codec \<Rightarrow> block \<Rightarrow> 'db data_chain \<Rightarrow> 'db data_chain go" where
  "AddBlockToChain B cd = add_block B (Serialize cd) CurrentBlockHash"

definition GetBlockByHash :: "'db bolt \<Rightarrow> block codec \<Rightarrow> 'db data_chain \<Rightarrow> bytes \<Rightarrow> block go" where
  "GetBlockByHash B cd = get_block_by_hash B (decode cd)"

definition CreateIterator :: "'db data_chain \<Rightarrow> iterator" where
  "CreateIterator = create_iterator"

definition Next :: "'db bolt \<Rightarrow> block codec \<Rightarrow> 'db \<Rightarrow> iterator \<Rightarrow> (block \<times> iterator) go" where
  "Next B cd = iterator_next B (decode cd) PreviousBlockHash"

text \<open>
  \<open>existing\<close> is the content of the file \<open>dataBlockChain.db\<close> if there is one. Without it the chain
  is created with a genesis block; \<open>LastID\<close> is 1 then, and 0 after loading an existing file.
\<close>

definition InitBlockChain :: "'db bolt \<Rightarrow> crypto \<Rightarrow> block codec \<Rightarrow> 'db option \<Rightarrow> 'db data_chain go" where
  "InitBlockChain B cr cd existing =
     (let ch = new_data_chain B in
      case existing of
        None \<Rightarrow>
          (case create_bucket B (Db ch) (BlockBucket ch) of
             None \<Rightarrow> Inl LogPanic
           | Some db \<Rightarrow>
               bind_go (InitGenesisBlock cr cd [genesis_tx] genesis_parent (LastID ch) NewBlock)
                 (\<lambda>g. put_block B (Serialize cd) CurrentBlockHash g
                        (ch\<lparr>Db := db, GenesisBlock := Some g, LastID := LastID ch + 1\<rparr>)))
      | Some db \<Rightarrow> open_chain B db ch)"

text \<open>
  The loop of \<open>GetByRound\<close>. It may not end (a chain of blocks that point at each other), which is
  the outer \<open>None\<close>; \<open>Inr None\<close> is the nil block.
\<close>

partial_function (option) get_by_round_loop ::
  "'db bolt \<Rightarrow> block codec \<Rightarrow> 'db data_chain \<Rightarrow> uint64 \<Rightarrow> block \<Rightarrow> block option go option" where
  "get_by_round_loop B cd ch round block =
     (if Round block = round then Some (Inr (Some block))
      else case GetBlockByHash B cd ch (PreviousBlockHash block) of
             Inl p \<Rightarrow> Some (Inl p)
           | Inr block1 \<Rightarrow>
               if Round block1 = 1 then Some (Inr None) else get_by_round_loop B cd ch round block1)"

definition GetByRound :: "'db bolt \<Rightarrow> block codec \<Rightarrow> 'db data_chain \<Rightarrow> uint64 \<Rightarrow> block option go option" where
  "GetByRound B cd ch round =
     (case GetBlockByHash B cd ch (TailHash ch) of
        Inl p \<Rightarrow> Some (Inl p)
      | Inr lastBlock \<Rightarrow>
          if Round lastBlock < round then Some (Inr None)
          else get_by_round_loop B cd ch round lastBlock)"

section \<open>The chain invariant\<close>

definition data_rep :: "'db bolt \<Rightarrow> block codec \<Rightarrow> 'db data_chain \<Rightarrow> block list \<Rightarrow> bool" where
  "data_rep B cd = chain_rep B (decode cd) CurrentBlockHash PreviousBlockHash"

definition data_ok :: "'db bolt \<Rightarrow> block codec \<Rightarrow> 'db data_chain \<Rightarrow> block \<Rightarrow> bool" where
  "data_ok B cd = block_ok (encode cd) (decode cd) CurrentBlockHash PreviousBlockHash B"

lemma Serialize_eq [simp]: "Serialize cd = encode cd"
  by (rule ext) (simp add: Serialize_def)

lemmas data_api_defs = AddBlockToChain_def GetBlockByHash_def CreateIterator_def Next_def
  data_rep_def data_ok_def Serialize_eq

interpretation data_store: block_store "data_rep B cd" "data_ok B cd" "AddBlockToChain B cd"
    "GetBlockByHash B cd" TailHash CurrentBlockHash PreviousBlockHash
  for B :: "'db bolt" and cd :: "block codec"
  unfolding data_api_defs by (rule bolt_chain.block_store_axioms)

text \<open>
  C11. Appending to the data chain: in an open chain, a block that continues it, serializes and has
  a new hash is added without an error; afterwards the chain holds it and every earlier block
  under their hashes, the iterator returns them newest first and stops at the genesis marker, and
  reopening the file gives a chain with the same blocks.
\<close>

theorem add_block_to_chain:
  assumes "data_rep B cd ch bs" and "data_ok B cd ch b"
  shows "\<exists>ch'. AddBlockToChain B cd b ch = Inr ch' \<and> data_rep B cd ch' (b # bs) \<and> TailHash ch' = CurrentBlockHash b
    \<and> (\<forall>x \<in> set (b # bs). GetBlockByHash B cd ch' (CurrentBlockHash x) = Inr x)
    \<and> map_sum id fst (next_n B (decode cd) PreviousBlockHash (Db ch') (length (b # bs)) (CreateIterator ch'))
        = Inr (b # bs)
    \<and> (\<exists>ch''. BlockBucket ch = ''blockBucket'' \<longrightarrow> LastHashKey ch = ''lastHashKey'' \<longrightarrow>
         InitBlockChain B cr cd (Some (Db ch')) = Inr ch'' \<and> data_rep B cd ch'' (b # bs))"
proof -
  obtain ch' where ch': "AddBlockToChain B cd b ch = Inr ch'" "data_rep B cd ch' (b # bs)"
    "BlockBucket ch' = BlockBucket ch" "LastHashKey ch' = LastHashKey ch" "TailHash ch' = CurrentBlockHash b"
    using chain_rep_add [OF assms [unfolded data_api_defs]] by (auto simp: data_api_defs)
  have "\<forall>x \<in> set (b # bs). GetBlockByHash B cd ch' (CurrentBlockHash x) = Inr x"
    using data_store.lookup_mem [OF ch'(2)] by blast
  moreover have "map_sum id fst (next_n B (decode cd) PreviousBlockHash (Db ch') (length (b # bs))
      (CreateIterator ch')) = Inr (b # bs)"
    using chain_rep_next_n [OF ch'(2) [unfolded data_rep_def]] by (simp add: CreateIterator_def del: next_n.simps)
  moreover have "\<exists>ch''. InitBlockChain B cr cd (Some (Db ch')) = Inr ch'' \<and> data_rep B cd ch'' (b # bs)"
    if "BlockBucket ch = ''blockBucket''" "LastHashKey ch = ''lastHashKey''"
    using chain_rep_reopen [OF ch'(2) [unfolded data_rep_def], of "new_data_chain B"] that ch'(3,4)
    by (auto simp: InitBlockChain_def new_data_chain_def data_rep_def Let_def)
  ultimately show ?thesis using ch' by blast
qed

text \<open>A codec that knows a given list of blocks and a chain of three, for the witnesses.\<close>

definition toy_codec :: "block list \<Rightarrow> block codec" where
  "toy_codec bs = \<lparr>encode = CurrentBlockHash, decode = (\<lambda>v. find (\<lambda>b. CurrentBlockHash b = v) bs)\<rparr>"

definition toy_block :: "uint64 \<Rightarrow> bytes \<Rightarrow> bytes \<Rightarrow> block" where
  "toy_block r h p = NewBlock\<lparr>Round := r, CurrentBlockHash := h, PreviousBlockHash := p\<rparr>"

definition toy_blocks :: "block list" where
  "toy_blocks = [toy_block 3 ''d'' ''c'', toy_block 2 ''c'' ''b'', toy_block 1 ''b'' ''a'', toy_block 0 ''a'' genesis_mark]"

definition toy_db :: mapdb where
  "toy_db = [''blockBucket'' \<mapsto> [''a'' \<mapsto> ''a'', ''b'' \<mapsto> ''b'', ''c'' \<mapsto> ''c'', ''lastHashKey'' \<mapsto> ''c'']]"

definition toy_chain :: "mapdb data_chain" where
  "toy_chain = (new_data_chain map_bolt)\<lparr>TailHash := ''c'', Db := toy_db\<rparr>"

lemma toy_get: "bolt_get map_bolt toy_db ''blockBucket'' h =
    (if h = ''lastHashKey'' then ''c'' else if h \<in> {''a'', ''b'', ''c''} then h else [])"
  by (simp add: toy_db_def map_bolt_def)

lemma toy_has: "has_bucket map_bolt toy_db b \<longleftrightarrow> b = ''blockBucket''"
  by (simp add: toy_db_def map_bolt_def)

lemma toy_fields [simp]: "Db toy_chain = toy_db" "TailHash toy_chain = ''c''"
  "BlockBucket toy_chain = ''blockBucket''" "LastHashKey toy_chain = ''lastHashKey''"
  by (simp_all add: toy_chain_def new_data_chain_def)

lemma toy_block_fields [simp]: "Round (toy_block r h p) = r" "CurrentBlockHash (toy_block r h p) = h"
  "PreviousBlockHash (toy_block r h p) = p" "Transactions (toy_block r h p) = []"
  by (simp_all add: toy_block_def NewBlock_def)

lemma toy_codec_simps [simp]: "encode (toy_codec bs) = CurrentBlockHash"
  "decode (toy_codec bs) v = find (\<lambda>b. CurrentBlockHash b = v) bs"
  by (simp_all add: toy_codec_def)

lemma toy_chain_rep: "data_rep map_bolt (toy_codec toy_blocks) toy_chain (tl toy_blocks)"
  unfolding data_rep_def chain_rep_def
  by (simp add: map_bolt_laws toy_get toy_has toy_blocks_def genesis_mark_def)

lemma toy_chain_ok: "data_ok map_bolt (toy_codec toy_blocks) toy_chain (hd toy_blocks)"
  unfolding data_ok_def block_ok_def by (simp add: toy_get toy_blocks_def storable_def)

theorem add_block_to_chain_witness:
  "\<exists>ch'. AddBlockToChain map_bolt (toy_codec toy_blocks) (hd toy_blocks) toy_chain = Inr ch'
     \<and> data_rep map_bolt (toy_codec toy_blocks) ch' toy_blocks"
proof -
  have "toy_blocks = hd toy_blocks # tl toy_blocks" by (simp add: toy_blocks_def)
  then show ?thesis using add_block_to_chain [OF toy_chain_rep toy_chain_ok, of toy_crypto] by metis
qed

section \<open>Look-up by round\<close>

text \<open>The chain's rounds count down to 0 from the tail.\<close>

definition rounds_ok :: "block list \<Rightarrow> bool" where
  "rounds_ok bs \<longleftrightarrow> length bs < 2 ^ 64 \<and> (\<forall>i < length bs. unat (Round (bs ! i)) = length bs - Suc i)"

lemma get_by_round_loop_eq:
  assumes rep: "data_rep B cd ch bs" and rounds: "rounds_ok bs"
  shows "i < length bs \<Longrightarrow> m = length bs - Suc i \<Longrightarrow> unat round \<le> m \<Longrightarrow>
    get_by_round_loop B cd ch round (bs ! i) =
      Some (Inr (if unat round = m \<or> 2 \<le> unat round \<or> m \<le> 1 then Some (bs ! (length bs - Suc (unat round)))
                 else None))"
proof (induction m arbitrary: i)
  case 0
  have "length bs = Suc i" using 0 by simp
  have "unat (Round (bs ! i)) = unat round" using 0 rounds by (simp add: rounds_ok_def)
  then have "Round (bs ! i) = round" by (rule word_unat_eq_iff [THEN iffD2])
  then show ?case using 0 \<open>length bs = Suc i\<close> by (simp add: get_by_round_loop.simps [of B cd ch round])
next
  case (Suc m)
  have ri: "unat (Round (bs ! i)) = Suc m" using rounds Suc.prems by (simp add: rounds_ok_def)
  have si: "Suc i < length bs" using Suc.prems by linarith
  then have rs: "unat (Round (bs ! Suc i)) = m" using rounds Suc.prems by (simp add: rounds_ok_def)
  have split: "bs = take i bs @ bs ! i # bs ! Suc i # drop (Suc (Suc i)) bs"
    using si by (metis Cons_nth_drop_Suc Suc_lessD append_take_drop_id)
  have look: "GetBlockByHash B cd ch (PreviousBlockHash (bs ! i)) = Inr (bs ! Suc i)"
    using data_store.lookup_parent [of B cd ch "take i bs" "bs ! i" "bs ! Suc i"] rep split by metis
  show ?case
  proof (cases "unat round = Suc m")
    case True
    then have "Round (bs ! i) = round" using ri by (metis word_unat_eq_iff)
    then show ?thesis using True Suc.prems by (simp add: get_by_round_loop.simps [of B cd ch round])
  next
    case False
    then have ne: "Round (bs ! i) \<noteq> round" using ri by auto
    have one: "Round (bs ! Suc i) = 1 \<longleftrightarrow> m = 1" using rs by (metis unat_1 word_unat_eq_iff)
    show ?thesis
    proof (cases "m = 1")
      case True
      then show ?thesis using ne one look False Suc.prems
        by (simp add: get_by_round_loop.simps [of B cd ch round "bs ! i"])
    next
      case m: False
      have "get_by_round_loop B cd ch round (bs ! Suc i) =
        Some (Inr (if unat round = m \<or> 2 \<le> unat round \<or> m \<le> 1
          then Some (bs ! (length bs - Suc (unat round))) else None))"
        by (rule Suc.IH [OF si]) (use Suc.prems False in linarith)+
      then show ?thesis using ne one look False m Suc.prems
        by (auto simp: get_by_round_loop.simps [of B cd ch round "bs ! i"])
    qed
  qed
qed

lemma GetByRound_eq:
  assumes "data_rep B cd ch bs" and "rounds_ok bs"
  shows "GetByRound B cd ch round = Some (Inr (
    let n = length bs - 1; r = unat round in
    if n < r then None
    else if r = n \<or> 2 \<le> r \<or> n \<le> 1 then Some (bs ! (n - r)) else None))"
proof -
  have ne: "bs \<noteq> []" using assms(1) by (simp add: data_rep_def chain_rep_def)
  then have "bs = bs ! 0 # tl bs" by (cases bs) simp_all
  then have tail: "GetBlockByHash B cd ch (TailHash ch) = Inr (bs ! 0)"
    using data_store.lookup_tail assms(1) by metis
  have r0: "unat (Round (bs ! 0)) = length bs - 1" using assms(2) ne by (simp add: rounds_ok_def)
  show ?thesis
  proof (cases "length bs - 1 < unat round")
    case True
    then have "Round (bs ! 0) < round" using r0 by (simp add: word_less_nat_alt)
    then show ?thesis using True tail by (simp add: GetByRound_def Let_def)
  next
    case False
    then have "\<not> Round (bs ! 0) < round" using r0 by (simp add: word_less_nat_alt)
    moreover have "length bs - Suc (unat round) = length bs - 1 - unat round" by simp
    ultimately show ?thesis using False tail get_by_round_loop_eq [OF assms, of 0 "length bs - 1" round] ne
      by (auto simp: GetByRound_def Let_def)
  qed
qed

text \<open>
  C29. \<open>GetByRound\<close> on a chain with the rounds \<open>n\<close> down to 0 always returns: nil for a round above
  the tail's, the block of that round if it is the tail's or at least 2, and nil for the rounds
  0 and 1 as soon as the tail is above 1, although the chain holds both blocks (the loop stops
  when it reaches round 1, before it compares).
\<close>

theorem get_by_round:
  assumes "data_rep B cd ch bs" and "rounds_ok bs"
  shows "GetByRound B cd ch round = Some (Inr (
    let n = length bs - 1; r = unat round in
    if n < r then None
    else if r = n \<or> 2 \<le> r \<or> n \<le> 1 then Some (bs ! (n - r)) else None))"
  using assms by (rule GetByRound_eq)

theorem get_by_round_witness:
  "GetByRound map_bolt (toy_codec toy_blocks) toy_chain 1 = Some (Inr None)
   \<and> GetByRound map_bolt (toy_codec toy_blocks) toy_chain 2 = Some (Inr (Some (toy_block 2 ''c'' ''b'')))"
proof -
  have r: "rounds_ok (tl toy_blocks)"
    by (auto simp: rounds_ok_def toy_blocks_def less_Suc_eq numeral_3_eq_3)
  note g = get_by_round [OF toy_chain_rep r]
  show ?thesis using g [of 1] g [of 2] by (simp add: toy_blocks_def Let_def)
qed

section \<open>A new chain\<close>

definition genesis_block :: "crypto \<Rightarrow> block codec \<Rightarrow> block" where
  "genesis_block cr cd = SetBlockHash cr cd (NewBlock\<lparr>PreviousBlockHash := genesis_parent,
     Transactions := [genesis_tx], MerKelRoot := merkle_root_digest (md5 cr) [transactionsToBytes genesis_tx],
     BTimeStamp := 1234567800\<rparr>)"

lemma InitGenesisBlock_eq:
  "InitGenesisBlock cr cd [genesis_tx] genesis_parent 0 NewBlock = Inr (genesis_block cr cd)"
  using GetMerkleRoot_digest [of "[transactionsToBytes genesis_tx]" "md5 cr"]
  by (auto simp: InitGenesisBlock_def genesis_block_def NewBlock_def)

text \<open>
  A node without a chain file starts with the chain of the genesis block alone: the file is
  created, the block is found by its hash, its round is 0 and \<open>LastID\<close> is 1. The genesis block is
  the same on every node, because its time stamp is a constant.
\<close>

theorem init_block_chain_new:
  assumes "bolt_laws B" and "decode cd (encode cd (genesis_block cr cd)) = Some (genesis_block cr cd)"
    and "storable (CurrentBlockHash (genesis_block cr cd)) (encode cd (genesis_block cr cd))"
    and "encode cd (genesis_block cr cd) \<noteq> []"
    and "CurrentBlockHash (genesis_block cr cd) \<noteq> ''lastHashKey''"
  shows "\<exists>ch. InitBlockChain B cr cd None = Inr ch \<and> data_rep B cd ch [genesis_block cr cd]
    \<and> LastID ch = 1 \<and> GenesisBlock ch = Some (genesis_block cr cd)
    \<and> GetByRound B cd ch 0 = Some (Inr (Some (genesis_block cr cd)))"
proof -
  let ?g = "genesis_block cr cd" and ?ch = "new_data_chain B"
  have nb: "\<not> has_bucket B (Db ?ch) ''blockBucket''"
    using bolt_empty [OF assms(1)] by (simp add: new_data_chain_def)
  obtain db where db: "create_bucket B (Db ?ch) ''blockBucket'' = Some db"
    "has_bucket B db = (\<lambda>c. c = ''blockBucket'' \<or> has_bucket B (Db ?ch) c)"
    "bolt_get B db = (bolt_get B (Db ?ch))(''blockBucket'' := (\<lambda>_. []))"
    using bolt_create [OF assms(1) nb] by auto
  have h1: "has_bucket B db ''blockBucket''" by (simp add: db(2))
  obtain db1 where db1: "bolt_put B db ''blockBucket'' (CurrentBlockHash ?g) (encode cd ?g) = Some db1"
    "has_bucket B db1 = has_bucket B db"
    "bolt_get B db1 = (bolt_get B db)(''blockBucket'' := (bolt_get B db ''blockBucket'')(CurrentBlockHash ?g := encode cd ?g))"
    using bolt_put [OF assms(1) h1 assms(3)] .
  have h2: "has_bucket B db1 ''blockBucket''" using db1(2) h1 by simp
  have "storable ''lastHashKey'' (CurrentBlockHash ?g)" using assms(3) by (simp add: storable_def)
  then obtain db2 where db2: "bolt_put B db1 ''blockBucket'' ''lastHashKey'' (CurrentBlockHash ?g) = Some db2"
    "has_bucket B db2 = has_bucket B db1"
    "bolt_get B db2 = (bolt_get B db1)(''blockBucket'' := (bolt_get B db1 ''blockBucket'')(''lastHashKey'' := CurrentBlockHash ?g))"
    using bolt_put [OF assms(1) h2] by blast
  let ?c = "?ch\<lparr>Db := db2, GenesisBlock := Some ?g, LastID := 1, TailHash := CurrentBlockHash ?g\<rparr>"
  have run: "InitBlockChain B cr cd None = Inr ?c"
    using db(1) db1(1) db2(1) InitGenesisBlock_eq [of cr cd]
    by (simp add: InitBlockChain_def put_block_def new_data_chain_def)
  have p: "PreviousBlockHash ?g = genesis_mark" and r: "Round ?g = 0"
    by (simp_all add: genesis_block_def SetBlockHash_def genesis_parent_def genesis_mark_def NewBlock_def)
  have bk: "BlockBucket ?ch = ''blockBucket''" "LastHashKey ?ch = ''lastHashKey''"
    by (simp_all add: new_data_chain_def)
  have g2: "bolt_get B db2 ''blockBucket'' (CurrentBlockHash ?g) = encode cd ?g"
    "bolt_get B db2 ''blockBucket'' ''lastHashKey'' = CurrentBlockHash ?g"
    using assms(5) by (simp_all add: db2(3) db1(3))
  have h3: "has_bucket B db2 ''blockBucket''" using h2 db2(2) by simp
  have rep: "data_rep B cd ?c [?g]"
    unfolding data_rep_def chain_rep_def using assms h3 g2 p bk by auto
  have "rounds_ok [?g]" using r by (simp add: rounds_ok_def)
  from GetByRound_eq [OF rep this, of 0] have "GetByRound B cd ?c 0 = Some (Inr (Some ?g))" by simp
  then show ?thesis using run rep by auto
qed

theorem init_block_chain_new_witness:
  "\<exists>cd ch. InitBlockChain map_bolt toy_crypto cd None = Inr ch \<and> LastID ch = 1"
proof -
  let ?g = "genesis_block toy_crypto \<lparr>encode = (\<lambda>_. ''x''), decode = (\<lambda>_. None)\<rparr>"
  let ?cd = "\<lparr>encode = (\<lambda>_. ''x''), decode = (\<lambda>_. Some ?g)\<rparr>"
  have g: "genesis_block toy_crypto ?cd = ?g" by (simp add: genesis_block_def SetBlockHash_def)
  have l: "length (CurrentBlockHash ?g) = 32"
    by (simp add: genesis_block_def SetBlockHash_def toy_crypto_def)
  then have n: "CurrentBlockHash ?g \<noteq> ''lastHashKey''" "CurrentBlockHash ?g \<noteq> []" by auto
  have "\<exists>ch. InitBlockChain map_bolt toy_crypto ?cd None = Inr ch
    \<and> data_rep map_bolt ?cd ch [genesis_block toy_crypto ?cd] \<and> LastID ch = 1
    \<and> GenesisBlock ch = Some (genesis_block toy_crypto ?cd)
    \<and> GetByRound map_bolt ?cd ch 0 = Some (Inr (Some (genesis_block toy_crypto ?cd)))"
  proof (rule init_block_chain_new)
    show "bolt_laws map_bolt" by (rule map_bolt_laws)
    show "decode ?cd (encode ?cd (genesis_block toy_crypto ?cd)) = Some (genesis_block toy_crypto ?cd)"
      unfolding g by simp
    show "storable (CurrentBlockHash (genesis_block toy_crypto ?cd)) (encode ?cd (genesis_block toy_crypto ?cd))"
      unfolding g storable_def using l n by simp
    show "encode ?cd (genesis_block toy_crypto ?cd) \<noteq> []" by simp
    show "CurrentBlockHash (genesis_block toy_crypto ?cd) \<noteq> ''lastHashKey''" unfolding g by (rule n)
  qed
  then show ?thesis by blast
qed

end
