(* ===== verification/Table_Chain.thy ===== *)
theory Table_Chain
  imports Data_Chain
begin

text \<open>
  The table chain, \<open>blockchain/blockchain_table\<close>: transactions that create a shared table or change
  its permissions, their blocks, and the chain, again as an instance of the shared chain code.
  Fields that \<open>Data_Block\<close> has under the same name start with \<open>t\<close> here.
\<close>

section \<open>Transactions\<close>

record table_tx =
  tTxID :: bytes
  tTable :: string
  PermissionTable :: "string list"
  tPossessor :: string
  tTimeStamp :: int
  tPublicKey :: bytes
  tSignature :: bytes

definition zero_table_tx :: table_tx where
  "zero_table_tx = \<lparr>tTxID = [], tTable = [], PermissionTable = [], tPossessor = [], tTimeStamp = 0,
     tPublicKey = [], tSignature = []\<rparr>"

definition table_tx_bytes :: "table_tx \<Rightarrow> bytes" where
  "table_tx_bytes tx =
     tTxID tx @ tTable tx @ concat (PermissionTable tx) @ tPossessor tx
     @ projr (Int64ToBytes (tTimeStamp tx)) @ tPublicKey tx @ tSignature tx"

definition table_SetTxID :: "crypto \<Rightarrow> table_tx \<Rightarrow> table_tx" where
  "table_SetTxID cr tx = tx\<lparr>tTxID := sha256 cr (gob_slice cr (table_tx_bytes tx))\<rparr>"

definition table_Sign :: "crypto \<Rightarrow> bytes \<Rightarrow> nat \<Rightarrow> table_tx \<Rightarrow> table_tx go" where
  "table_Sign cr rnd privateKey tx =
     (case ecdsa_sign cr rnd privateKey (tTxID tx) of
        None \<Rightarrow> Inl LogPanic
      | Some sig \<Rightarrow> Inr (tx\<lparr>tSignature := sig\<rparr>))"

definition table_tx_Init :: "crypto \<Rightarrow> bytes \<Rightarrow> int \<Rightarrow> string \<Rightarrow> string list \<Rightarrow> string \<Rightarrow> bytes \<Rightarrow> nat \<Rightarrow>
    table_tx \<Rightarrow> table_tx go" where
  "table_tx_Init cr rnd now table permissionTable possessor publicKey privateKey tx =
     table_Sign cr rnd privateKey (table_SetTxID cr
       (tx\<lparr>tTable := table, PermissionTable := permissionTable, tPossessor := possessor,
           tTimeStamp := now, tPublicKey := publicKey\<rparr>))"

definition table_VerifyTransaction :: "crypto \<Rightarrow> table_tx \<Rightarrow> bool" where
  "table_VerifyTransaction cr tx =
     (let (x, y) = restore_key (tPublicKey tx);
          tx' = table_SetTxID cr (tx\<lparr>tSignature := [], tTxID := []\<rparr>)
      in ecdsa_verify cr x y (tTxID tx') (tSignature tx))"

section \<open>Blocks\<close>

record table_block =
  tID :: int
  tCurrentBlockHash :: bytes
  tPreviousBlockHash :: bytes
  tMerKelRoot :: bytes
  tTransactions :: "table_tx list"
  tBTimeStamp :: uint64

definition table_NewBlock :: table_block where
  "table_NewBlock = \<lparr>tID = 0, tCurrentBlockHash = [], tPreviousBlockHash = [], tMerKelRoot = [],
     tTransactions = [], tBTimeStamp = 0\<rparr>"

definition table_SetBlockHash :: "crypto \<Rightarrow> table_block codec \<Rightarrow> table_block \<Rightarrow> table_block" where
  "table_SetBlockHash cr cd b = b\<lparr>tCurrentBlockHash := sha256 cr (encode cd b)\<rparr>"

definition table_Serialize :: "table_block codec \<Rightarrow> table_block \<Rightarrow> bytes" where
  "table_Serialize cd b = encode cd b"

definition table_Deserialize :: "table_block codec \<Rightarrow> bytes \<Rightarrow> table_block go" where
  "table_Deserialize cd data = (case decode cd data of None \<Rightarrow> Inl LogPanic | Some b \<Rightarrow> Inr b)"

definition table_IsGenesisBlock :: "table_block \<Rightarrow> bool" where
  "table_IsGenesisBlock b \<longleftrightarrow> tPreviousBlockHash b = []"

definition table_InitBlock_at :: "uint64 \<Rightarrow> crypto \<Rightarrow> table_block codec \<Rightarrow> table_tx list \<Rightarrow> bytes \<Rightarrow> int \<Rightarrow>
    table_block \<Rightarrow> table_block go" where
  "table_InitBlock_at now cr cd txs previousBlockHash ID b =
     bind_go (GetMerkleRoot (md5 cr) (map table_tx_bytes txs)) (\<lambda>t.
       Inr (table_SetBlockHash cr cd (b\<lparr>tID := ID, tPreviousBlockHash := previousBlockHash,
         tTransactions := txs, tMerKelRoot := mt_Hash t, tBTimeStamp := now\<rparr>)))"

definition table_InitBlock :: "uint64 \<Rightarrow> crypto \<Rightarrow> table_block codec \<Rightarrow> table_tx list \<Rightarrow> bytes \<Rightarrow> int \<Rightarrow>
    table_block \<Rightarrow> table_block go" where
  "table_InitBlock now = table_InitBlock_at now"

definition table_InitGenesisBlock :: "crypto \<Rightarrow> table_block codec \<Rightarrow> table_tx list \<Rightarrow> bytes \<Rightarrow> int \<Rightarrow>
    table_block \<Rightarrow> table_block go" where
  "table_InitGenesisBlock = table_InitBlock_at 1234567801"

definition CheckTableBlock :: "crypto \<Rightarrow> table_block \<Rightarrow> bool go" where
  "CheckTableBlock cr b =
     (if tPreviousBlockHash b = genesis_parent then Inr True
      else if \<exists>tx \<in> set (tTransactions b). \<not> table_VerifyTransaction cr tx then Inr False
      else bind_go (GetMerkleRoot (md5 cr) (map table_tx_bytes (tTransactions b))) (\<lambda>t.
             if mt_Hash t \<noteq> tMerKelRoot b then Inl LogPanic else Inr True))"

section \<open>The chain\<close>

type_synonym 'db table_chain = "('db, table_block, int) chain"

definition new_table_chain :: "'db bolt \<Rightarrow> 'db table_chain" where
  "new_table_chain B = \<lparr>Db = empty_db B, TailHash = [], BlockBucket = ''blockBucket'',
     LastHashKey = ''lastHashKey'', LastID = 1, GenesisBlock = None\<rparr>"

definition table_AddBlockToChain :: "'db bolt \<Rightarrow> table_block codec \<Rightarrow> table_block \<Rightarrow> 'db table_chain \<Rightarrow>
    'db table_chain go" where
  "table_AddBlockToChain B cd = add_block B (table_Serialize cd) tCurrentBlockHash"

definition table_GetBlockByHash :: "'db bolt \<Rightarrow> table_block codec \<Rightarrow> 'db table_chain \<Rightarrow> bytes \<Rightarrow> table_block go" where
  "table_GetBlockByHash B cd = get_block_by_hash B (decode cd)"

definition table_CreateIterator :: "'db table_chain \<Rightarrow> iterator" where
  "table_CreateIterator = create_iterator"

definition table_Next :: "'db bolt \<Rightarrow> table_block codec \<Rightarrow> 'db \<Rightarrow> iterator \<Rightarrow> (table_block \<times> iterator) go" where
  "table_Next B cd = iterator_next B (decode cd) tPreviousBlockHash"

definition table_InitBlockChain :: "'db bolt \<Rightarrow> crypto \<Rightarrow> table_block codec \<Rightarrow> 'db option \<Rightarrow>
    'db table_chain go" where
  "table_InitBlockChain B cr cd existing =
     (let ch = new_table_chain B in
      case existing of
        None \<Rightarrow>
          (case create_bucket B (Db ch) (BlockBucket ch) of
             None \<Rightarrow> Inl LogPanic
           | Some db \<Rightarrow>
               bind_go (table_InitGenesisBlock cr cd [zero_table_tx\<lparr>tTable := ''sample table''\<rparr>]
                          genesis_parent (LastID ch) table_NewBlock)
                 (\<lambda>g. put_block B (table_Serialize cd) tCurrentBlockHash g
                        (ch\<lparr>Db := db, LastID := LastID ch + 1\<rparr>)))
      | Some db \<Rightarrow> open_chain B db ch)"

definition table_rep :: "'db bolt \<Rightarrow> table_block codec \<Rightarrow> 'db table_chain \<Rightarrow> table_block list \<Rightarrow> bool" where
  "table_rep B cd = chain_rep B (decode cd) tCurrentBlockHash tPreviousBlockHash"

definition table_ok :: "'db bolt \<Rightarrow> table_block codec \<Rightarrow> 'db table_chain \<Rightarrow> table_block \<Rightarrow> bool" where
  "table_ok B cd = block_ok (encode cd) (decode cd) tCurrentBlockHash tPreviousBlockHash B"

lemma table_Serialize_eq [simp]: "table_Serialize cd = encode cd"
  by (rule ext) (simp add: table_Serialize_def)

lemmas table_api_defs = table_AddBlockToChain_def table_GetBlockByHash_def table_CreateIterator_def
  table_Next_def table_rep_def table_ok_def table_Serialize_eq

interpretation table_store: block_store "table_rep B cd" "table_ok B cd" "table_AddBlockToChain B cd"
    "table_GetBlockByHash B cd" TailHash tCurrentBlockHash tPreviousBlockHash
  for B :: "'db bolt" and cd :: "table_block codec"
  unfolding table_api_defs by (rule bolt_chain.block_store_axioms)

section \<open>Properties\<close>

lemma table_VerifyTransaction_unfold:
  "table_VerifyTransaction cr tx = ecdsa_verify cr (fst (restore_key (tPublicKey tx)))
     (snd (restore_key (tPublicKey tx)))
     (sha256 cr (gob_slice cr (table_tx_bytes (tx\<lparr>tSignature := [], tTxID := []\<rparr>)))) (tSignature tx)"
  by (simp add: table_VerifyTransaction_def table_SetTxID_def split_beta)

lemma table_tx_Init_fields:
  assumes "table_tx_Init cr rnd now table perms pos pub priv zero_table_tx = Inr tx"
  shows "tTable tx = table" and "PermissionTable tx = perms" and "tPossessor tx = pos" and "tTimeStamp tx = now"
    and "tPublicKey tx = pub"
  using assms by (auto simp: table_tx_Init_def table_Sign_def table_SetTxID_def split: option.splits)

text \<open>A new table transaction verifies under the same conditions as a data transaction.\<close>

lemma table_tx_Init_verifies:
  assumes "length xb = n" and "length yb = n"
    and "\<And>d sig. ecdsa_sign cr rnd priv d = Some sig \<Longrightarrow> ecdsa_verify cr (be_nat xb) (be_nat yb) d sig"
    and "table_tx_Init cr rnd now table perms pos (xb @ yb) priv zero_table_tx = Inr tx"
  shows "table_VerifyTransaction cr tx"
proof -
  let ?u = "zero_table_tx\<lparr>tTable := table, PermissionTable := perms, tPossessor := pos, tTimeStamp := now,
    tPublicKey := xb @ yb\<rparr>"
  obtain sig where sig: "ecdsa_sign cr rnd priv (tTxID (table_SetTxID cr ?u)) = Some sig"
    and tx: "tx = (table_SetTxID cr ?u)\<lparr>tSignature := sig\<rparr>"
    using assms(4) by (auto simp: table_tx_Init_def table_Sign_def split: option.splits)
  have "tx\<lparr>tSignature := [], tTxID := []\<rparr> = ?u"
    by (simp add: tx table_SetTxID_def zero_table_tx_def)
  then have "table_VerifyTransaction cr tx = ecdsa_verify cr (be_nat xb) (be_nat yb) (tTxID (table_SetTxID cr ?u)) sig"
    using restore_key_padded [OF assms(1,2)]
    by (simp add: table_VerifyTransaction_unfold tx table_SetTxID_def)
  then show ?thesis using assms(3) [OF sig] by simp
qed

lemma CheckTableBlock_cases:
  "CheckTableBlock cr b =
     (if tPreviousBlockHash b = genesis_parent then Inr True
      else if \<not> (\<forall>tx \<in> set (tTransactions b). table_VerifyTransaction cr tx) then Inr False
      else if tTransactions b = [] then Inl StackOverflow
      else if merkle_root_digest (md5 cr) (map table_tx_bytes (tTransactions b)) \<noteq> tMerKelRoot b
      then Inl LogPanic else Inr True)"
  using GetMerkleRoot_digest [of "map table_tx_bytes (tTransactions b)" "md5 cr"]
  by (auto simp: CheckTableBlock_def GetMerkleRoot_empty)

lemma table_InitBlock_Inr:
  assumes "txs \<noteq> []"
  shows "\<exists>b'. table_InitBlock now cr cd txs prev ID b = Inr b' \<and> tTransactions b' = txs
     \<and> tPreviousBlockHash b' = prev \<and> tID b' = ID \<and> tBTimeStamp b' = now
     \<and> tMerKelRoot b' = merkle_root_digest (md5 cr) (map table_tx_bytes txs)"
  using GetMerkleRoot_digest [of "map table_tx_bytes txs" "md5 cr"] assms
  by (auto simp: table_InitBlock_def table_InitBlock_at_def table_SetBlockHash_def)

text \<open>
  The signature of a table transaction does not fix how the permission entries are divided:
  entries are signed back to back, so any other division of the same characters, which grants
  other addresses other rights, verifies under the same signature.
\<close>

theorem table_verify_ignores_entries:
  assumes "tPublicKey tx' = tPublicKey tx" and "tSignature tx' = tSignature tx"
    and "tTimeStamp tx' = tTimeStamp tx" and "tTable tx' = tTable tx" and "tPossessor tx' = tPossessor tx"
    and "concat (PermissionTable tx') = concat (PermissionTable tx)"
  shows "table_VerifyTransaction cr tx' = table_VerifyTransaction cr tx"
  using assms by (simp add: table_VerifyTransaction_unfold table_tx_bytes_def)

theorem table_verify_ignores_entries_witness:
  "table_VerifyTransaction toy_crypto (zero_table_tx\<lparr>PermissionTable := [''alice1'', ''bob4'']\<rparr>)
     = table_VerifyTransaction toy_crypto (zero_table_tx\<lparr>PermissionTable := [''alice1bob4'']\<rparr>)"
  by (rule table_verify_ignores_entries) (simp_all add: zero_table_tx_def)

text \<open>
  The table block a book keeper builds from verified transactions and appends to its chain
  passes the check of the nodes that receive it and is found there by its hash.
\<close>

theorem table_block_accepted:
  assumes "list_all (table_VerifyTransaction cr) txs" and "txs \<noteq> []"
    and "table_InitBlock now cr cd txs (TailHash ch) ID table_NewBlock = Inr b"
    and "table_rep B cd ch bs" and "table_ok B cd ch b"
  shows "CheckTableBlock cr b = Inr True
    \<and> (\<exists>ch'. table_AddBlockToChain B cd b ch = Inr ch' \<and> table_rep B cd ch' (b # bs)
        \<and> table_GetBlockByHash B cd ch' (tCurrentBlockHash b) = Inr b)"
proof
  obtain b' where "table_InitBlock now cr cd txs (TailHash ch) ID table_NewBlock = Inr b'"
    "tTransactions b' = txs" "tMerKelRoot b' = merkle_root_digest (md5 cr) (map table_tx_bytes txs)"
    using table_InitBlock_Inr [OF assms(2)] by metis
  then show "CheckTableBlock cr b = Inr True" using assms(1,2,3)
    by (simp add: CheckTableBlock_cases list_all_iff)
  obtain ch' where ch': "table_AddBlockToChain B cd b ch = Inr ch'" "table_rep B cd ch' (b # bs)"
    using table_store.add_rep [OF assms(4,5)] by blast
  then show "\<exists>ch'. table_AddBlockToChain B cd b ch = Inr ch' \<and> table_rep B cd ch' (b # bs)
        \<and> table_GetBlockByHash B cd ch' (tCurrentBlockHash b) = Inr b"
    using table_store.lookup_mem [OF ch'(2), of b] by auto
qed

theorem table_block_accepted_witness:
  "\<exists>b. CheckTableBlock (toy_crypto\<lparr>ecdsa_verify := (\<lambda>x y d s. True)\<rparr>) b = Inr True
     \<and> tTransactions b = [zero_table_tx]"
proof -
  let ?cr = "toy_crypto\<lparr>ecdsa_verify := (\<lambda>x y d s. True)\<rparr>"
  let ?e = "\<lambda>_::table_block. ''y''"
  let ?g = "table_NewBlock\<lparr>tCurrentBlockHash := ''a'', tPreviousBlockHash := genesis_mark\<rparr>"
  obtain b where b: "table_InitBlock 7 ?cr \<lparr>encode = ?e, decode = (\<lambda>_. None)\<rparr> [zero_table_tx] ''a'' 1 table_NewBlock = Inr b"
    "tTransactions b = [zero_table_tx]" "tPreviousBlockHash b = ''a''"
    using table_InitBlock_Inr [of "[zero_table_tx]" 7 ?cr "\<lparr>encode = ?e, decode = (\<lambda>_. None)\<rparr>" "''a''" 1
        table_NewBlock] by auto
  let ?cd = "\<lparr>encode = ?e, decode = (\<lambda>v. if v = ''y'' then Some b else Some ?g)\<rparr>"
  let ?ch = "(new_table_chain map_bolt)\<lparr>TailHash := ''a'',
      Db := [''blockBucket'' \<mapsto> [''a'' \<mapsto> ''g'', ''lastHashKey'' \<mapsto> ''a'']]\<rparr>"
  have i: "table_InitBlock 7 ?cr ?cd [zero_table_tx] (TailHash ?ch) 1 table_NewBlock = Inr b"
    using b(1) by (simp add: table_InitBlock_def table_InitBlock_at_def table_SetBlockHash_def)
  have "length (tCurrentBlockHash b) = 32"
    using b(1) by (auto simp: table_InitBlock_def table_InitBlock_at_def table_SetBlockHash_def toy_crypto_def
        bind_go_Inr_iff)
  then have l: "length (tCurrentBlockHash b) = 32" "tCurrentBlockHash b \<noteq> ''lastHashKey''"
    "tCurrentBlockHash b \<noteq> ''a''" "tCurrentBlockHash b \<noteq> []" by auto
  have r: "table_rep map_bolt ?cd ?ch [?g]"
    unfolding table_rep_def chain_rep_def
    by (simp add: map_bolt_laws, simp add: map_bolt_def new_table_chain_def table_NewBlock_def)
  have o: "table_ok map_bolt ?cd ?ch b"
    unfolding table_ok_def block_ok_def using l b(3)
    by (simp add: storable_def map_bolt_def new_table_chain_def)
  have "list_all (table_VerifyTransaction ?cr) [zero_table_tx]"
    by (simp add: table_VerifyTransaction_unfold)
  from table_block_accepted [OF this _ i r o] b(2) show ?thesis by auto
qed

end
