(* ===== verification/Table_Info.thy ===== *)
theory Table_Info
  imports Table_Chain
begin

text \<open>
  \<open>cache/table-chain.go\<close>: the permissions of the shared tables, kept in memory, and per table the
  log of the data blocks that wrote to it, kept in a bucket of the table chain's database. The
  bucket of a table maps the 8-byte keys 0, 1, 2, \<dots> to \<open>root\<close> and then to block hashes, and the
  table's own name to the last key in use.
\<close>

section \<open>Permissions\<close>

type_synonym tables = "string \<rightharpoonup> (string \<rightharpoonup> string)"

text \<open>\<open>tables[name][v[:len(v)-1]] = v[len(v)-1:]\<close> for every entry \<open>v\<close>; slicing an empty entry panics.\<close>

definition add_entry :: "(string \<rightharpoonup> string) \<Rightarrow> string \<Rightarrow> (string \<rightharpoonup> string) go" where
  "add_entry m v = (if v = [] then Inl IndexRange else Inr (m(butlast v \<mapsto> [last v])))"

definition add_entries :: "(string \<rightharpoonup> string) \<Rightarrow> string list \<Rightarrow> (string \<rightharpoonup> string) go" where
  "add_entries = fold_go add_entry"

definition init_tx :: "tables \<Rightarrow> table_tx \<Rightarrow> tables go" where
  "init_tx tables tx =
     (case tables (tTable tx) of
        Some m \<Rightarrow> Inr tables
      | None \<Rightarrow> bind_go (add_entries Map.empty (PermissionTable tx)) (\<lambda>m. Inr (tables(tTable tx \<mapsto> m))))"

text \<open>
  \<open>init\<close>: walk the table chain from its tail; the genesis block, recognised by its parent hash, is
  not read. No value of the outer option: the walk does not end.
\<close>

partial_function (option) tio_init_loop ::
  "'db bolt \<Rightarrow> table_block codec \<Rightarrow> 'db \<Rightarrow> iterator \<Rightarrow> tables \<Rightarrow> tables go option" where
  "tio_init_loop B cd db it tables =
     (case table_Next B cd db it of
        Inl p \<Rightarrow> Some (Inl p)
      | Inr (block, it') \<Rightarrow>
          if CurrentHash it' = genesis_mark then Some (Inr tables)
          else case fold_go init_tx tables (tTransactions block) of
                 Inl p \<Rightarrow> Some (Inl p)
               | Inr tables' \<Rightarrow> tio_init_loop B cd db it' tables')"

definition tio_init :: "'db bolt \<Rightarrow> table_block codec \<Rightarrow> 'db table_chain \<Rightarrow> tables go option" where
  "tio_init B cd tch = tio_init_loop B cd (Db tch) (table_CreateIterator tch) Map.empty"

definition checkPermission :: "tables \<Rightarrow> string \<Rightarrow> string \<Rightarrow> string \<times> string option" where
  "checkPermission tables address table =
     (case tables table of
        None \<Rightarrow> (''-1'', Some ''no such table'')
      | Some m \<Rightarrow> (case m address of None \<Rightarrow> (''-1'', None) | Some p \<Rightarrow> (p, None)))"

definition uerTables :: "tables \<Rightarrow> string \<Rightarrow> string + (string \<rightharpoonup> string)" where
  "uerTables tables address =
     (let my = (\<lambda>tn. case tables tn of None \<Rightarrow> None | Some tpl \<Rightarrow> tpl address)
      in if my = Map.empty then Inl ''null'' else Inr my)"

section \<open>The log of a table\<close>

definition put_or_panic :: "'db bolt \<Rightarrow> bytes \<Rightarrow> bytes \<Rightarrow> bytes \<Rightarrow> 'db \<Rightarrow> 'db go" where
  "put_or_panic B bk k v db = (case bolt_put B db bk k v of None \<Rightarrow> Inl LogPanic | Some db' \<Rightarrow> Inr db')"

definition createBucket :: "'db bolt \<Rightarrow> string \<Rightarrow> 'db \<Rightarrow> 'db go" where
  "createBucket B tableName db =
     (case create_bucket B db tableName of
        None \<Rightarrow> Inl LogPanic
      | Some db1 \<Rightarrow>
          bind_go (Uint64ToBytes 0) (\<lambda>keyBytes.
          bind_go (put_or_panic B tableName keyBytes ''root'' db1) (\<lambda>db2.
          put_or_panic B tableName tableName keyBytes db2)))"

definition updateBucket :: "'db bolt \<Rightarrow> string \<Rightarrow> bytes \<Rightarrow> 'db \<Rightarrow> 'db go" where
  "updateBucket B tableName blockHash db =
     (if \<not> has_bucket B db tableName then Inl OsExit
      else let lastKeyBytes = bolt_get B db tableName tableName;
               lastBlockHash = bolt_get B db tableName lastKeyBytes
           in if lastBlockHash = blockHash then Inr db
              else bind_go (BytesToUint64 lastKeyBytes) (\<lambda>lastKey.
                   bind_go (Uint64ToBytes (lastKey + 1)) (\<lambda>keyBytes.
                   bind_go (put_or_panic B tableName keyBytes blockHash db) (\<lambda>db1.
                   put_or_panic B tableName tableName keyBytes db1))))"

definition upDateByData :: "'db bolt \<Rightarrow> block \<Rightarrow> 'db \<Rightarrow> 'db go" where
  "upDateByData B block db =
     fold_go (\<lambda>db tx. updateBucket B (Table tx) (CurrentBlockHash block) db) db (Transactions block)"

definition update_table_tx :: "'db bolt \<Rightarrow> tables \<times> 'db \<Rightarrow> table_tx \<Rightarrow> (tables \<times> 'db) go" where
  "update_table_tx B s tx =
     (let (tables, db) = s in
      bind_go (case tables (tTable tx) of
                 Some m \<Rightarrow> Inr (tables, db)
               | None \<Rightarrow> bind_go (createBucket B (tTable tx) db)
                           (\<lambda>db'. Inr (tables(tTable tx \<mapsto> Map.empty), db')))
        (\<lambda>(tables1, db1).
           bind_go (add_entries (the (tables1 (tTable tx))) (PermissionTable tx))
             (\<lambda>m. Inr (tables1(tTable tx \<mapsto> m), db1))))"

definition upDateByTables :: "'db bolt \<Rightarrow> table_block \<Rightarrow> tables \<times> 'db \<Rightarrow> (tables \<times> 'db) go" where
  "upDateByTables B block s = fold_go (update_table_tx B) s (tTransactions block)"

section \<open>Reading along the log\<close>

definition tio_getBlock :: "'db bolt \<Rightarrow> block codec \<Rightarrow> 'db data_chain \<Rightarrow> bytes \<Rightarrow> block go" where
  "tio_getBlock B cd dch blockHash =
     (if \<not> has_bucket B (Db dch) (BlockBucket dch) then Inl LogPanic
      else Deserialize cd (bolt_get B (Db dch) (BlockBucket dch) blockHash))"

text \<open>
  The loop that \<open>getInTableHashChain\<close>, \<open>getHistoryInTableHashChain\<close> and \<open>getTableData\<close> share: from
  the last key down, fetch the block, let the body \<open>f\<close> update the state, stop if the body says so
  or at \<open>root\<close>. The outer option has no value where the loop does not end.
\<close>

partial_function (option) log_walk ::
  "'db bolt \<Rightarrow> block codec \<Rightarrow> 'db data_chain \<Rightarrow> 'db \<Rightarrow> string \<Rightarrow> ('s \<Rightarrow> block \<Rightarrow> 's) \<Rightarrow> ('s \<Rightarrow> bool) \<Rightarrow>
     bytes \<Rightarrow> bytes \<Rightarrow> 's \<Rightarrow> 's go option" where
  "log_walk B cd dch db tableName f stop lastKeyBytes lastBlockHash s =
     (if lastBlockHash = ''root'' then Some (Inr s)
      else case tio_getBlock B cd dch lastBlockHash of
             Inl p \<Rightarrow> Some (Inl p)
           | Inr block \<Rightarrow>
               let s' = f s block in
               if stop s' then Some (Inr s')
               else case BytesToUint64 lastKeyBytes of
                      Inl p \<Rightarrow> Some (Inl p)
                    | Inr lastKey \<Rightarrow>
                        (case Uint64ToBytes (lastKey - 1) of
                           Inl p \<Rightarrow> Some (Inl p)
                         | Inr keyBytes \<Rightarrow>
                             log_walk B cd dch db tableName f stop keyBytes
                               (bolt_get B db tableName keyBytes) s'))"

definition log_view :: "'db bolt \<Rightarrow> block codec \<Rightarrow> 'db data_chain \<Rightarrow> 'db \<Rightarrow> string \<Rightarrow>
    ('s \<Rightarrow> block \<Rightarrow> 's) \<Rightarrow> ('s \<Rightarrow> bool) \<Rightarrow> 's \<Rightarrow> 's go option" where
  "log_view B cd dch db tableName f stop s =
     (if \<not> has_bucket B db tableName then Some (Inl LogPanic)
      else let lastKeyBytes = bolt_get B db tableName tableName
           in log_walk B cd dch db tableName f stop lastKeyBytes (bolt_get B db tableName lastKeyBytes) s)"

text \<open>State of the search for one data item: the latest time stamp, its transaction, the block.\<close>

definition search_block :: "bytes \<Rightarrow> int \<times> transaction option \<times> bytes \<Rightarrow> block \<Rightarrow> int \<times> transaction option \<times> bytes" where
  "search_block dataID s block =
     foldl (\<lambda>(t, x, h) tx.
              if DataID tx = dataID
              then (if t < TimeStamp tx then (TimeStamp tx, Some tx, CurrentBlockHash block)
                    else (t, x, CurrentBlockHash block))
              else (t, x, h)) s (Transactions block)"

definition getInTableHashChain :: "'db bolt \<Rightarrow> block codec \<Rightarrow> 'db data_chain \<Rightarrow> 'db \<Rightarrow> bytes \<Rightarrow> string \<Rightarrow>
    (transaction \<times> bytes \<times> bytes) option go option" where
  "getInTableHashChain B cd dch db dataID tableName =
     map_option (map_sum id (\<lambda>(t, x, h).
         if 0 < t then (case x of Some tx \<Rightarrow> Some (tx, h, TxID tx) | None \<Rightarrow> None) else None))
       (log_view B cd dch db tableName (search_block dataID) (\<lambda>(t, x, h). 0 < t) (0, None, []))"

definition getHistoryInTableHashChain :: "'db bolt \<Rightarrow> block codec \<Rightarrow> 'db data_chain \<Rightarrow> 'db \<Rightarrow> bytes \<Rightarrow>
    string \<Rightarrow> (string + transaction list) go option" where
  "getHistoryInTableHashChain B cd dch db dataID tableName =
     map_option (map_sum id (\<lambda>txs. if txs = [] then Inl ''null'' else Inr txs))
       (log_view B cd dch db tableName
          (\<lambda>txs block. txs @ filter (\<lambda>tx. DataID tx = dataID) (Transactions block)) (\<lambda>_. False) [])"

definition keep_latest :: "(string \<rightharpoonup> transaction) \<Rightarrow> transaction \<Rightarrow> (string \<rightharpoonup> transaction)" where
  "keep_latest m tx =
     (case m (Key tx) of
        None \<Rightarrow> m(Key tx \<mapsto> tx)
      | Some old \<Rightarrow> if TimeStamp old < TimeStamp tx then m(Key tx \<mapsto> tx) else m)"

definition tio_getTableData :: "'db bolt \<Rightarrow> block codec \<Rightarrow> 'db data_chain \<Rightarrow> 'db \<Rightarrow> string \<Rightarrow>
    (string \<rightharpoonup> transaction) go option" where
  "tio_getTableData B cd dch db tableName =
     log_view B cd dch db tableName (\<lambda>m block. foldl keep_latest m (Transactions block)) (\<lambda>_. False) Map.empty"

section \<open>The contract of a block log\<close>

definition log_append :: "bytes list \<Rightarrow> bytes \<Rightarrow> bytes list" where
  "log_append hs h = (if hs \<noteq> [] \<and> last hs = h then hs else hs @ [h])"

locale block_log =
  fixes rep :: "'d \<Rightarrow> string \<Rightarrow> bytes list \<Rightarrow> bool"
    and okname :: "string \<Rightarrow> bool"
    and okhash :: "string \<Rightarrow> bytes \<Rightarrow> bool"
    and fresh :: "'d \<Rightarrow> string \<Rightarrow> bool"
    and create :: "string \<Rightarrow> 'd \<Rightarrow> 'd go"
    and append :: "string \<Rightarrow> bytes \<Rightarrow> 'd \<Rightarrow> 'd go"
  assumes create_rep: "okname n \<Longrightarrow> fresh d n \<Longrightarrow>
      \<exists>d'. create n d = Inr d' \<and> rep d' n [] \<and> (\<forall>m hs. m \<noteq> n \<longrightarrow> rep d m hs \<longrightarrow> rep d' m hs)"
    and append_rep: "rep d n hs \<Longrightarrow> okhash n h \<Longrightarrow> length hs < 2 ^ 64 - 1 \<Longrightarrow>
      \<exists>d'. append n h d = Inr d' \<and> rep d' n (log_append hs h) \<and> (\<forall>m hs. m \<noteq> n \<longrightarrow> rep d m hs \<longrightarrow> rep d' m hs)"
begin

text \<open>One block: its hash goes to the log of every table that occurs in it, once.\<close>

lemma append_all:
  assumes "set ns \<subseteq> M" and "\<And>m. m \<in> M \<Longrightarrow> rep d m (hs m)"
    and "\<And>n. n \<in> set ns \<Longrightarrow> okhash n h \<and> Suc (length (hs n)) < 2 ^ 64 - 1"
  shows "\<exists>d'. fold_go (\<lambda>d n. append n h d) d ns = Inr d'
    \<and> (\<forall>m \<in> M. rep d' m (if m \<in> set ns then log_append (hs m) h else hs m))"
  using assms(1,3)
proof (induction ns rule: rev_induct)
  case Nil
  then show ?case using assms(2) by simp
next
  case (snoc n ns)
  let ?g = "\<lambda>m. if m \<in> set ns then log_append (hs m) h else hs m"
  obtain d1 where d1: "fold_go (\<lambda>d n. append n h d) d ns = Inr d1" "\<forall>m \<in> M. rep d1 m (?g m)"
    using snoc by auto
  have idem: "log_append (log_append g h) h = log_append g h" for g by (simp add: log_append_def)
  have "length (?g n) \<le> Suc (length (hs n))" by (simp add: log_append_def)
  moreover have n: "n \<in> M" "okhash n h" "Suc (length (hs n)) < 2 ^ 64 - 1" using snoc.prems by auto
  ultimately have "length (?g n) < 2 ^ 64 - 1" by linarith
  then obtain d2 where d2: "append n h d1 = Inr d2" "rep d2 n (log_append (?g n) h)"
    "\<forall>m gs. m \<noteq> n \<longrightarrow> rep d1 m gs \<longrightarrow> rep d2 m gs"
    using append_rep [of d1 n "?g n" h] d1(2) n by blast
  have "rep d2 m (if m \<in> set (ns @ [n]) then log_append (hs m) h else hs m)" if "m \<in> M" for m
  proof (cases "m = n")
    case True
    then show ?thesis using d2(2) by (auto simp: idem split: if_splits)
  next
    case False
    then have "rep d2 m (?g m)" using d2(3) d1(2) that by blast
    then show ?thesis using False by simp
  qed
  then show ?case using d1(1) d2(1) by (auto simp: fold_go_append)
qed

end

section \<open>The bucket provides it\<close>

definition log_key :: "nat \<Rightarrow> bytes" where
  "log_key i = be_bytes 8 i"

definition log_rep :: "'db bolt \<Rightarrow> 'db \<Rightarrow> string \<Rightarrow> bytes list \<Rightarrow> bool" where
  "log_rep B db n hs \<longleftrightarrow> bolt_laws B \<and> has_bucket B db n \<and> length hs < 2 ^ 64 \<and> length n \<noteq> 8 \<and> n \<noteq> []
     \<and> length n \<le> 32768 \<and> ''root'' \<notin> set hs
     \<and> bolt_get B db n n = log_key (length hs) \<and> bolt_get B db n (log_key 0) = ''root''
     \<and> (\<forall>i < length hs. bolt_get B db n (log_key (Suc i)) = hs ! i)"

definition log_okname :: "'db bolt \<Rightarrow> string \<Rightarrow> bool" where
  "log_okname B n \<longleftrightarrow> bolt_laws B \<and> n \<noteq> [] \<and> length n \<noteq> 8 \<and> length n \<le> 32768"

definition log_okhash :: "string \<Rightarrow> bytes \<Rightarrow> bool" where
  "log_okhash n h \<longleftrightarrow> h \<noteq> ''root'' \<and> length h \<le> 2147483646"

lemma length_log_key [simp]: "length (log_key i) = 8"
  by (simp add: log_key_def)

lemma log_key_inject: "i < 2 ^ 64 \<Longrightarrow> j < 2 ^ 64 \<Longrightarrow> log_key i = log_key j \<longleftrightarrow> i = j"
  unfolding log_key_def using be_bytes_inject [of i 8 j] by auto

lemma storable_log_key: "length v \<le> 2147483646 \<Longrightarrow> storable (log_key i) v"
proof -
  assume "length v \<le> 2147483646"
  moreover have "log_key i \<noteq> []" by (metis length_log_key list.size(3) zero_neq_numeral)
  ultimately show ?thesis by (simp add: storable_def)
qed

lemma log_key_unat: "i < 2 ^ 64 \<Longrightarrow> Uint64ToBytes (of_nat i) = Inr (log_key i)"
  by (simp add: log_key_def unat_of_nat)

lemma BytesToUint64_log_key: "i < 2 ^ 64 \<Longrightarrow> BytesToUint64 (log_key i) = Inr (of_nat i)"
  by (simp add: log_key_def BytesToUint64_eq be_nat_be_bytes)

lemma log_rep_cong:
  assumes "log_rep B db n hs" and "has_bucket B db' n = has_bucket B db n"
    and "bolt_get B db' n = bolt_get B db n"
  shows "log_rep B db' n hs"
  using assms by (simp add: log_rep_def)

lemma log_rep_last: "log_rep B db n hs \<Longrightarrow> hs \<noteq> [] \<Longrightarrow> bolt_get B db n (log_key (length hs)) = last hs"
  unfolding log_rep_def by (cases "length hs") (auto simp: last_conv_nth)

lemma createBucket_rep:
  assumes "log_okname B n" and "\<not> has_bucket B db n"
  shows "\<exists>d. createBucket B n db = Inr d \<and> log_rep B d n []
    \<and> (\<forall>m. m \<noteq> n \<longrightarrow> has_bucket B d m = has_bucket B db m \<and> bolt_get B d m = bolt_get B db m)"
proof -
  have laws: "bolt_laws B" and n: "n \<noteq> []" "length n \<noteq> 8" "length n \<le> 32768"
    using assms(1) by (simp_all add: log_okname_def)
  obtain db1 where db1: "create_bucket B db n = Some db1"
    "has_bucket B db1 = (\<lambda>c. c = n \<or> has_bucket B db c)"
    "bolt_get B db1 = (bolt_get B db)(n := (\<lambda>_. []))"
    using bolt_create [OF laws assms(2) n(1)] .
  have h1: "has_bucket B db1 n" by (simp add: db1(2))
  have st1: "storable (log_key 0) ''root''" by (rule storable_log_key) simp
  obtain db2 where db2: "bolt_put B db1 n (log_key 0) ''root'' = Some db2" "has_bucket B db2 = has_bucket B db1"
    "bolt_get B db2 = (bolt_get B db1)(n := (bolt_get B db1 n)(log_key 0 := ''root''))"
    using bolt_put [OF laws h1 st1] .
  have h2: "has_bucket B db2 n" using h1 db2(2) by simp
  have st2: "storable n (log_key 0)" using n by (simp add: storable_def)
  obtain db3 where db3: "bolt_put B db2 n n (log_key 0) = Some db3" "has_bucket B db3 = has_bucket B db2"
    "bolt_get B db3 = (bolt_get B db2)(n := (bolt_get B db2 n)(n := log_key 0))"
    using bolt_put [OF laws h2 st2] .
  have ne: "n \<noteq> log_key 0" using n(2) length_log_key [of 0] by metis
  have "createBucket B n db = Inr db3"
    using db1(1) db2(1) db3(1) log_key_unat [of 0] by (simp add: createBucket_def put_or_panic_def)
  moreover have "log_rep B db3 n []"
    using laws n ne h2 by (simp add: log_rep_def db3(2,3) db2(3) db1(3))
  ultimately show ?thesis by (simp add: db3(2,3) db2(2,3) db1(2,3))
qed

lemma updateBucket_rep:
  assumes rep: "log_rep B db n hs" and ok: "log_okhash n h" and len: "length hs < 2 ^ 64 - 1"
  shows "\<exists>d. updateBucket B n h db = Inr d \<and> log_rep B d n (log_append hs h)
    \<and> (\<forall>m. m \<noteq> n \<longrightarrow> has_bucket B d m = has_bucket B db m \<and> bolt_get B d m = bolt_get B db m)"
proof -
  let ?l = "length hs"
  have laws: "bolt_laws B" and has: "has_bucket B db n" and n: "n \<noteq> []" "length n \<noteq> 8" "length n \<le> 32768"
    and cur: "bolt_get B db n n = log_key ?l" and root: "bolt_get B db n (log_key 0) = ''root''"
    and ent: "\<forall>i < ?l. bolt_get B db n (log_key (Suc i)) = hs ! i" and nr: "''root'' \<notin> set hs"
    using rep by (simp_all add: log_rep_def)
  have h: "h \<noteq> ''root''" "length h \<le> 2147483646" using ok by (simp_all add: log_okhash_def)
  have lt: "?l < 2 ^ 64" "Suc ?l < 2 ^ 64" using len by simp_all
  show ?thesis
  proof (cases "hs \<noteq> [] \<and> last hs = h")
    case True
    then have "updateBucket B n h db = Inr db"
      using has cur log_rep_last [OF rep] by (simp add: updateBucket_def Let_def)
    then show ?thesis using True rep by (simp add: log_append_def)
  next
    case False
    have ne: "bolt_get B db n (log_key ?l) \<noteq> h"
      using False root h(1) log_rep_last [OF rep] by (cases "hs = []") auto
    have key: "Uint64ToBytes (of_nat ?l + 1) = Inr (log_key (Suc ?l))"
      using log_key_unat [OF lt(2)] by (simp add: add.commute)
    have st1: "storable (log_key (Suc ?l)) h" using h(2) by (rule storable_log_key)
    obtain db1 where db1: "bolt_put B db n (log_key (Suc ?l)) h = Some db1" "has_bucket B db1 = has_bucket B db"
      "bolt_get B db1 = (bolt_get B db)(n := (bolt_get B db n)(log_key (Suc ?l) := h))"
      using bolt_put [OF laws has st1] .
    have has1: "has_bucket B db1 n" using has db1(2) by simp
    have st2: "storable n (log_key (Suc ?l))" using n by (simp add: storable_def)
    obtain db2 where db2: "bolt_put B db1 n n (log_key (Suc ?l)) = Some db2" "has_bucket B db2 = has_bucket B db1"
      "bolt_get B db2 = (bolt_get B db1)(n := (bolt_get B db1 n)(n := log_key (Suc ?l)))"
      using bolt_put [OF laws has1 st2] .
    have run: "updateBucket B n h db = Inr db2"
      using has cur ne key db1(1) db2(1) BytesToUint64_log_key [OF lt(1)]
      by (simp add: updateBucket_def Let_def put_or_panic_def del: Uint64ToBytes_ok)
    have nk: "n \<noteq> log_key i" for i using n(2) length_log_key [of i] by metis
    have get: "bolt_get B db2 n = (bolt_get B db n)(log_key (Suc ?l) := h, n := log_key (Suc ?l))"
      by (simp add: db2(3) db1(3))
    have e0: "bolt_get B db2 n (log_key 0) = ''root''"
      using get root nk [of 0] lt by (auto simp: log_key_inject)
    have ei: "bolt_get B db2 n (log_key (Suc i)) = (hs @ [h]) ! i" if "i < Suc ?l" for i
    proof (cases "i = ?l")
      case True
      then show ?thesis using get nk [of "Suc i"] by simp
    next
      case False
      then have "i < ?l" "log_key (Suc i) \<noteq> log_key (Suc ?l)" using that lt by (auto simp: log_key_inject)
      then show ?thesis using get nk [of "Suc i"] ent by (simp add: nth_append)
    qed
    have "log_rep B db2 n (hs @ [h])"
      unfolding log_rep_def using laws has1 db2(2) n h(1) nr lt e0 ei get by simp
    then show ?thesis using run False by (auto simp: log_append_def db2(2,3) db1(2,3))
  qed
qed

interpretation table_log: block_log "log_rep B" "log_okname B" log_okhash "\<lambda>db n. \<not> has_bucket B db n"
    "createBucket B" "updateBucket B"
  for B :: "'db bolt"
proof
  fix n and d :: 'db
  assume "log_okname B n" and "\<not> has_bucket B d n"
  then show "\<exists>d'. createBucket B n d = Inr d' \<and> log_rep B d' n []
      \<and> (\<forall>m hs. m \<noteq> n \<longrightarrow> log_rep B d m hs \<longrightarrow> log_rep B d' m hs)"
    using createBucket_rep log_rep_cong by metis
next
  fix d :: 'db and n hs h
  assume "log_rep B d n hs" and "log_okhash n h" and "length hs < 2 ^ 64 - 1"
  then show "\<exists>d'. updateBucket B n h d = Inr d' \<and> log_rep B d' n (log_append hs h)
      \<and> (\<forall>m hs. m \<noteq> n \<longrightarrow> log_rep B d m hs \<longrightarrow> log_rep B d' m hs)"
    using updateBucket_rep log_rep_cong by metis
qed

text \<open>Logging a block touches only the logs of its tables.\<close>

lemma put_or_panic_other:
  "bolt_laws B \<Longrightarrow> has_bucket B db n \<Longrightarrow> put_or_panic B n k v db = Inr db' \<Longrightarrow>
    has_bucket B db' = has_bucket B db \<and> (\<forall>m. m \<noteq> n \<longrightarrow> bolt_get B db' m = bolt_get B db m)"
  by (simp add: put_or_panic_def bolt_put_other [of B db n k v db'] split: option.splits)

lemma updateBucket_other:
  assumes "bolt_laws B" and "updateBucket B n h db = Inr db'"
  shows "has_bucket B db' = has_bucket B db \<and> (\<forall>m. m \<noteq> n \<longrightarrow> bolt_get B db' m = bolt_get B db m)"
proof (cases "db' = db")
  case False
  then have has: "has_bucket B db n" using assms(2) by (auto simp: updateBucket_def split: if_splits)
  obtain k v db1 where 1: "put_or_panic B n k v db = Inr db1" "put_or_panic B n n k db1 = Inr db'"
    using assms(2) False by (auto simp: updateBucket_def Let_def bind_go_Inr_iff split: if_splits)
  note db1 = put_or_panic_other [OF assms(1) has 1(1)]
  then have "has_bucket B db1 n" using has by simp
  from db1 put_or_panic_other [OF assms(1) this 1(2)] show ?thesis by simp
qed simp

lemma upDateByData_other:
  assumes "bolt_laws B" and "upDateByData B b db = Inr db'"
  shows "has_bucket B db' = has_bucket B db \<and> (\<forall>m. m \<notin> Table ` set (Transactions b) \<longrightarrow> bolt_get B db' m = bolt_get B db m)"
proof -
  have "has_bucket B db' = has_bucket B db \<and> (\<forall>m. m \<notin> Table ` set txs \<longrightarrow> bolt_get B db' m = bolt_get B db m)"
    if "fold_go (\<lambda>db tx. updateBucket B (Table tx) h db) db txs = Inr db'" for h txs
    using that
  proof (induction txs arbitrary: db)
    case (Cons tx txs)
    then obtain db1 where "updateBucket B (Table tx) h db = Inr db1"
      "fold_go (\<lambda>db tx. updateBucket B (Table tx) h db) db1 txs = Inr db'" by (auto simp: bind_go_Inr_iff)
    with updateBucket_other [OF assms(1)] Cons.IH show ?case by fastforce
  qed simp
  from this [of "CurrentBlockHash b" "Transactions b"] assms(2) show ?thesis by (simp add: upDateByData_def)
qed

section \<open>What the walk sees\<close>

fun walk_fold :: "('s \<Rightarrow> 'b \<Rightarrow> 's) \<Rightarrow> ('s \<Rightarrow> bool) \<Rightarrow> 's \<Rightarrow> 'b list \<Rightarrow> 's" where
  "walk_fold f stop s [] = s"
| "walk_fold f stop s (b # bs) = (let s' = f s b in if stop s' then s' else walk_fold f stop s' bs)"

lemma walk_fold_never: "walk_fold f (\<lambda>_. False) s bs = foldl f s bs"
  by (induction bs arbitrary: s) (simp_all add: Let_def)

definition readable :: "'db bolt \<Rightarrow> block codec \<Rightarrow> 'db data_chain \<Rightarrow> bytes list \<Rightarrow> (bytes \<Rightarrow> block) \<Rightarrow> bool" where
  "readable B cd dch hs blk \<longleftrightarrow> (\<forall>h \<in> set hs. tio_getBlock B cd dch h = Inr (blk h))"

lemma log_walk_fold:
  assumes rep: "log_rep B db n hs" and rd: "readable B cd dch hs blk"
  shows "i \<le> length hs \<Longrightarrow>
    log_walk B cd dch db n f stop (log_key i) (bolt_get B db n (log_key i)) s =
      Some (Inr (walk_fold f stop s (rev (map blk (take i hs)))))"
proof (induction i arbitrary: s)
  case 0
  then show ?case using rep by (simp add: log_walk.simps [of B cd dch db n] log_rep_def)
next
  case (Suc i)
  have i: "i < length hs" "i < 2 ^ 64" "Suc i < 2 ^ 64" using Suc.prems rep by (auto simp: log_rep_def)
  have get: "bolt_get B db n (log_key (Suc i)) = hs ! i" using rep i by (simp add: log_rep_def)
  have "''root'' \<notin> set hs" using rep by (simp add: log_rep_def)
  then have nr: "hs ! i \<noteq> ''root''" using i nth_mem by metis
  have blk: "tio_getBlock B cd dch (hs ! i) = Inr (blk (hs ! i))" using rd i by (simp add: readable_def)
  have key: "Uint64ToBytes (of_nat (Suc i) - 1) = Inr (log_key i)" using log_key_unat [OF i(2)] by simp
  have tk: "rev (map blk (take (Suc i) hs)) = blk (hs ! i) # rev (map blk (take i hs))"
    using i by (simp add: take_Suc_conv_app_nth)
  show ?case unfolding tk get
    using nr blk key Suc.IH [of "f s (blk (hs ! i))"] i(1) BytesToUint64_log_key [OF i(3)]
    by (simp add: log_walk.simps [of B cd dch db n f stop "log_key (Suc i)"] Let_def
        del: Uint64ToBytes_ok of_nat_Suc)
qed

lemma log_view_fold:
  assumes "log_rep B db n hs" and "readable B cd dch hs blk"
  shows "log_view B cd dch db n f stop s = Some (Inr (walk_fold f stop s (rev (map blk hs))))"
  using log_walk_fold [OF assms, of "length hs" f stop s] assms(1)
  by (simp add: log_view_def Let_def log_rep_def)

lemma foldl_append_filter: "foldl (\<lambda>xs b. xs @ g b) s bs = s @ concat (map g bs)"
  by (induction bs arbitrary: s) simp_all

text \<open>The newest transaction of every key.\<close>

definition newest_of :: "(string \<rightharpoonup> transaction) \<Rightarrow> transaction list \<Rightarrow> bool" where
  "newest_of m txs \<longleftrightarrow> (\<forall>k. case m k of
       None \<Rightarrow> \<forall>tx \<in> set txs. Key tx \<noteq> k
     | Some tx \<Rightarrow> tx \<in> set txs \<and> Key tx = k \<and> (\<forall>tx' \<in> set txs. Key tx' = k \<longrightarrow> TimeStamp tx' \<le> TimeStamp tx))"

lemma newest_of_snoc:
  assumes "newest_of m txs"
  shows "newest_of (keep_latest m tx) (txs @ [tx])"
  unfolding newest_of_def
proof
  fix k
  show "case keep_latest m tx k of
       None \<Rightarrow> \<forall>x \<in> set (txs @ [tx]). Key x \<noteq> k
     | Some y \<Rightarrow> y \<in> set (txs @ [tx]) \<and> Key y = k
         \<and> (\<forall>x \<in> set (txs @ [tx]). Key x = k \<longrightarrow> TimeStamp x \<le> TimeStamp y)"
    using assms [unfolded newest_of_def, rule_format, of k]
      assms [unfolded newest_of_def, rule_format, of "Key tx"]
    by (cases "Key tx = k") (fastforce simp: keep_latest_def split: option.splits)+
qed

lemma newest_of_foldl: "newest_of m txs \<Longrightarrow> newest_of (foldl keep_latest m ys) (txs @ ys)"
proof (induction ys arbitrary: m txs)
  case Nil
  then show ?case by simp
next
  case (Cons y ys)
  have "newest_of (foldl keep_latest (keep_latest m y) ys) ((txs @ [y]) @ ys)"
    by (rule Cons.IH) (rule newest_of_snoc [OF Cons.prems])
  then show ?case by simp
qed

lemma foldl_blocks: "foldl (\<lambda>m block. foldl keep_latest m (Transactions block)) m bs
    = foldl keep_latest m (concat (map Transactions bs))"
  by (induction bs arbitrary: m) simp_all

section \<open>Properties\<close>

text \<open>
  A data block is logged once for every table it writes to: if each of these tables has a log,
  \<open>upDateByData\<close> succeeds and appends the block's hash to exactly their logs (not again where it
  already is the last entry, so receiving a block twice in a row changes nothing), and the logs of
  all other tables stay as they are.
\<close>

theorem data_block_logged:
  assumes "\<And>m. m \<in> M \<Longrightarrow> log_rep B db m (hs m)" and "Table ` set (Transactions b) \<subseteq> M"
    and "\<And>n. n \<in> M \<Longrightarrow> Suc (length (hs n)) < 2 ^ 64 - 1"
    and "CurrentBlockHash b \<noteq> ''root''" and "length (CurrentBlockHash b) \<le> 2147483646"
  shows "\<exists>db'. upDateByData B b db = Inr db' \<and> (\<forall>m \<in> M. log_rep B db' m
    (if m \<in> Table ` set (Transactions b) then log_append (hs m) (CurrentBlockHash b) else hs m))"
proof -
  let ?ns = "map Table (Transactions b)"
  have ns: "set ?ns \<subseteq> M" using assms(2) by simp
  have "\<exists>d'. fold_go (\<lambda>d n. updateBucket B n (CurrentBlockHash b) d) db ?ns = Inr d'
    \<and> (\<forall>m \<in> M. log_rep B d' m (if m \<in> set ?ns then log_append (hs m) (CurrentBlockHash b) else hs m))"
  proof (rule table_log.append_all [OF ns])
    fix m
    assume "m \<in> M"
    then show "log_rep B db m (hs m)" by (rule assms(1))
  next
    fix n
    assume "n \<in> set ?ns"
    then have "n \<in> M" using ns by blast
    then show "log_okhash n (CurrentBlockHash b) \<and> Suc (length (hs n)) < 2 ^ 64 - 1"
      using assms(3,4,5) by (simp add: log_okhash_def)
  qed
  then show ?thesis by (simp only: upDateByData_def set_map fold_go_map)
qed

text \<open>
  C30. The history of a data item is complete: for a table whose log lists readable blocks,
  \<open>getHistoryInTableHashChain\<close> ends and returns all transactions of these blocks with the item's
  ID, newest block first, and the error \<open>null\<close> exactly if there are none.
\<close>

theorem history_complete:
  assumes "log_rep B db n hs" and "readable B cd dch hs blk"
  shows "getHistoryInTableHashChain B cd dch db dataID n = Some (Inr (
    let txs = concat (map (\<lambda>h. filter (\<lambda>tx. DataID tx = dataID) (Transactions (blk h))) (rev hs))
    in if txs = [] then Inl ''null'' else Inr txs))"
proof -
  have "log_view B cd dch db n (\<lambda>txs block. txs @ filter (\<lambda>tx. DataID tx = dataID) (Transactions block))
      (\<lambda>_. False) [] = Some (Inr (concat (map (\<lambda>h. filter (\<lambda>tx. DataID tx = dataID) (Transactions (blk h)))
        (rev hs))))"
    by (simp add: log_view_fold [OF assms] walk_fold_never foldl_append_filter rev_map comp_def)
  then show ?thesis by (simp only: getHistoryInTableHashChain_def) (simp add: Let_def)
qed

text \<open>
  C31. \<open>getTableData\<close> ends and maps each key to a transaction with the largest time stamp for it,
  but among all transactions of the logged blocks: the table of a transaction is not compared.
\<close>

theorem table_data_newest:
  assumes "log_rep B db n hs" and "readable B cd dch hs blk"
  shows "\<exists>m. tio_getTableData B cd dch db n = Some (Inr m)
    \<and> newest_of m (concat (map (\<lambda>h. Transactions (blk h)) (rev hs)))"
proof -
  let ?txs = "concat (map (\<lambda>h. Transactions (blk h)) (rev hs))"
  have "tio_getTableData B cd dch db n = Some (Inr (foldl keep_latest Map.empty ?txs))"
    by (simp add: tio_getTableData_def log_view_fold [OF assms] walk_fold_never foldl_blocks rev_map comp_def)
  moreover have "newest_of Map.empty []" by (simp add: newest_of_def)
  then have "newest_of (foldl keep_latest Map.empty ?txs) ([] @ ?txs)" by (rule newest_of_foldl)
  ultimately show ?thesis by simp
qed

text \<open>A table with one logged block of two transactions, for the witnesses.\<close>

definition wit_tx :: "string \<Rightarrow> string \<Rightarrow> int \<Rightarrow> transaction" where
  "wit_tx t k ts = SetDataID (zero_tx\<lparr>TxID := k, Table := t, Key := k, TimeStamp := ts\<rparr>)"

definition wit_block :: block where
  "wit_block = (toy_block 1 ''c'' ''b'')\<lparr>Transactions := [wit_tx ''tab'' ''k'' 5, wit_tx ''other'' ''j'' 6]\<rparr>"

definition wit_db :: mapdb where
  "wit_db = [''tab'' \<mapsto> [log_key 0 \<mapsto> ''root'', log_key 1 \<mapsto> ''c'', ''tab'' \<mapsto> log_key 1]]"

lemma wit_rep: "log_rep map_bolt wit_db ''tab'' [''c'']"
proof -
  have "length ''tab'' \<noteq> length (log_key i)" for i by simp
  then have "log_key i \<noteq> ''tab''" for i by metis
  then show ?thesis
    unfolding log_rep_def
    by (simp add: map_bolt_laws, simp add: map_bolt_def wit_db_def log_key_inject)
qed

lemma wit_readable: "readable map_bolt (toy_codec [wit_block]) toy_chain [''c''] (\<lambda>_. wit_block)"
  by (simp add: readable_def tio_getBlock_def toy_get toy_has Deserialize_def)
    (simp add: wit_block_def)

theorem data_block_logged_witness:
  "\<exists>db'. upDateByData map_bolt (toy_block 2 ''d'' ''c''\<lparr>Transactions := [wit_tx ''tab'' ''k'' 7]\<rparr>) wit_db = Inr db'
     \<and> log_rep map_bolt db' ''tab'' [''c'', ''d'']"
proof -
  let ?b = "toy_block 2 ''d'' ''c''\<lparr>Transactions := [wit_tx ''tab'' ''k'' 7]\<rparr>"
  have "\<exists>db'. upDateByData map_bolt ?b wit_db = Inr db' \<and> (\<forall>m \<in> {''tab''}. log_rep map_bolt db' m
    (if m \<in> Table ` set (Transactions ?b) then log_append [''c''] (CurrentBlockHash ?b) else [''c'']))"
    by (rule data_block_logged) (auto simp: wit_rep wit_tx_def SetDataID_def toy_block_def)
  then show ?thesis by (simp add: wit_tx_def SetDataID_def toy_block_def log_append_def)
qed

theorem history_complete_witness:
  "getHistoryInTableHashChain map_bolt (toy_codec [wit_block]) toy_chain wit_db ''tab-QAQ-k'' ''tab''
     = Some (Inr (Inr [wit_tx ''tab'' ''k'' 5]))"
  using history_complete [OF wit_rep wit_readable, of "''tab-QAQ-k''"]
  by (simp add: wit_block_def wit_tx_def SetDataID_def toy_block_def Let_def)

theorem table_data_newest_witness:
  "\<exists>m tx. tio_getTableData map_bolt (toy_codec [wit_block]) toy_chain wit_db ''tab'' = Some (Inr m)
     \<and> m ''j'' = Some tx \<and> Table tx = ''other''"
proof -
  obtain m where m: "tio_getTableData map_bolt (toy_codec [wit_block]) toy_chain wit_db ''tab'' = Some (Inr m)"
    "newest_of m [wit_tx ''tab'' ''k'' 5, wit_tx ''other'' ''j'' 6]"
    using table_data_newest [OF wit_rep wit_readable] by (auto simp: wit_block_def)
  have f: "Key (wit_tx t k ts) = k" "Table (wit_tx t k ts) = t" for t k ts
    by (simp_all add: wit_tx_def SetDataID_def)
  have "case m ''j'' of
       None \<Rightarrow> \<forall>tx \<in> set [wit_tx ''tab'' ''k'' 5, wit_tx ''other'' ''j'' 6]. Key tx \<noteq> ''j''
     | Some tx \<Rightarrow> tx \<in> set [wit_tx ''tab'' ''k'' 5, wit_tx ''other'' ''j'' 6] \<and> Key tx = ''j''
         \<and> (\<forall>tx' \<in> set [wit_tx ''tab'' ''k'' 5, wit_tx ''other'' ''j'' 6]. Key tx' = ''j'' \<longrightarrow> TimeStamp tx' \<le> TimeStamp tx)"
    using m(2) unfolding newest_of_def by blast
  then show ?thesis using m(1) by (cases "m ''j''") (auto simp: f)
qed

section \<open>The newest value of one item\<close>

definition dated :: "bytes \<Rightarrow> block \<Rightarrow> transaction list" where
  "dated dataID b = filter (\<lambda>tx. DataID tx = dataID \<and> 0 < TimeStamp tx) (Transactions b)"

definition found_in :: "bytes \<Rightarrow> block \<Rightarrow> int \<times> transaction option \<times> bytes \<Rightarrow> bool" where
  "found_in dataID b s \<longleftrightarrow> (\<exists>tx \<in> set (dated dataID b). s = (TimeStamp tx, Some tx, CurrentBlockHash b)
     \<and> (\<forall>tx' \<in> set (dated dataID b). TimeStamp tx' \<le> TimeStamp tx))"

lemma search_block_cases:
  "(dated dataID b = [] \<longrightarrow> (\<exists>h'. search_block dataID (0, None, h) b = (0, None, h')))
   \<and> (dated dataID b \<noteq> [] \<longrightarrow> found_in dataID b (search_block dataID (0, None, h) b))"
proof -
  define step where "step = (\<lambda>(t, x, h) (tx :: transaction). if DataID tx = dataID
      then (if t < TimeStamp tx then (TimeStamp tx, Some tx, CurrentBlockHash b) else (t, x, CurrentBlockHash b))
      else (t, x, h))"
  define good where "good = (\<lambda>(txs :: transaction list) s. (filter (\<lambda>tx. DataID tx = dataID \<and> 0 < TimeStamp tx) txs = [] \<longrightarrow>
      (\<exists>h'. s = (0::int, None, h')))
    \<and> (filter (\<lambda>tx. DataID tx = dataID \<and> 0 < TimeStamp tx) txs \<noteq> [] \<longrightarrow>
      (\<exists>tx \<in> set txs. DataID tx = dataID \<and> 0 < TimeStamp tx \<and> s = (TimeStamp tx, Some tx, CurrentBlockHash b)
       \<and> (\<forall>tx' \<in> set txs. DataID tx' = dataID \<longrightarrow> TimeStamp tx' \<le> TimeStamp tx))))"
  have "good txs (foldl step (0, None, h) txs)" for txs
  proof (induction txs rule: rev_induct)
    case Nil
    then show ?case by (simp add: good_def)
  next
    case (snoc y ys)
    show ?case
    proof (cases "filter (\<lambda>tx. DataID tx = dataID \<and> 0 < TimeStamp tx) ys = []")
      case True
      then obtain h' where "foldl step (0, None, h) ys = (0, None, h')" using snoc by (auto simp: good_def)
      moreover have "\<forall>tx' \<in> set ys. DataID tx' = dataID \<longrightarrow> TimeStamp tx' \<le> 0"
        using True by (auto simp: filter_empty_conv)
      ultimately show ?thesis using True by (fastforce simp: good_def step_def)
    next
      case False
      then obtain tx where tx: "tx \<in> set ys" "DataID tx = dataID" "0 < TimeStamp tx"
        "foldl step (0, None, h) ys = (TimeStamp tx, Some tx, CurrentBlockHash b)"
        "\<forall>tx' \<in> set ys. DataID tx' = dataID \<longrightarrow> TimeStamp tx' \<le> TimeStamp tx"
        using snoc by (auto simp: good_def)
      show ?thesis
      proof (cases "DataID y = dataID \<and> TimeStamp tx < TimeStamp y")
        case True
        then have "foldl step (0, None, h) (ys @ [y]) = (TimeStamp y, Some y, CurrentBlockHash b)"
          using tx(4) by (simp add: step_def)
        then show ?thesis using True tx(3,5) by (fastforce simp: good_def)
      next
        case False
        then have "foldl step (0, None, h) (ys @ [y]) = (TimeStamp tx, Some tx, CurrentBlockHash b)"
          using tx(4) by (auto simp: step_def)
        moreover have "\<forall>tx' \<in> set (ys @ [y]). DataID tx' = dataID \<longrightarrow> TimeStamp tx' \<le> TimeStamp tx"
          using False tx(5) by auto
        ultimately show ?thesis using tx(1-3) unfolding good_def by (auto simp: filter_empty_conv)
      qed
    qed
  qed
  from this [of "Transactions b"] show ?thesis
    unfolding good_def found_in_def dated_def search_block_def step_def by auto
qed

lemma search_walk:
  "case find (\<lambda>b. dated dataID b \<noteq> []) bs of
     None \<Rightarrow> \<exists>h'. walk_fold (search_block dataID) (\<lambda>(t, x, h). 0 < t) (0, None, h) bs = (0, None, h')
   | Some b \<Rightarrow> found_in dataID b (walk_fold (search_block dataID) (\<lambda>(t, x, h). 0 < t) (0, None, h) bs)"
proof (induction bs arbitrary: h)
  case Nil
  then show ?case by simp
next
  case (Cons b bs)
  show ?case
  proof (cases "dated dataID b = []")
    case True
    then obtain h' where "search_block dataID (0, None, h) b = (0, None, h')"
      using search_block_cases by blast
    then show ?thesis using True Cons.IH [of h']
      by (cases "find (\<lambda>b. dated dataID b \<noteq> []) bs") (simp_all add: Let_def)
  next
    case False
    then have f: "found_in dataID b (search_block dataID (0, None, h) b)"
      using search_block_cases [of dataID b h] by simp
    then obtain t x h' where s: "search_block dataID (0, None, h) b = (t, x, h')" "0 < t"
      by (auto simp: found_in_def dated_def)
    then show ?thesis using False f by (simp add: Let_def)
  qed
qed

text \<open>
  A single value: \<open>getInTableHashChain\<close> ends; it fails exactly if no logged block holds a
  transaction with the ID and a positive time stamp, and otherwise returns one from the newest
  such block, with the largest time stamp there, together with that block's hash and its own
  transaction ID.
\<close>

theorem newest_value:
  assumes "log_rep B db n hs" and "readable B cd dch hs blk"
  shows "case find (\<lambda>b. dated dataID b \<noteq> []) (map blk (rev hs)) of
     None \<Rightarrow> getInTableHashChain B cd dch db dataID n = Some (Inr None)
   | Some b \<Rightarrow> \<exists>tx \<in> set (dated dataID b).
       getInTableHashChain B cd dch db dataID n = Some (Inr (Some (tx, CurrentBlockHash b, TxID tx)))
       \<and> (\<forall>tx' \<in> set (dated dataID b). TimeStamp tx' \<le> TimeStamp tx)"
proof -
  let ?w = "walk_fold (search_block dataID) (\<lambda>(t, x, h). 0 < t) (0, None, []) (map blk (rev hs))"
  have g: "getInTableHashChain B cd dch db dataID n = Some (Inr (case ?w of (t, x, h) \<Rightarrow>
      if 0 < t then (case x of Some tx \<Rightarrow> Some (tx, h, TxID tx) | None \<Rightarrow> None) else None))"
    by (simp add: getInTableHashChain_def log_view_fold [OF assms] rev_map)
  show ?thesis
  proof (cases "find (\<lambda>b. dated dataID b \<noteq> []) (map blk (rev hs))")
    case None
    then obtain h' where "?w = (0, None, h')"
      using search_walk [where bs = "map blk (rev hs)" and h = "[]" and dataID = dataID] by auto
    then show ?thesis using g None by simp
  next
    case (Some b)
    then have "found_in dataID b ?w" using search_walk [where bs = "map blk (rev hs)" and h = "[]" and dataID = dataID] by simp
    then obtain tx where tx: "tx \<in> set (dated dataID b)" "?w = (TimeStamp tx, Some tx, CurrentBlockHash b)"
      "\<forall>tx' \<in> set (dated dataID b). TimeStamp tx' \<le> TimeStamp tx" unfolding found_in_def by blast
    then have "0 < TimeStamp tx" by (simp add: dated_def)
    then show ?thesis using g Some tx by auto
  qed
qed

theorem newest_value_witness:
  "getInTableHashChain map_bolt (toy_codec [wit_block]) toy_chain wit_db ''tab-QAQ-k'' ''tab''
     = Some (Inr (Some (wit_tx ''tab'' ''k'' 5, ''c'', ''k'')))"
proof -
  have "dated ''tab-QAQ-k'' wit_block = [wit_tx ''tab'' ''k'' 5]"
    by (simp add: dated_def wit_block_def wit_tx_def SetDataID_def)
  moreover have "CurrentBlockHash wit_block = ''c''" "TxID (wit_tx t k ts) = k" for t k ts
    by (simp_all add: wit_block_def wit_tx_def SetDataID_def toy_block_def zero_tx_def)
  ultimately show ?thesis using newest_value [OF wit_rep wit_readable, of "''tab-QAQ-k''"] by simp
qed

section \<open>Permissions: running and restarted nodes\<close>

fun entries_ok :: "string list \<Rightarrow> bool" where
  "entries_ok vs = ([] \<notin> set vs)"

definition grants :: "(string \<rightharpoonup> string) \<Rightarrow> string list \<Rightarrow> (string \<rightharpoonup> string)" where
  "grants m vs = foldl (\<lambda>m v. m(butlast v \<mapsto> [last v])) m vs"

lemma add_entries_eq: "[] \<notin> set vs \<Longrightarrow> add_entries m vs = Inr (grants m vs)"
  unfolding add_entries_def grants_def by (rule fold_go_total) (auto simp: add_entry_def)

lemma add_entries_empty: "[] \<in> set vs \<Longrightarrow> add_entries m vs = Inl IndexRange"
  unfolding add_entries_def
proof (induction vs arbitrary: m)
  case Nil
  then show ?case by simp
next
  case (Cons v vs)
  then show ?case by (cases "v = []") (auto simp: add_entry_def)
qed

text \<open>
  C32. A table transaction that a node receives while running: with a table it knows, the entries
  are merged into the table's permissions; with a new table, whose name is not empty, not used
  by another bucket and not eight bytes long, the table gets exactly the entries and an empty log.
  The receiving node panics if an entry is empty, and also if the name of a new table is already
  that of a bucket, such as \<open>blockBucket\<close>.
\<close>

theorem table_tx_received:
  assumes "log_okname B (tTable tx)"
  shows "([] \<in> set (PermissionTable tx) \<longrightarrow> (\<exists>p. update_table_tx B (tables, db) tx = Inl p))
   \<and> ([] \<notin> set (PermissionTable tx) \<longrightarrow> (case tables (tTable tx) of
        Some m \<Rightarrow> update_table_tx B (tables, db) tx = Inr (tables(tTable tx \<mapsto> grants m (PermissionTable tx)), db)
      | None \<Rightarrow>
          if has_bucket B db (tTable tx) then update_table_tx B (tables, db) tx = Inl LogPanic
          else \<exists>db'. update_table_tx B (tables, db) tx
                = Inr (tables(tTable tx \<mapsto> grants Map.empty (PermissionTable tx)), db')
             \<and> log_rep B db' (tTable tx) []
             \<and> (\<forall>n hs. n \<noteq> tTable tx \<longrightarrow> log_rep B db n hs \<longrightarrow> log_rep B db' n hs)))"
proof -
  have laws: "bolt_laws B" using assms by (simp add: log_okname_def)
  show ?thesis
  proof (cases "tables (tTable tx)")
    case (Some m)
    then show ?thesis by (simp add: update_table_tx_def add_entries_eq add_entries_empty)
  next
    case None
    show ?thesis
    proof (cases "has_bucket B db (tTable tx)")
      case True
      then have "createBucket B (tTable tx) db = Inl LogPanic"
        using bolt_create_fails [OF laws, of db "tTable tx"] by (simp add: createBucket_def)
      then show ?thesis using None True by (simp add: update_table_tx_def)
    next
      case False
      obtain db' where db': "createBucket B (tTable tx) db = Inr db'" "log_rep B db' (tTable tx) []"
        "\<forall>m hs. m \<noteq> tTable tx \<longrightarrow> log_rep B db m hs \<longrightarrow> log_rep B db' m hs"
        using table_log.create_rep [OF assms, of db] False by blast
      then show ?thesis using None False
        by (auto simp: update_table_tx_def add_entries_eq add_entries_empty)
    qed
  qed
qed

theorem table_tx_received_witness:
  "\<exists>p. update_table_tx map_bolt (Map.empty, toy_db) (zero_table_tx\<lparr>tTable := ''blockBucket''\<rparr>) = Inl p"
proof -
  have "log_okname map_bolt (tTable (zero_table_tx\<lparr>tTable := ''blockBucket''\<rparr>))"
    by (simp add: log_okname_def map_bolt_laws)
  from table_tx_received [OF this, of Map.empty toy_db] show ?thesis
    by (simp add: toy_has zero_table_tx_def)
qed

end
