(* ===== verification/Lru_Cache.thy ===== *)
theory Lru_Cache
  imports Linked_Queue Table_Info
begin

text \<open>
  \<open>cache/cache_lru.go\<close>: two bounded lists over the shared linked-list code, one of cached
  transactions and one of index entries that say in which block a transaction is, each with a map
  from data IDs to list nodes. An entry is put in at the tail, moved to the tail when it is read,
  and evicted at the head. The lists start at \<open>qhead\<close> (oldest) and end at \<open>qtail\<close>.
\<close>

section \<open>Operations\<close>

record index_node =
  ix_blockHash :: bytes
  ix_txID :: bytes
  ix_count :: int
  ix_dataID :: string

definition zero_index :: index_node where
  "zero_index = \<lparr>ix_blockHash = [], ix_txID = [], ix_count = 0, ix_dataID = []\<rparr>"

definition lruTx_init :: "transaction pqueue" where
  "lruTx_init = queue_init zero_tx 120"

definition lruIndex_init :: "index_node pqueue" where
  "lruIndex_init = queue_init zero_index 300"

text \<open>
  Eviction: \<open>pg = head.next\<close>, \<open>pg.next.pre = pg.pre\<close>, \<open>pg.pre.next = pg.next\<close>, and the key of the
  evicted payload is deleted from the map. It happens only once \<open>curSize\<close> is above \<open>maxSize\<close>.
\<close>

definition evict :: "('a \<Rightarrow> string) \<Rightarrow> 'a pqueue \<Rightarrow> 'a pqueue option" where
  "evict key q =
     (if curSize q > maxSize q then do {
        pg \<leftarrow> nx q (qhead q);
        b \<leftarrow> nx q pg;
        let q1 = q\<lparr>pv := (pv q)(b := pv q pg)\<rparr>;
        a \<leftarrow> pv q1 pg;
        let q2 = q1\<lparr>nx := (nx q1)(a := nx q1 pg)\<rparr>;
        Some (q2\<lparr>qmap := (qmap q2)(key (dat q2 pg) := None), curSize := curSize q2 - 1\<rparr>)
      } else Some q)"

definition lru_queueIn :: "('a \<Rightarrow> string) \<Rightarrow> string \<Rightarrow> 'a \<Rightarrow> 'a pqueue \<Rightarrow> 'a pqueue option" where
  "lru_queueIn key ID x q = do {
     let (p, q1) = new_node x q;
     q2 \<leftarrow> evict key q1;
     ptag \<leftarrow> pv q2 (qtail q2);
     q3 \<leftarrow> link_after ptag p q2;
     Some (q3\<lparr>qmap := (qmap q3)(ID \<mapsto> p), curSize := curSize q3 + 1\<rparr>)
   }"

text \<open>
  The move to the tail, assignment by assignment. The second one of \<open>cache_lru.go:153-154\<close> and
  \<open>176-177\<close> is \<open>p.next = p.pre\<close>, so the node after \<open>p\<close> keeps \<open>p\<close> as its predecessor.
\<close>

definition move_to_tail :: "addr \<Rightarrow> 'a pqueue \<Rightarrow> 'a pqueue option" where
  "move_to_tail p q = do {
     a \<leftarrow> pv q p;
     let q1 = q\<lparr>nx := (nx q)(a := nx q p)\<rparr>;
     let q2 = q1\<lparr>nx := (nx q1)(p := pv q1 p)\<rparr>;
     ptag \<leftarrow> pv q2 (qtail q2);
     link_after ptag p q2
   }"

definition lruTx_toTail :: "string \<Rightarrow> transaction pqueue \<Rightarrow> transaction pqueue option" where
  "lruTx_toTail ID q = do {
     p \<leftarrow> qmap q ID;
     if pv q (qtail q) = Some p then Some q else move_to_tail p q
   }"

definition lruIndex_toTail :: "string \<Rightarrow> index_node pqueue \<Rightarrow> index_node pqueue option" where
  "lruIndex_toTail ID q = do {
     p \<leftarrow> qmap q ID;
     let q1 = q\<lparr>dat := (dat q)(p := (dat q p)\<lparr>ix_count := ix_count (dat q p) + 1\<rparr>)\<rparr>;
     if pv q1 (qtail q1) = Some p then Some q1 else move_to_tail p q1
   }"

definition lruTx_queueIn :: "string \<Rightarrow> transaction \<Rightarrow> transaction pqueue \<Rightarrow> transaction pqueue option" where
  "lruTx_queueIn = lru_queueIn DataID"

definition lruIndex_queueIn :: "string \<Rightarrow> bytes \<Rightarrow> bytes \<Rightarrow> index_node pqueue \<Rightarrow> index_node pqueue option" where
  "lruIndex_queueIn ID blockHash txID =
     lru_queueIn ix_dataID ID \<lparr>ix_blockHash = blockHash, ix_txID = txID, ix_count = 1, ix_dataID = ID\<rparr>"

definition checkDel :: "string \<Rightarrow> index_node pqueue \<Rightarrow> (bool \<times> index_node pqueue) option" where
  "checkDel ID q = do {
     p \<leftarrow> qmap q ID;
     if ix_count (dat q p) \<ge> 3 then do {
       q1 \<leftarrow> unlink p q;
       Some (True, q1\<lparr>qmap := (qmap q1)(ID := None), curSize := curSize q1 - 1\<rparr>)
     } else Some (False, q)
   }"

record lru3 =
  listTx :: "transaction pqueue"
  listIndex :: "index_node pqueue"

definition lru_init :: lru3 where
  "lru_init = \<lparr>listTx = lruTx_init, listIndex = lruIndex_init\<rparr>"

definition getInTX :: "string \<Rightarrow> lru3 \<Rightarrow> transaction option" where
  "getInTX dataID lru = map_option (dat (listTx lru)) (qmap (listTx lru) dataID)"

text \<open>\<open>Inr None\<close> is the error \<open>null\<close>; a block without the transaction leaves the zero transaction.\<close>

definition getInIndex :: "'db bolt \<Rightarrow> block codec \<Rightarrow> 'db data_chain \<Rightarrow> string \<Rightarrow> lru3 \<Rightarrow> transaction option go" where
  "getInIndex B cd dch dataID lru =
     (case qmap (listIndex lru) dataID of
        None \<Rightarrow> Inr None
      | Some p \<Rightarrow>
          (let n = dat (listIndex lru) p in
           if \<not> has_bucket B (Db dch) (BlockBucket dch) then Inl OsExit
           else bind_go (Deserialize cd (bolt_get B (Db dch) (BlockBucket dch) (ix_blockHash n))) (\<lambda>block.
                  Inr (Some (foldl (\<lambda>tx0 tx. if TxID tx = ix_txID n then tx else tx0) zero_tx
                    (Transactions block))))))"

definition update_cached_tx :: "bytes \<Rightarrow> lru3 \<Rightarrow> transaction \<Rightarrow> lru3" where
  "update_cached_tx blockHash lru tx =
     (let lru1 = (case qmap (listTx lru) (DataID tx) of
                    None \<Rightarrow> lru
                  | Some p \<Rightarrow> lru\<lparr>listTx := (listTx lru)\<lparr>dat := (dat (listTx lru))(p := tx)\<rparr>\<rparr>)
      in case qmap (listIndex lru1) (DataID tx) of
           None \<Rightarrow> lru1
         | Some p \<Rightarrow> lru1\<lparr>listIndex := (listIndex lru1)\<lparr>dat := (dat (listIndex lru1))(p :=
               (dat (listIndex lru1) p)\<lparr>ix_blockHash := blockHash, ix_txID := TxID tx\<rparr>)\<rparr>\<rparr>)"

definition updateDataCache :: "block \<Rightarrow> lru3 \<Rightarrow> lru3" where
  "updateDataCache block lru = foldl (update_cached_tx (CurrentBlockHash block)) lru (Transactions block)"

section \<open>A bounded queue with eviction\<close>

locale evicting_queue =
  fixes rep :: "'q \<Rightarrow> 'a list \<Rightarrow> bool"
    and key :: "'a \<Rightarrow> string"
    and cap :: "'q \<Rightarrow> nat"
    and insert_in :: "'a \<Rightarrow> 'q \<Rightarrow> 'q option"
  assumes insert_rep: "rep q xs \<Longrightarrow> key x \<notin> key ` set xs \<Longrightarrow>
      \<exists>q'. insert_in x q = Some q' \<and> cap q' = cap q
         \<and> rep q' ((if cap q < length xs then tl xs else xs) @ [x])"
begin

fun insert_all :: "'a list \<Rightarrow> 'q \<Rightarrow> 'q option" where
  "insert_all [] q = Some q"
| "insert_all (x # xs) q = Option.bind (insert_in x q) (insert_all xs)"

text \<open>However many entries are put in, the oldest go first and at most one more than \<open>cap\<close> remain.\<close>

lemma insert_all_rep:
  "rep q xs \<Longrightarrow> distinct (map key (xs @ ys)) \<Longrightarrow> length xs \<le> Suc (cap q) \<Longrightarrow>
   \<exists>q'. insert_all ys q = Some q' \<and> cap q' = cap q
     \<and> rep q' (drop (length xs + length ys - Suc (cap q)) (xs @ ys))"
proof (induction ys arbitrary: q xs)
  case Nil
  then show ?case by simp
next
  case (Cons y ys)
  have "key y \<notin> key ` set xs" using Cons.prems(2) by auto
  then obtain q1 where q1: "insert_in y q = Some q1" "cap q1 = cap q"
    "rep q1 ((if cap q < length xs then tl xs else xs) @ [y])"
    using insert_rep [OF Cons.prems(1)] by blast
  let ?z = "(if cap q < length xs then tl xs else xs) @ [y]"
  have z: "?z = drop (Suc (length xs) - Suc (cap q)) (xs @ [y])"
    using Cons.prems(3) by (auto simp: drop_Suc le_Suc_eq)
  have "distinct (map key (?z @ ys))"
    using Cons.prems(2) by (cases xs) auto
  moreover have "length ?z \<le> Suc (cap q1)" using Cons.prems(3) q1(2) by auto
  ultimately obtain q2 where q2: "insert_all ys q1 = Some q2" "cap q2 = cap q1"
    "rep q2 (drop (length ?z + length ys - Suc (cap q1)) (?z @ ys))"
    using Cons.IH [OF q1(3)] by blast
  have "drop (length ?z + length ys - Suc (cap q)) (?z @ ys)
      = drop (length xs + length (y # ys) - Suc (cap q)) (xs @ y # ys)"
  proof (cases "cap q < length xs")
    case True
    then have "length xs = Suc (cap q)" using Cons.prems(3) by simp
    then show ?thesis using True by (cases xs) auto
  next
    case False
    then show ?thesis by simp
  qed
  then show ?case using q1(1,2) q2 by simp
qed

end

definition lru_addrs :: "('a \<Rightarrow> string) \<Rightarrow> 'a pqueue \<Rightarrow> addr list \<Rightarrow> bool" where
  "lru_addrs key q as \<longleftrightarrow> wf_links q as \<and> curSize q = int (length as) \<and> 0 \<le> maxSize q
     \<and> distinct (map (\<lambda>a. key (dat q a)) as)
     \<and> (\<forall>k a. qmap q k = Some a \<longleftrightarrow> a \<in> set as \<and> key (dat q a) = k)"

definition lru_rep :: "('a \<Rightarrow> string) \<Rightarrow> 'a pqueue \<Rightarrow> 'a list \<Rightarrow> bool" where
  "lru_rep key q xs \<longleftrightarrow> (\<exists>as. lru_addrs key q as \<and> xs = map (dat q) as)"

lemma evict_addrs:
  assumes "lru_addrs key q as"
  shows "\<exists>q'. evict key q = Some q' \<and> dat q' = dat q \<and> maxSize q' = maxSize q \<and> brk q' = brk q
    \<and> qhead q' = qhead q \<and> qtail q' = qtail q
    \<and> lru_addrs key q' (if maxSize q < curSize q then tl as else as)"
proof (cases "maxSize q < curSize q")
  case False
  then show ?thesis using assms by (simp add: evict_def)
next
  case True
  have wf: "wf_links q as" and cs: "curSize q = int (length as)" "0 \<le> maxSize q"
    using assms by (simp_all add: lru_addrs_def)
  then obtain a r where as: "as = a # r" using True by (cases as) auto
  obtain b post where post: "r @ [qtail q] = b # post" by (metis append_is_Nil_conv list.discI neq_Nil_conv)
  have path: "qpath q as = [] @ qhead q # a # b # post" and new: "qpath q r = [] @ qhead q # b # post"
    using as post by (simp_all add: qpath_def)
  have path2: "qpath q as = [qhead q] @ a # b # post" using path by simp
  note n1 = wf_links_neighbours [OF wf path] and n2 = wf_links_neighbours [OF wf path2]
  obtain q1 where q1: "unlink a q = Some q1" "wf_links q1 r" "dat q1 = dat q" "qmap q1 = qmap q"
    "curSize q1 = curSize q" "maxSize q1 = maxSize q" "qhead q1 = qhead q" "qtail q1 = qtail q" "brk q1 = brk q"
    using unlink_shape [OF wf path new] by blast
  have ne: "a \<noteq> b" "a \<noteq> qhead q" "b \<noteq> qhead q" using n1 n2 by auto
  have q1e: "q1 = q\<lparr>nx := (nx q)(qhead q := Some b), pv := (pv q)(b := Some (qhead q))\<rparr>"
    using q1(1) n1 n2 ne by (simp add: unlink_def Let_def)
  let ?q = "q1\<lparr>qmap := (qmap q1)(key (dat q1 a) := None), curSize := curSize q1 - 1\<rparr>"
  have "evict key q = Some ?q"
    using True n1 n2 ne by (simp add: evict_def Let_def q1e)
  moreover have "lru_addrs key ?q r"
  proof -
    have d: "distinct (map (\<lambda>a. key (dat q a)) (a # r))"
      and m: "\<forall>k c. qmap q k = Some c \<longleftrightarrow> c \<in> set (a # r) \<and> key (dat q c) = k"
      using assms as by (simp_all add: lru_addrs_def)
    have "\<forall>c \<in> set r. key (dat q c) \<noteq> key (dat q a)" using d by (auto simp: image_iff)
    then have "\<forall>k c. qmap ?q k = Some c \<longleftrightarrow> c \<in> set r \<and> key (dat ?q c) = k"
      using m by (auto simp: q1(3,4))
    moreover have "wf_links ?q r" using q1(2) by (simp add: wf_links_def qpath_def)
    ultimately show ?thesis using d cs as by (simp add: lru_addrs_def q1)
  qed
  ultimately show ?thesis using True as by (simp add: q1)
qed

lemma lru_queueIn_addrs:
  assumes "lru_addrs key q as" and "key x \<notin> key ` set (map (dat q) as)"
  shows "\<exists>q' p. lru_queueIn key (key x) x q = Some q' \<and> maxSize q' = maxSize q
    \<and> lru_addrs key q' ((if maxSize q < curSize q then tl as else as) @ [p])
    \<and> map (dat q') ((if maxSize q < curSize q then tl as else as) @ [p])
      = map (dat q) (if maxSize q < curSize q then tl as else as) @ [x]"
proof -
  obtain p q1 where pq: "new_node x q = (p, q1)" by fastforce
  have wf: "wf_links q as" using assms(1) by (simp add: lru_addrs_def)
  note nn = new_node_shape [OF wf pq]
  have e: "map (\<lambda>a. key (dat q1 a)) as = map (\<lambda>a. key (dat q a)) as" using nn(6) by simp
  have a1: "lru_addrs key q1 as"
    unfolding lru_addrs_def e using assms(1) nn(1,6,9,10,11) by (auto simp: lru_addrs_def)
  let ?as = "if maxSize q < curSize q then tl as else as"
  obtain q2 where q2: "evict key q1 = Some q2" "dat q2 = dat q1" "maxSize q2 = maxSize q1" "brk q2 = brk q1"
    "qhead q2 = qhead q1" "qtail q2 = qtail q1" "lru_addrs key q2 ?as"
    using evict_addrs [OF a1] nn(9,10) by auto
  have sub: "set ?as \<subseteq> set as" by (cases as) auto
  have pa: "p \<notin> set (qpath q1 as)" by (rule nn(2))
  then have np: "p \<notin> set (qpath q2 ?as)" using sub q2(5,6) by (auto simp: qpath_def)
  have wf2: "wf_links q2 ?as" using q2(7) by (simp add: lru_addrs_def)
  have pb: "p < brk q2" using nn(3) q2(4) by simp
  obtain pre a where pre: "qhead q2 # ?as = pre @ [a]" by (metis list.discI rev_exhaust)
  have path: "qpath q2 ?as = pre @ a # qtail q2 # []" and new: "qpath q2 (?as @ [p]) = pre @ a # p # qtail q2 # []"
  proof -
    have "qpath q2 ?as = (qhead q2 # ?as) @ [qtail q2]" "qpath q2 (?as @ [p]) = (qhead q2 # ?as) @ [p, qtail q2]"
      by (simp_all add: qpath_def)
    then show "qpath q2 ?as = pre @ a # qtail q2 # []" "qpath q2 (?as @ [p]) = pre @ a # p # qtail q2 # []"
      unfolding pre by simp_all
  qed
  have tail: "pv q2 (qtail q2) = Some a" using wf_links_neighbours(2) [OF wf2 path] .
  obtain q3 where q3: "link_after a p q2 = Some q3" "wf_links q3 (?as @ [p])" "dat q3 = dat q2"
    "qmap q3 = qmap q2" "curSize q3 = curSize q2" "maxSize q3 = maxSize q2"
    using link_after_shape [OF wf2 path np pb new] by blast
  let ?q = "q3\<lparr>qmap := (qmap q3)(key x \<mapsto> p), curSize := curSize q3 + 1\<rparr>"
  have run: "lru_queueIn key (key x) x q = Some ?q"
    using pq q2(1) tail q3(1) by (simp add: lru_queueIn_def)
  have fresh: "key (dat q2 a) \<noteq> key x" if "a \<in> set ?as" for a
    using that sub assms(2) nn(6) q2(2) by (metis image_eqI list.set_map subsetD)
  have px: "dat q2 p = x" using nn(4) q2(2) by simp
  have npa: "p \<notin> set ?as" using np by (simp add: qpath_def)
  have "lru_addrs key ?q (?as @ [p])"
  proof -
    have "wf_links ?q (?as @ [p])" using q3(2) by (simp add: wf_links_def qpath_def)
    moreover have "curSize ?q = int (length (?as @ [p]))" "0 \<le> maxSize ?q"
      using q2(7) q3(5,6) by (simp_all add: lru_addrs_def)
    moreover have "distinct (map (\<lambda>a. key (dat q3 a)) (?as @ [p]))"
    proof -
      have "distinct (map (\<lambda>a. key (dat q2 a)) ?as)" using q2(7) by (simp add: lru_addrs_def)
      moreover have "key x \<notin> set (map (\<lambda>a. key (dat q2 a)) ?as)" using fresh by (metis (no_types, lifting) imageE list.set_map)
      ultimately show ?thesis by (simp add: q3(3) px)
    qed
    moreover have "\<forall>k a. qmap ?q k = Some a \<longleftrightarrow> a \<in> set (?as @ [p]) \<and> key (dat q3 a) = k"
      using q2(7) fresh npa by (auto simp: lru_addrs_def q3(3,4) px)
    ultimately show ?thesis unfolding lru_addrs_def by simp
  qed
  moreover have "map (dat ?q) (?as @ [p]) = map (dat q) ?as @ [x]"
    using nn(6) sub px by (auto simp: q3(3) q2(2))
  moreover have "maxSize ?q = maxSize q" using q3(6) q2(3) nn(10) by simp
  ultimately show ?thesis using run by blast
qed

interpretation lru_list: evicting_queue "lru_rep key" key "\<lambda>q. nat (maxSize q)" "\<lambda>x. lru_queueIn key (key x) x"
  for key :: "'a \<Rightarrow> string"
proof
  fix q :: "'a pqueue" and xs x
  assume "lru_rep key q xs" and n: "key x \<notin> key ` set xs"
  then obtain as where as: "lru_addrs key q as" "xs = map (dat q) as" by (auto simp: lru_rep_def)
  then obtain q' p where q': "lru_queueIn key (key x) x q = Some q'" "maxSize q' = maxSize q"
    "lru_addrs key q' ((if maxSize q < curSize q then tl as else as) @ [p])"
    "map (dat q') ((if maxSize q < curSize q then tl as else as) @ [p])
      = map (dat q) (if maxSize q < curSize q then tl as else as) @ [x]"
    using lru_queueIn_addrs [OF as(1)] n by blast
  have "maxSize q < curSize q \<longleftrightarrow> nat (maxSize q) < length xs" using as by (simp add: lru_addrs_def) linarith
  then have "map (dat q) (if maxSize q < curSize q then tl as else as) @ [x]
      = (if nat (maxSize q) < length xs then tl xs else xs) @ [x]"
    using as(2) by (simp add: map_tl)
  then show "\<exists>q'. lru_queueIn key (key x) x q = Some q' \<and> nat (maxSize q') = nat (maxSize q)
      \<and> lru_rep key q' ((if nat (maxSize q) < length xs then tl xs else xs) @ [x])"
    using q' unfolding lru_rep_def by metis
qed

lemma lru_rep_init: "0 \<le> mx \<Longrightarrow> lru_rep key (queue_init zero mx) []"
  by (auto simp: lru_rep_def lru_addrs_def wf_links_init) (simp_all add: queue_init_def)

section \<open>Properties\<close>

fun insert_entries :: "('a \<Rightarrow> string) \<Rightarrow> 'a list \<Rightarrow> 'a pqueue \<Rightarrow> 'a pqueue option" where
  "insert_entries key [] q = Some q"
| "insert_entries key (x # xs) q = Option.bind (lru_queueIn key (key x) x q) (insert_entries key xs)"

lemma insert_entries_eq: "insert_entries key xs q = lru_list.insert_all key xs q"
proof (induction xs arbitrary: q)
  case Nil
  then show ?case by simp
next
  case (Cons x xs)
  then have "insert_entries key xs = lru_list.insert_all key xs" by blast
  then show ?case by simp
qed

lemma lru_rep_curSize: "lru_rep key q xs \<Longrightarrow> curSize q = int (length xs)"
  by (auto simp: lru_rep_def lru_addrs_def)

text \<open>
  The bound of the two caches: after any number of insertions under different keys the list
  holds the last 121 transactions (301 index entries), one more than \<open>maxSize\<close>, oldest first, its
  map finds exactly these, and \<open>curSize\<close> is their number.
\<close>

theorem lru_insertions:
  assumes "distinct (map DataID txs)" and "distinct (map ix_dataID ixs)"
  shows "(\<exists>q. insert_entries DataID txs lruTx_init = Some q \<and> lru_rep DataID q (drop (length txs - 121) txs)
      \<and> curSize q \<le> 121)
    \<and> (\<exists>q. insert_entries ix_dataID ixs lruIndex_init = Some q
      \<and> lru_rep ix_dataID q (drop (length ixs - 301) ixs) \<and> curSize q \<le> 301)"
proof
  have "lru_rep DataID lruTx_init []" by (simp add: lruTx_init_def lru_rep_init)
  then obtain q where "insert_entries DataID txs lruTx_init = Some q"
    "lru_rep DataID q (drop (length txs - 121) txs)"
    using lru_list.insert_all_rep [of DataID lruTx_init "[]" txs] assms(1)
    by (auto simp: insert_entries_eq lruTx_init_def queue_init_def)
  then show "\<exists>q. insert_entries DataID txs lruTx_init = Some q
      \<and> lru_rep DataID q (drop (length txs - 121) txs) \<and> curSize q \<le> 121"
    using lru_rep_curSize by fastforce
  have "lru_rep ix_dataID lruIndex_init []" by (simp add: lruIndex_init_def lru_rep_init)
  then obtain q where "insert_entries ix_dataID ixs lruIndex_init = Some q"
    "lru_rep ix_dataID q (drop (length ixs - 301) ixs)"
    using lru_list.insert_all_rep [of ix_dataID lruIndex_init "[]" ixs] assms(2)
    by (auto simp: insert_entries_eq lruIndex_init_def queue_init_def)
  then show "\<exists>q. insert_entries ix_dataID ixs lruIndex_init = Some q
      \<and> lru_rep ix_dataID q (drop (length ixs - 301) ixs) \<and> curSize q \<le> 301"
    using lru_rep_curSize by fastforce
qed

theorem lru_insertions_witness:
  "\<exists>q. insert_entries DataID [wit_tx ''t'' ''a'' 1, wit_tx ''t'' ''b'' 2] lruTx_init = Some q
     \<and> lru_rep DataID q [wit_tx ''t'' ''a'' 1, wit_tx ''t'' ''b'' 2]"
  using lru_insertions [of "[wit_tx ''t'' ''a'' 1, wit_tx ''t'' ''b'' 2]" "[]"]
  by (auto simp: wit_tx_def SetDataID_def)

text \<open>Following \<open>next\<close> \<open>n\<close> times.\<close>

fun follow :: "(addr \<Rightarrow> ptr) \<Rightarrow> nat \<Rightarrow> addr \<Rightarrow> ptr" where
  "follow nxt 0 a = Some a"
| "follow nxt (Suc n) a = (case nxt a of None \<Rightarrow> None | Some b \<Rightarrow> follow nxt n b)"

definition three_cached :: "transaction \<Rightarrow> transaction \<Rightarrow> transaction \<Rightarrow> transaction pqueue option" where
  "three_cached x y z = do {
     q1 \<leftarrow> lruTx_queueIn ''a'' x lruTx_init;
     q2 \<leftarrow> lruTx_queueIn ''b'' y q1;
     q3 \<leftarrow> lruTx_queueIn ''c'' z q2;
     q4 \<leftarrow> lruTx_toTail ''a'' q3;
     lruTx_toTail ''b'' q4
   }"

lemma follow_cycle:
  assumes "nxt h = Some a" and "nxt a = Some b" and "nxt b = Some c" and "nxt c = Some a"
  shows "follow nxt n h \<in> Some ` {h, a, b, c} \<and> follow nxt n a \<in> Some ` {a, b, c}
    \<and> follow nxt n b \<in> Some ` {a, b, c} \<and> follow nxt n c \<in> Some ` {a, b, c}"
  using assms by (induction n) auto

lemmas lru_eval = lruTx_queueIn_def lru_queueIn_def lruTx_init_def queue_init_def new_node_def
  evict_def link_after_def lruTx_toTail_def move_to_tail_def Let_def

text \<open>
  C38. Two reads break the list: with three cached transactions, reading the first one and then the
  second one leaves a cycle. From the head, \<open>next\<close> never reaches the tail any more, so later
  evictions run round the cycle; the cause is that the move to the tail never corrects the
  \<open>pre\<close> pointer of the node after the moved one.
\<close>

theorem lru_two_reads_cycle:
  "\<exists>q. three_cached x y z = Some q \<and> curSize q = 3 \<and> (\<forall>n. follow (nx q) n (qhead q) \<noteq> Some (qtail q))"
proof -
  obtain q where q: "three_cached x y z = Some q" "curSize q = 3" "qhead q = 0" "qtail q = 1"
    "nx q 0 = Some 3" "nx q 3 = Some 4" "nx q 4 = Some 2" "nx q 2 = Some 3"
    by (simp add: three_cached_def lru_eval)
  have "follow (nx q) n (qhead q) \<in> Some ` {0, 3, 4, 2}" for n
    using follow_cycle [of "nx q" 0 3 4 2 n] q by simp
  moreover have "Some (qtail q) \<notin> Some ` {0, 3, 4, 2}" using q(4) by simp
  ultimately show ?thesis using q(1,2) by metis
qed

text \<open>The cached transactions after a new block.\<close>

lemma update_cached_tx_map:
  "qmap (listTx (update_cached_tx h lru tx)) = qmap (listTx lru)"
  "qmap (listIndex (update_cached_tx h lru tx)) = qmap (listIndex lru)"
  by (simp_all add: update_cached_tx_def Let_def split: option.split)

lemma update_cached_tx_dat:
  "dat (listTx (update_cached_tx h lru tx)) p =
     (if qmap (listTx lru) (DataID tx) = Some p then tx else dat (listTx lru) p)"
  by (simp add: update_cached_tx_def Let_def split: option.split)

text \<open>
  After \<open>updateDataCache\<close> a data ID is cached exactly if it was before, and its cached value is
  the block's last transaction with that ID if the block has one (whatever its time stamp), and
  otherwise the value from before.
\<close>

theorem cache_follows_block:
  assumes "\<And>k k' a. qmap (listTx lru) k = Some a \<Longrightarrow> qmap (listTx lru) k' = Some a \<Longrightarrow> k = k'"
  shows "getInTX k (updateDataCache b lru) =
    (case getInTX k lru of
       None \<Rightarrow> None
     | Some old \<Rightarrow> Some (last (old # filter (\<lambda>tx. DataID tx = k) (Transactions b))))"
proof -
  have "getInTX k (foldl (update_cached_tx h) lru txs) =
    (case getInTX k lru of
       None \<Rightarrow> None
     | Some old \<Rightarrow> Some (last (old # filter (\<lambda>tx. DataID tx = k) txs)))" for h txs
    using assms
  proof (induction txs arbitrary: lru)
    case Nil
    then show ?case by (simp split: option.split)
  next
    case (Cons tx txs)
    let ?l = "update_cached_tx h lru tx"
    have step: "getInTX k ?l = (case getInTX k lru of None \<Rightarrow> None
        | Some old \<Rightarrow> Some (if DataID tx = k then tx else old))"
    proof (cases "qmap (listTx lru) k")
      case None
      then show ?thesis by (simp add: getInTX_def update_cached_tx_map)
    next
      case (Some p)
      then have "qmap (listTx lru) (DataID tx) = Some p \<longleftrightarrow> DataID tx = k" using Cons.prems by blast
      then show ?thesis using Some by (simp add: getInTX_def update_cached_tx_map update_cached_tx_dat)
    qed
    have "getInTX k (foldl (update_cached_tx h) ?l txs) =
      (case getInTX k ?l of
         None \<Rightarrow> None
       | Some old \<Rightarrow> Some (last (old # filter (\<lambda>tx. DataID tx = k) txs)))"
      by (rule Cons.IH) (simp add: update_cached_tx_map, rule Cons.prems)
    then show ?case by (simp add: step split: option.split)
  qed
  then show ?thesis by (simp add: updateDataCache_def)
qed

theorem cache_follows_block_witness:
  "getInTX ''t-QAQ-a'' (updateDataCache (toy_block 2 ''d'' ''c''\<lparr>Transactions := [wit_tx ''t'' ''a'' 9, wit_tx ''t'' ''a'' 4]\<rparr>)
     (lru_init\<lparr>listTx := lruTx_init\<lparr>qmap := [''t-QAQ-a'' \<mapsto> 2], dat := (\<lambda>_. wit_tx ''t'' ''a'' 1)\<rparr>\<rparr>))
   = Some (wit_tx ''t'' ''a'' 4)"
proof -
  let ?l = "lru_init\<lparr>listTx := lruTx_init\<lparr>qmap := [''t-QAQ-a'' \<mapsto> 2], dat := (\<lambda>_. wit_tx ''t'' ''a'' 1)\<rparr>\<rparr>"
  have inj: "\<And>k k' a. qmap (listTx ?l) k = Some a \<Longrightarrow> qmap (listTx ?l) k' = Some a \<Longrightarrow> k = k'"
    by (auto split: if_splits)
  show ?thesis
    using cache_follows_block [of ?l "''t-QAQ-a''"
        "toy_block 2 ''d'' ''c''\<lparr>Transactions := [wit_tx ''t'' ''a'' 9, wit_tx ''t'' ''a'' 4]\<rparr>", OF inj]
    by (simp add: getInTX_def wit_tx_def SetDataID_def)
qed

end
