(* ===== verification/Cache_Api.thy ===== *)
theory Cache_Api
  imports Lru_Cache
begin

text \<open>
  \<open>cache/cache.go\<close>: the cache that the services read from. It combines the two bounded lists of
  \<open>Lru_Cache\<close>, the permissions and the logs of \<open>Table_Info\<close>, and as a last resort a walk over the
  whole data chain. The chains and the table database are owned by the node and passed along.
  A result in \<open>'a go option\<close> is \<open>None\<close> if the code does not return, \<open>Inl\<close> of a panic, or \<open>Inr\<close>.
\<close>

section \<open>Operations\<close>

record cache =
  lru3Query :: lru3
  tableInfo :: tables

definition cache_Init :: "'db bolt \<Rightarrow> table_block codec \<Rightarrow> 'db table_chain \<Rightarrow> cache go option" where
  "cache_Init B tcd tch =
     map_option (map_sum id (\<lambda>ts. \<lparr>lru3Query = lru_init, tableInfo = ts\<rparr>)) (tio_init B tcd tch)"

definition newest_in :: "bytes \<Rightarrow> int \<times> transaction option \<Rightarrow> block \<Rightarrow> int \<times> transaction option" where
  "newest_in dataID s block =
     foldl (\<lambda>(t, x) tx. if DataID tx = dataID \<and> t < TimeStamp tx then (TimeStamp tx, Some tx) else (t, x))
       s (Transactions block)"

partial_function (option) bolt_search ::
  "'db bolt \<Rightarrow> block codec \<Rightarrow> 'db \<Rightarrow> bytes \<Rightarrow> iterator \<Rightarrow> int \<times> transaction option \<Rightarrow>
     (transaction \<times> bytes \<times> bytes) option go option" where
  "bolt_search B cd db dataID it s =
     (case Next B cd db it of
        Inl p \<Rightarrow> Some (Inl p)
      | Inr (block, it') \<Rightarrow>
          if CurrentHash it' = genesis_mark then Some (Inr None)
          else let s' = newest_in dataID s block in
               case s' of
                 (t, x) \<Rightarrow>
                   if 0 < t
                   then (case x of
                           None \<Rightarrow> Some (Inl NilDeref)
                         | Some tx \<Rightarrow> Some (Inr (Some (tx, CurrentBlockHash block, TxID tx))))
                   else bolt_search B cd db dataID it' s')"

definition getInBoltDb :: "'db bolt \<Rightarrow> block codec \<Rightarrow> 'db data_chain \<Rightarrow> bytes \<Rightarrow>
    (transaction \<times> bytes \<times> bytes) option go option" where
  "getInBoltDb B cd dch dataID = bolt_search B cd (Db dch) dataID (CreateIterator dch) (0, None)"

definition deref :: "'a option \<Rightarrow> 'a go" where
  "deref r = (case r of None \<Rightarrow> Inl NilDeref | Some x \<Rightarrow> Inr x)"

text \<open>The new index entry of a value that was found outside the two lists.\<close>

definition remember :: "string \<Rightarrow> transaction \<times> bytes \<times> bytes \<Rightarrow> cache \<Rightarrow> (transaction option \<times> cache) go" where
  "remember dataID r c =
     (case r of (tx, blockHash, txID) \<Rightarrow>
        bind_go (deref (lruIndex_queueIn dataID blockHash txID (listIndex (lru3Query c))))
          (\<lambda>q. Inr (Some tx, c\<lparr>lru3Query := (lru3Query c)\<lparr>listIndex := q\<rparr>\<rparr>)))"

definition read_tx :: "string \<Rightarrow> transaction \<Rightarrow> cache \<Rightarrow> (transaction option \<times> cache) go" where
  "read_tx dataID tx c =
     bind_go (deref (lruTx_toTail dataID (listTx (lru3Query c))))
       (\<lambda>q. Inr (Some tx, c\<lparr>lru3Query := (lru3Query c)\<lparr>listTx := q\<rparr>\<rparr>))"

definition read_index :: "string \<Rightarrow> transaction \<Rightarrow> cache \<Rightarrow> (transaction option \<times> cache) go" where
  "read_index dataID tx c =
     bind_go (deref (lruIndex_toTail dataID (listIndex (lru3Query c)))) (\<lambda>q1.
     bind_go (deref (checkDel dataID q1)) (\<lambda>(gone, q2).
       let l = (lru3Query c)\<lparr>listIndex := q2\<rparr> in
       if gone
       then bind_go (deref (lruTx_queueIn dataID tx (listTx l)))
              (\<lambda>q3. Inr (Some tx, c\<lparr>lru3Query := l\<lparr>listTx := q3\<rparr>\<rparr>))
       else Inr (Some tx, c\<lparr>lru3Query := l\<rparr>)))"

definition GetOneValue :: "'db bolt \<Rightarrow> block codec \<Rightarrow> 'db data_chain \<Rightarrow> 'db \<Rightarrow> string \<Rightarrow> string \<Rightarrow> cache \<Rightarrow>
    (transaction option \<times> cache) go option" where
  "GetOneValue B cd dch db dataID tableName c =
     (case getInTX dataID (lru3Query c) of
        Some tx \<Rightarrow> Some (read_tx dataID tx c)
      | None \<Rightarrow>
     (case getInIndex B cd dch dataID (lru3Query c) of
        Inl p \<Rightarrow> Some (Inl p)
      | Inr (Some tx) \<Rightarrow> Some (read_index dataID tx c)
      | Inr None \<Rightarrow>
     (case getInTableHashChain B cd dch db dataID tableName of
        None \<Rightarrow> None
      | Some (Inl p) \<Rightarrow> Some (Inl p)
      | Some (Inr (Some r)) \<Rightarrow> Some (remember dataID r c)
      | Some (Inr None) \<Rightarrow>
     (case getInBoltDb B cd dch dataID of
        None \<Rightarrow> None
      | Some (Inl p) \<Rightarrow> Some (Inl p)
      | Some (Inr (Some r)) \<Rightarrow> Some (remember dataID r c)
      | Some (Inr None) \<Rightarrow> Some (Inr (None, c))))))"

definition GetHistoryValue :: "'db bolt \<Rightarrow> block codec \<Rightarrow> 'db data_chain \<Rightarrow> 'db \<Rightarrow> string \<Rightarrow> string \<Rightarrow>
    (string + transaction list) go option" where
  "GetHistoryValue B cd dch db dataID tableName = getHistoryInTableHashChain B cd dch db dataID tableName"

definition cache_GetTableData :: "'db bolt \<Rightarrow> block codec \<Rightarrow> 'db data_chain \<Rightarrow> 'db \<Rightarrow> string \<Rightarrow>
    (string \<rightharpoonup> transaction) go option" where
  "cache_GetTableData B cd dch db tableName = tio_getTableData B cd dch db tableName"

definition UpdateByDataBlock :: "'db bolt \<Rightarrow> block \<Rightarrow> cache \<times> 'db \<Rightarrow> (cache \<times> 'db) go" where
  "UpdateByDataBlock B block s =
     (case s of (c, db) \<Rightarrow>
        let c' = c\<lparr>lru3Query := updateDataCache block (lru3Query c)\<rparr>
        in bind_go (upDateByData B block db) (\<lambda>db'. Inr (c', db')))"

definition UpdateByTableBlock :: "'db bolt \<Rightarrow> table_block \<Rightarrow> cache \<times> 'db \<Rightarrow> (cache \<times> 'db) go" where
  "UpdateByTableBlock B block s =
     (case s of (c, db) \<Rightarrow>
        bind_go (upDateByTables B block (tableInfo c, db)) (\<lambda>(ts, db'). Inr (c\<lparr>tableInfo := ts\<rparr>, db')))"

definition CheckPermission :: "cache \<Rightarrow> string \<Rightarrow> string \<Rightarrow> string \<times> string option" where
  "CheckPermission c address tableName = checkPermission (tableInfo c) address tableName"

definition MyTables :: "cache \<Rightarrow> string \<Rightarrow> string + (string \<rightharpoonup> string)" where
  "MyTables c address = uerTables (tableInfo c) address"

section \<open>Properties\<close>

text \<open>
  The lists are keyed by the data ID alone, and different items can have the same ID (the key
  may contain the separator): if an item is cached, \<open>GetOneValue\<close> returns the cached transaction
  for every table name, also for a name that is no table at all.
\<close>

theorem cached_value_ignores_table:
  assumes "getInTX (Table tx @ ''-QAQ-'' @ Key tx) (lru3Query c) = Some tx"
    and "t @ ''-QAQ-'' @ k = Table tx @ ''-QAQ-'' @ Key tx"
  shows "GetOneValue B cd dch db (t @ ''-QAQ-'' @ k) t c = GetOneValue B cd dch db (Table tx @ ''-QAQ-'' @ Key tx) (Table tx) c
    \<and> GetOneValue B cd dch db (t @ ''-QAQ-'' @ k) t c = Some (read_tx (DataID (SetDataID tx)) tx c)"
  unfolding assms(2) using assms(1) by (simp add: GetOneValue_def SetDataID_def)

definition one_cached :: "transaction \<Rightarrow> cache" where
  "one_cached tx = \<lparr>lru3Query = lru_init\<lparr>listTx := the (lruTx_queueIn (DataID tx) tx lruTx_init)\<rparr>, tableInfo = Map.empty\<rparr>"

theorem cached_value_ignores_table_witness:
  "\<exists>c'. GetOneValue map_bolt (toy_codec toy_blocks) toy_chain toy_db ''a-QAQ-b-QAQ-c'' ''a'' (one_cached (wit_tx ''a-QAQ-b'' ''c'' 5))
     = Some (Inr (Some (wit_tx ''a-QAQ-b'' ''c'' 5), c'))"
proof -
  let ?tx = "wit_tx ''a-QAQ-b'' ''c'' 5" and ?id = "''a-QAQ-b-QAQ-c''"
  have f: "Table ?tx = ''a-QAQ-b''" "Key ?tx = ''c''" "DataID ?tx = ?id"
    by (simp_all add: wit_tx_def SetDataID_def)
  have q: "getInTX (Table ?tx @ ''-QAQ-'' @ Key ?tx) (lru3Query (one_cached ?tx)) = Some ?tx"
    unfolding f by (simp add: one_cached_def f lru_eval getInTX_def lru_init_def)
  have e: "''a'' @ ''-QAQ-'' @ ''b-QAQ-c'' = Table ?tx @ ''-QAQ-'' @ Key ?tx" unfolding f by simp
  have "\<exists>c'. read_tx (DataID (SetDataID ?tx)) ?tx (one_cached ?tx) = Inr (Some ?tx, c')"
    by (simp add: SetDataID_def f read_tx_def one_cached_def lru_eval deref_def lru_init_def)
  then obtain c' where c': "read_tx (DataID (SetDataID ?tx)) ?tx (one_cached ?tx) = Inr (Some ?tx, c')" ..
  have "GetOneValue map_bolt (toy_codec toy_blocks) toy_chain toy_db (''a'' @ ''-QAQ-'' @ ''b-QAQ-c'') ''a'' (one_cached ?tx)
      = Some (Inr (Some ?tx, c'))"
    unfolding c' [symmetric] by (rule cached_value_ignores_table [OF q e, THEN conjunct2])
  then show ?thesis by simp
qed

lemma foldl_pick:
  "tx \<in> set txs \<Longrightarrow> (\<And>x. x \<in> set txs \<Longrightarrow> TxID x = TxID tx \<Longrightarrow> x = tx) \<Longrightarrow>
   foldl (\<lambda>a x. if TxID x = TxID tx then x else a) z txs = tx"
proof (induction txs arbitrary: z rule: rev_induct)
  case Nil
  then show ?case by simp
next
  case (snoc y ys)
  then show ?case by (cases "TxID y = TxID tx") auto
qed

text \<open>
  Reading an item that is in neither list: \<open>GetOneValue\<close> returns the newest value of the table's
  log (see the theorem on \<open>getInTableHashChain\<close>) and remembers its place; the next read finds it through the
  index and returns the same transaction, if no other transaction of its block has its \<open>TxID\<close>.
\<close>

theorem read_twice:
  assumes rep: "log_rep B db n hs" and rd: "readable B cd dch hs blk"
    and nt: "getInTX dataID (lru3Query c) = None" and ni: "qmap (listIndex (lru3Query c)) dataID = None"
    and ix: "lru_rep ix_dataID (listIndex (lru3Query c)) xs"
    and b: "find (\<lambda>b. dated dataID b \<noteq> []) (map blk (rev hs)) = Some b"
    and st: "tio_getBlock B cd dch (CurrentBlockHash b) = Inr b"
    and un: "distinct (map TxID (Transactions b))"
  shows "\<exists>tx c1 c2. tx \<in> set (dated dataID b) \<and> (\<forall>tx' \<in> set (dated dataID b). TimeStamp tx' \<le> TimeStamp tx)
    \<and> GetOneValue B cd dch db dataID n c = Some (Inr (Some tx, c1))
    \<and> GetOneValue B cd dch db dataID n c1 = Some (Inr (Some tx, c2))"
proof -
  obtain tx where tx: "tx \<in> set (dated dataID b)" "\<forall>tx' \<in> set (dated dataID b). TimeStamp tx' \<le> TimeStamp tx"
    and g: "getInTableHashChain B cd dch db dataID n = Some (Inr (Some (tx, CurrentBlockHash b, TxID tx)))"
    using newest_value [OF rep rd, of dataID] b by auto
  let ?ix = "\<lparr>ix_blockHash = CurrentBlockHash b, ix_txID = TxID tx, ix_count = 1, ix_dataID = dataID\<rparr>"
  obtain as where as: "lru_addrs ix_dataID (listIndex (lru3Query c)) as" "xs = map (dat (listIndex (lru3Query c))) as"
    using ix by (auto simp: lru_rep_def)
  have fresh: "ix_dataID ?ix \<notin> ix_dataID ` set (map (dat (listIndex (lru3Query c))) as)"
  proof -
    have "\<forall>a \<in> set as. ix_dataID (dat (listIndex (lru3Query c)) a) \<noteq> dataID"
      using as(1) ni unfolding lru_addrs_def by (metis option.distinct(1))
    then show ?thesis by auto
  qed
  obtain q p as' where q: "lru_queueIn ix_dataID dataID ?ix (listIndex (lru3Query c)) = Some q"
    "lru_addrs ix_dataID q (as' @ [p])" "dat q p = ?ix"
  proof -
    let ?as = "if maxSize (listIndex (lru3Query c)) < curSize (listIndex (lru3Query c)) then tl as else as"
    obtain q p where "lru_queueIn ix_dataID (ix_dataID ?ix) ?ix (listIndex (lru3Query c)) = Some q"
      "lru_addrs ix_dataID q (?as @ [p])" "map (dat q) (?as @ [p]) = map (dat (listIndex (lru3Query c))) ?as @ [?ix]"
      using lru_queueIn_addrs [OF as(1) fresh] by blast
    then show thesis using that [of q ?as p] by simp
  qed
  let ?c1 = "c\<lparr>lru3Query := (lru3Query c)\<lparr>listIndex := q\<rparr>\<rparr>"
  have "getInIndex B cd dch dataID (lru3Query c) = Inr None" by (simp add: getInIndex_def ni)
  then have first: "GetOneValue B cd dch db dataID n c = Some (Inr (Some tx, ?c1))"
    by (simp add: GetOneValue_def nt g remember_def lruIndex_queueIn_def q(1) deref_def)
  have m: "qmap q dataID = Some p" using q(2,3) by (simp add: lru_addrs_def)
  have bucket: "has_bucket B (Db dch) (BlockBucket dch)"
    "Deserialize cd (bolt_get B (Db dch) (BlockBucket dch) (CurrentBlockHash b)) = Inr b"
    using st by (simp_all add: tio_getBlock_def split: if_splits)
  have txb: "tx \<in> set (Transactions b)" using tx(1) by (simp add: dated_def)
  have "foldl (\<lambda>a x. if TxID x = TxID tx then x else a) zero_tx (Transactions b) = tx"
    using txb un by (intro foldl_pick) (auto simp: distinct_map inj_on_def)
  then have gi: "getInIndex B cd dch dataID (lru3Query ?c1) = Inr (Some tx)"
    using bucket m q(3) by (simp add: getInIndex_def Let_def)
  have nt1: "getInTX dataID (lru3Query ?c1) = None" using nt by (simp add: getInTX_def)
  have wf: "wf_links q (as' @ [p])" using q(2) by (simp add: lru_addrs_def)
  have tail: "pv q (qtail q) = Some p" using wf_links_ends(1) [OF wf] by simp
  have "\<exists>c2. read_index dataID tx ?c1 = Inr (Some tx, c2)"
    using m tail q(3) by (simp add: read_index_def lruIndex_toTail_def checkDel_def deref_def Let_def)
  then obtain c2 where "GetOneValue B cd dch db dataID n ?c1 = Some (Inr (Some tx, c2))"
    using nt1 gi by (auto simp: GetOneValue_def)
  then show ?thesis using first tx by blast
qed

theorem read_twice_witness:
  "\<exists>c1 c2. GetOneValue map_bolt (toy_codec [wit_block]) toy_chain wit_db ''tab-QAQ-k'' ''tab''
        \<lparr>lru3Query = lru_init, tableInfo = Map.empty\<rparr> = Some (Inr (Some (wit_tx ''tab'' ''k'' 5), c1))
    \<and> GetOneValue map_bolt (toy_codec [wit_block]) toy_chain wit_db ''tab-QAQ-k'' ''tab'' c1
      = Some (Inr (Some (wit_tx ''tab'' ''k'' 5), c2))"
proof -
  let ?c = "\<lparr>lru3Query = lru_init, tableInfo = Map.empty\<rparr>"
  have d: "dated ''tab-QAQ-k'' wit_block = [wit_tx ''tab'' ''k'' 5]"
    by (simp add: dated_def wit_block_def wit_tx_def SetDataID_def)
  have i: "lru_rep ix_dataID (listIndex (lru3Query ?c)) []"
    by (simp add: lru_init_def lruIndex_init_def lru_rep_init)
  have e: "getInTX ''tab-QAQ-k'' (lru3Query ?c) = None" "qmap (listIndex (lru3Query ?c)) ''tab-QAQ-k'' = None"
    by (simp_all add: lru_init_def lruIndex_init_def lruTx_init_def queue_init_def getInTX_def)
  have s: "tio_getBlock map_bolt (toy_codec [wit_block]) toy_chain (CurrentBlockHash wit_block) = Inr wit_block"
    using wit_readable by (simp add: readable_def wit_block_def toy_block_def)
  have f: "find (\<lambda>b. dated ''tab-QAQ-k'' b \<noteq> []) (map (\<lambda>_. wit_block) (rev [''c''])) = Some wit_block"
    by (simp add: d)
  have u: "distinct (map TxID (Transactions wit_block))"
    by (simp add: wit_block_def wit_tx_def SetDataID_def)
  show ?thesis using read_twice [OF wit_rep wit_readable e i f s u] by (simp add: d)
qed

end
