(* ===== verification/Sortition.thy ===== *)
theory Sortition
  imports Complex_Main Hash_Types
begin

text \<open>
  Cryptographic sortition: \<open>util/binomial.go\<close> (the two binomial distributions) and the sortition
  functions of \<open>algorand/algorand.go\<close>: \<open>subUsers\<close>, \<open>maxPriority\<close>, \<open>Role\<close>, \<open>constructSeed\<close>,
  \<open>emptyHash\<close>. Rationals are \<open>big.Rat\<close>; the float \<open>e\<close> to the power \<open>-expected\<close> is the parameter
  \<open>epow\<close>. The probability caches only save time and are not modelled. SHA-256 is a parameter.
\<close>

section \<open>The distributions\<close>

record approx_binomial =
  expected :: int
  ab_N :: uint64

definition NewApproxBinomial :: "int \<Rightarrow> uint64 \<Rightarrow> approx_binomial" where
  "NewApproxBinomial e n = \<lparr>expected = e, ab_N = n\<rparr>"

definition ab_Prob :: "(int \<Rightarrow> rat) \<Rightarrow> approx_binomial \<Rightarrow> nat \<Rightarrow> rat" where
  "ab_Prob epow ab k = (of_int (expected ab ^ k) / of_nat (fact k)) * epow (expected ab)"

definition ab_CDF :: "(int \<Rightarrow> rat) \<Rightarrow> approx_binomial \<Rightarrow> int \<Rightarrow> rat" where
  "ab_CDF epow ab k =
     (if k < 0 then 0
      else if ab_N ab \<le> word_of_int k then 1
      else sum_list (map (ab_Prob epow ab) [0..<Suc (nat k)]))"

text \<open>
  \<open>RegularBinomial\<close>, which the code keeps but no longer uses: parameters \<open>n\<close> and \<open>pn / pd\<close>. Its
  \<open>Exp\<close> is modelled as the power it computes by splitting the exponent.
\<close>

record regular_binomial =
  rb_N :: int
  pn :: int
  pd :: int

definition NewBinomial :: "int \<Rightarrow> int \<Rightarrow> int \<Rightarrow> regular_binomial" where
  "NewBinomial n a b = \<lparr>rb_N = n, pn = a, pd = b\<rparr>"

text \<open>\<open>Exp\<close> splits \<open>y\<close> into \<open>Floor(Sqrt(y))\<close> and the rest.\<close>

definition floor_sqrt :: "nat \<Rightarrow> nat" where
  "floor_sqrt y = length (takeWhile (\<lambda>m. m * m \<le> y) [1..<Suc y])"

lemma floor_sqrt_bounds:
  assumes "2 < y"
  shows "0 < floor_sqrt y" and "floor_sqrt y < y"
proof -
  let ?l = "[1..<Suc y]" and ?P = "\<lambda>m. m * m \<le> y"
  have "?l = 1 # [2..<Suc y]" using assms by (simp add: upt_rec numeral_2_eq_2)
  then show "0 < floor_sqrt y" using assms by (simp add: floor_sqrt_def)
  show "floor_sqrt y < y"
  proof (rule ccontr)
    assume "\<not> floor_sqrt y < y"
    then have "length ?l \<le> length (takeWhile ?P ?l)" by (simp add: floor_sqrt_def del: upt_Suc)
    then have "takeWhile ?P ?l = ?l" by (metis take_all takeWhile_eq_take)
    then have "\<forall>m \<in> set ?l. ?P m" by (simp only: takeWhile_eq_all_conv)
    moreover have "y \<in> set ?l" using assms by simp
    ultimately have "y * y \<le> y" by blast
    then show False using assms by (simp add: mult_le_cancel2)
  qed
qed

function rb_Exp :: "int \<Rightarrow> nat \<Rightarrow> int" where
  "rb_Exp x y =
     (if y = 0 then 1 else if y = 1 then x else if y = 2 then x * x
      else let ly = floor_sqrt y; ry = y - ly in rb_Exp x ly * rb_Exp x ry)"
  by auto

termination rb_Exp
proof (relation "measure snd", goal_cases)
  case 1
  then show ?case by simp
next
  case (2 x y ly ry)
  then show ?case using floor_sqrt_bounds(2) [of y] by simp
next
  case (3 x y ly ry)
  then show ?case using floor_sqrt_bounds(1) [of y] by simp
qed

declare rb_Exp.simps [simp del]

definition rb_resDenom :: "regular_binomial \<Rightarrow> int" where
  "rb_resDenom b = rb_Exp (pd b) (nat (rb_N b))"

definition rb_Prob :: "regular_binomial \<Rightarrow> nat \<Rightarrow> rat" where
  "rb_Prob b k =
     of_nat (nat (rb_N b) choose k)
     * (of_int (rb_Exp (pn b) k * rb_Exp (pd b - pn b) (nat (rb_N b) - k)) / of_int (rb_resDenom b))"

definition rb_CDF :: "regular_binomial \<Rightarrow> int \<Rightarrow> rat" where
  "rb_CDF b j =
     (if j < 0 then 0 else if rb_N b \<le> j then 1 else sum_list (map (rb_Prob b) [0..<Suc (nat j)]))"

definition rb_Probability :: "regular_binomial \<Rightarrow> rat" where
  "rb_Probability b = of_int (pn b) / of_int (pd b)"

section \<open>Sub-users and priorities\<close>

text \<open>The loop of \<open>subUsers\<close>: \<open>up\<close> is the upper bound left by the previous iteration, if any.\<close>

function sub_users_loop :: "(int \<Rightarrow> rat) \<Rightarrow> rat \<Rightarrow> nat \<Rightarrow> rat option \<Rightarrow> nat \<Rightarrow> nat" where
  "sub_users_loop cdf h weight up j =
     (if j \<le> weight
      then let lower = (case up of Some u \<Rightarrow> u | None \<Rightarrow> cdf (int j));
               upper = cdf (int (j + 1))
           in if lower \<le> h \<and> h < upper then j
              else sub_users_loop cdf h weight (Some upper) (j + 1)
      else j)"
  by auto
termination
  by (relation "measure (\<lambda>(cdf, h, weight, up, j). Suc weight - j)") auto

declare sub_users_loop.simps [simp del]

definition vrf_fraction :: "bytes \<Rightarrow> rat" where
  "vrf_fraction vrf = of_nat (be_nat vrf) / 2 ^ (HashLength * 8)"

definition subUsers :: "(int \<Rightarrow> rat) \<Rightarrow> int \<Rightarrow> uint64 \<Rightarrow> bytes \<Rightarrow> int" where
  "subUsers epow expectedNum weight vrf =
     (let j = sub_users_loop (ab_CDF epow (NewApproxBinomial expectedNum weight)) (vrf_fraction vrf)
                (unat weight) None 0
      in if unat weight < j then 0 else int j)"

definition priority_hash :: "(bytes \<Rightarrow> bytes) \<Rightarrow> bytes \<Rightarrow> nat \<Rightarrow> bytes" where
  "priority_hash sha vrf i = sha (vrf @ Uint2Bytes (of_nat i))"

definition maxPriority :: "(bytes \<Rightarrow> bytes) \<Rightarrow> bytes \<Rightarrow> int \<Rightarrow> bytes" where
  "maxPriority sha vrf users =
     foldl (\<lambda>m i. let prior = priority_hash sha vrf i in if m < prior then prior else m) []
       [1..<Suc (nat users)]"

definition Role :: "string \<Rightarrow> uint64 \<Rightarrow> int \<Rightarrow> bytes" where
  "Role iden rnd step = iden @ Uint2Bytes rnd @ Uint2Bytes (word_of_int step)"

definition constructSeed :: "bytes \<Rightarrow> bytes \<Rightarrow> bytes" where
  "constructSeed seed role = seed @ role"

definition emptyHash :: "(bytes \<Rightarrow> bytes) \<Rightarrow> uint64 \<Rightarrow> bytes \<Rightarrow> bytes" where
  "emptyHash sha rnd prev = sha (Uint2Bytes rnd @ prev)"

section \<open>Properties\<close>

lemma rb_Exp_power: "rb_Exp x y = x ^ y"
proof (induction x y rule: rb_Exp.induct)
  case (1 x y)
  show ?case
  proof (cases "y \<le> 2")
    case True
    then have "y = 0 \<or> y = 1 \<or> y = 2" by linarith
    then show ?thesis by (auto simp: rb_Exp.simps [of x y] power2_eq_square)
  next
    case False
    have "floor_sqrt y + (y - floor_sqrt y) = y" using False floor_sqrt_bounds [of y] by simp
    then have "x ^ floor_sqrt y * x ^ (y - floor_sqrt y) = x ^ y" by (metis power_add)
    moreover have "rb_Exp x y = rb_Exp x (floor_sqrt y) * rb_Exp x (y - floor_sqrt y)"
      using False by (simp add: rb_Exp.simps [of x y] Let_def)
    ultimately show ?thesis using 1 False by auto
  qed
qed

lemma rb_Prob_eq:
  assumes "0 < d" and "k \<le> nat n"
  shows "rb_Prob (NewBinomial n a d) k = of_nat (nat n choose k)
    * (of_int a / of_int d) ^ k * (1 - of_int a / of_int d) ^ (nat n - k)"
proof -
  have "(1 - of_int a / of_int d :: rat) = of_int (d - a) / of_int d" using assms(1) by (simp add: field_simps)
  moreover have "(of_int d :: rat) ^ nat n = of_int d ^ k * of_int d ^ (nat n - k)"
    using assms(2) by (simp flip: power_add)
  ultimately show ?thesis using assms(1)
    by (simp add: rb_Prob_def NewBinomial_def rb_Exp_power rb_resDenom_def power_divide field_simps)
qed

text \<open>
  \<open>RegularBinomial\<close> is the binomial distribution: \<open>Prob k\<close> is \<open>(n choose k) p^k (1-p)^(n-k)\<close>
  with \<open>p = pn / pd\<close>, and \<open>CDF j\<close> sums it up to \<open>j\<close>, reaching 1 at \<open>n\<close> as the sum does.
\<close>

theorem regular_binomial_correct:
  assumes "0 \<le> n" and "0 < d" and "0 \<le> j" and "j \<le> n"
  shows "rb_CDF (NewBinomial n a d) j =
    (\<Sum>k\<le>nat j. of_nat (nat n choose k) * (of_int a / of_int d) ^ k * (1 - of_int a / of_int d) ^ (nat n - k))"
proof -
  let ?p = "of_int a / of_int d :: rat"
  have eq: "(\<Sum>k\<le>nat j. rb_Prob (NewBinomial n a d) k) =
      (\<Sum>k\<le>nat j. of_nat (nat n choose k) * ?p ^ k * (1 - ?p) ^ (nat n - k))"
    by (rule sum.cong) (use assms in \<open>auto intro!: rb_Prob_eq\<close>)
  show ?thesis
  proof (cases "j = n")
    case True
    have "(\<Sum>k\<le>nat n. of_nat (nat n choose k) * ?p ^ k * (1 - ?p) ^ (nat n - k)) = (?p + (1 - ?p)) ^ nat n"
      by (simp only: binomial_ring)
    then show ?thesis using True assms by (simp add: rb_CDF_def NewBinomial_def)
  next
    case False
    have "sum_list (map (rb_Prob (NewBinomial n a d)) [0..<Suc (nat j)]) = (\<Sum>k\<le>nat j. rb_Prob (NewBinomial n a d) k)"
      by (simp only: interv_sum_list_conv_sum_set_nat set_upt atLeast0LessThan lessThan_Suc_atMost)
    then show ?thesis using False assms eq by (simp add: rb_CDF_def NewBinomial_def)
  qed
qed

theorem regular_binomial_correct_witness:
  "rb_CDF (NewBinomial 2 1 2) 1 = 3 / 4"
  using regular_binomial_correct [of 2 2 1 1] by (simp add: numeral_2_eq_2)

lemma sub_users_loop_least:
  "up = None \<or> up = Some (cdf (int j)) \<Longrightarrow>
   (let r = sub_users_loop cdf h weight up j in
     (r \<le> weight \<longrightarrow> j \<le> r \<and> cdf (int r) \<le> h \<and> h < cdf (int (r + 1))
        \<and> (\<forall>i. j \<le> i \<and> i < r \<longrightarrow> \<not> (cdf (int i) \<le> h \<and> h < cdf (int (i + 1)))))
   \<and> (weight < r \<longrightarrow> (\<forall>i. j \<le> i \<and> i \<le> weight \<longrightarrow> \<not> (cdf (int i) \<le> h \<and> h < cdf (int (i + 1))))))"
proof (induction "Suc weight - j" arbitrary: up j rule: less_induct)
  case less
  have low: "(case up of Some u \<Rightarrow> u | None \<Rightarrow> cdf (int j)) = cdf (int j)" using less.prems by auto
  show ?case
  proof (cases "j \<le> weight \<and> \<not> (cdf (int j) \<le> h \<and> h < cdf (int (j + 1)))")
    case False
    then show ?thesis using low by (auto simp: sub_users_loop.simps [of cdf h weight up j] Let_def)
  next
    case True
    have r: "sub_users_loop cdf h weight up j = sub_users_loop cdf h weight (Some (cdf (int (j + 1)))) (j + 1)"
    proof -
      have jw: "j \<le> weight" and ng: "\<not> (cdf (int j) \<le> h \<and> h < cdf (int (j + 1)))" using True by auto
      show ?thesis by (subst sub_users_loop.simps) (simp only: Let_def low jw ng if_True if_False)
    qed
    let ?r = "sub_users_loop cdf h weight (Some (cdf (int (j + 1)))) (j + 1)"
    have ih: "(?r \<le> weight \<longrightarrow> j + 1 \<le> ?r \<and> cdf (int ?r) \<le> h \<and> h < cdf (int (?r + 1))
        \<and> (\<forall>i. j + 1 \<le> i \<and> i < ?r \<longrightarrow> \<not> (cdf (int i) \<le> h \<and> h < cdf (int (i + 1)))))
      \<and> (weight < ?r \<longrightarrow> (\<forall>i. j + 1 \<le> i \<and> i \<le> weight \<longrightarrow> \<not> (cdf (int i) \<le> h \<and> h < cdf (int (i + 1)))))"
    proof -
      have "Suc weight - (j + 1) < Suc weight - j" using True by linarith
      then show ?thesis
        using less.hyps [of "j + 1" "Some (cdf (int (j + 1)))"] unfolding Let_def by blast
    qed
    have ng: "\<not> (cdf (int j) \<le> h \<and> h < cdf (int (j + 1)))" using True by simp
    have up: "\<not> (cdf (int i) \<le> h \<and> h < cdf (int (i + 1)))"
      if "j \<le> i" "j + 1 \<le> i \<Longrightarrow> \<not> (cdf (int i) \<le> h \<and> h < cdf (int (i + 1)))" for i
      using that ng by (cases "i = j") auto
    show ?thesis unfolding r Let_def
    proof (intro conjI impI)
      assume le: "?r \<le> weight"
      then show "j \<le> ?r" using ih by simp
      show "cdf (int ?r) \<le> h" "h < cdf (int (?r + 1))" using ih le by blast+
      show "\<forall>i. j \<le> i \<and> i < ?r \<longrightarrow> \<not> (cdf (int i) \<le> h \<and> h < cdf (int (i + 1)))"
        using ih le up by blast
    next
      assume "weight < ?r"
      then show "\<forall>i. j \<le> i \<and> i \<le> weight \<longrightarrow> \<not> (cdf (int i) \<le> h \<and> h < cdf (int (i + 1)))"
        using ih up by blast
    qed
  qed
qed

definition hit :: "(int \<Rightarrow> rat) \<Rightarrow> int \<Rightarrow> uint64 \<Rightarrow> bytes \<Rightarrow> nat \<Rightarrow> bool" where
  "hit epow expectedNum weight vrf j \<longleftrightarrow>
     ab_CDF epow (NewApproxBinomial expectedNum weight) (int j) \<le> vrf_fraction vrf
     \<and> vrf_fraction vrf < ab_CDF epow (NewApproxBinomial expectedNum weight) (int (j + 1))"

lemma subUsers_spec:
  "0 \<le> subUsers epow expectedNum weight vrf \<and> subUsers epow expectedNum weight vrf \<le> uint weight
   \<and> (if \<exists>j \<le> unat weight. hit epow expectedNum weight vrf j
      then hit epow expectedNum weight vrf (nat (subUsers epow expectedNum weight vrf))
         \<and> (\<forall>j < nat (subUsers epow expectedNum weight vrf). \<not> hit epow expectedNum weight vrf j)
      else subUsers epow expectedNum weight vrf = 0)"
proof -
  define r where "r = sub_users_loop (ab_CDF epow (NewApproxBinomial expectedNum weight)) (vrf_fraction vrf)
    (unat weight) None 0"
  have s: "subUsers epow expectedNum weight vrf = (if unat weight < r then 0 else int r)"
    by (simp only: subUsers_def r_def Let_def)
  have l: "(r \<le> unat weight \<longrightarrow> hit epow expectedNum weight vrf r
        \<and> (\<forall>i < r. \<not> hit epow expectedNum weight vrf i))
      \<and> (unat weight < r \<longrightarrow> (\<forall>i \<le> unat weight. \<not> hit epow expectedNum weight vrf i))"
    using sub_users_loop_least [of None "ab_CDF epow (NewApproxBinomial expectedNum weight)" 0
        "vrf_fraction vrf" "unat weight"]
    unfolding hit_def r_def Let_def by blast
  show ?thesis
  proof (cases "r \<le> unat weight")
    case True
    then have "int r \<le> uint weight" by (metis nat_int_comparison(3) uint_nat)
    then show ?thesis using True l s by auto
  next
    case False
    then show ?thesis using l s by auto
  qed
qed

text \<open>
  C40. \<open>subUsers\<close> always ends and never selects more sub-users than the weight; it returns the least
  \<open>j\<close> up to the weight whose interval between the distribution's values at \<open>j\<close> and \<open>j + 1\<close>
  contains the VRF output as a fraction, and 0 if there is none.
\<close>

theorem sub_users_correct:
  "0 \<le> subUsers epow expectedNum weight vrf \<and> subUsers epow expectedNum weight vrf \<le> uint weight
   \<and> (if \<exists>j \<le> unat weight. hit epow expectedNum weight vrf j
      then hit epow expectedNum weight vrf (nat (subUsers epow expectedNum weight vrf))
         \<and> (\<forall>j < nat (subUsers epow expectedNum weight vrf). \<not> hit epow expectedNum weight vrf j)
      else subUsers epow expectedNum weight vrf = 0)"
  by (rule subUsers_spec)

text \<open>With a distribution that is 0 up to the weight 50, an output of 0 hits 49 and not 0.\<close>

lemma toy_hit: "hit (\<lambda>_. 0) n 50 [] 49 \<and> \<not> hit (\<lambda>_. 0) n 50 [] 0 \<and> (\<exists>j \<le> unat (50 :: uint64). hit (\<lambda>_. 0) n 50 [] j)"
proof -
  have z: "sum_list (map (ab_Prob (\<lambda>_. 0) ab) ks) = 0" for ab ks
    by (induction ks) (simp_all add: ab_Prob_def)
  have cdf: "ab_CDF (\<lambda>_. 0) (NewApproxBinomial n 50) (int k) = (if k < 50 then 0 else 1)" if "k < 60" for k
    using that z by (auto simp: ab_CDF_def NewApproxBinomial_def word_le_nat_alt unat_of_nat simp del: upt_Suc)
  have h: "hit (\<lambda>_. 0) n 50 [] 49" using cdf [of 49] cdf [of 50] by (simp add: hit_def vrf_fraction_def)
  moreover have "\<not> hit (\<lambda>_. 0) n 50 [] 0" using cdf [of 1] by (simp add: hit_def vrf_fraction_def)
  moreover have "\<exists>j \<le> unat (50 :: uint64). hit (\<lambda>_. 0) n 50 [] j" using h by (intro exI [of _ 49]) simp
  ultimately show ?thesis by blast
qed

theorem sub_users_correct_witness: "1 \<le> subUsers (\<lambda>_. 0) 10 50 []"
proof -
  have e: "\<exists>j \<le> unat (50 :: uint64). hit (\<lambda>_. 0) 10 50 [] j" using toy_hit by blast
  have "hit (\<lambda>_. 0) 10 50 [] (nat (subUsers (\<lambda>_. 0) 10 50 []))"
    using sub_users_correct [of "\<lambda>_. 0" 10 50 "[]"] unfolding if_P [OF e] by blast
  then have "nat (subUsers (\<lambda>_. 0) 10 50 []) \<noteq> 0" using toy_hit [of 10] by metis
  then show ?thesis by simp
qed

lemma foldl_max:
  "foldl (\<lambda>m i. let p = f i in if m < p then p else m) a xs = Max (insert (a :: 'a :: linorder) (f ` set xs))"
proof (induction xs arbitrary: a)
  case Nil
  then show ?case by simp
next
  case (Cons x xs)
  have "Max (insert (max a (f x)) (f ` set xs)) = Max (insert a (insert (f x) (f ` set xs)))"
    by (cases "f ` set xs = {}") (simp_all add: max.assoc)
  moreover have "(if a < f x then f x else a) = max a (f x)" by (auto simp: max_def)
  ultimately show ?case using Cons.IH [of "max a (f x)"] by (simp add: Let_def)
qed

text \<open>
  \<open>maxPriority\<close> is the largest, in the order of byte strings, of the hashes of the VRF output
  with the numbers 1 to \<open>users\<close>, and empty without sub-users; so a proposer's priority is empty
  exactly if it was not selected.
\<close>

theorem max_priority_correct:
  assumes "\<And>b. length (sha b) = 32"
  shows "maxPriority sha vrf users =
      (if users \<le> 0 then [] else Max ((\<lambda>i. sha (vrf @ Uint2Bytes (of_nat i))) ` {1..nat users}))
    \<and> (maxPriority sha vrf users = [] \<longleftrightarrow> users \<le> 0)"
proof -
  let ?S = "(\<lambda>i. sha (vrf @ Uint2Bytes (of_nat i))) ` {1..nat users}"
  have m: "maxPriority sha vrf users = Max (insert [] ?S)"
    unfolding maxPriority_def foldl_max priority_hash_def
    by (simp only: set_upt atLeastLessThanSuc_atLeastAtMost)
  show ?thesis
  proof (cases "users \<le> 0")
    case True
    then show ?thesis using m by simp
  next
    case False
    then have ne: "?S \<noteq> {}" "finite ?S" by auto
    have "Max ?S \<in> ?S" using ne by (intro Max_in) auto
    then have "length (Max ?S) = 32" using assms by auto
    then have "Max ?S \<noteq> []" by auto
    moreover have "Max (insert [] ?S) = Max ?S" using ne by (simp add: max_def)
    ultimately show ?thesis using m False by simp
  qed
qed

theorem max_priority_correct_witness:
  "maxPriority (\<lambda>b. take 32 (rev b @ replicate 32 CHR 0x00)) ''v'' 1
     = (\<lambda>b. take 32 (rev b @ replicate 32 CHR 0x00)) (''v'' @ Uint2Bytes 1)"
  using max_priority_correct [of "\<lambda>b. take 32 (rev b @ replicate 32 CHR 0x00)" "''v''" 1] by simp

end
