(* ===== verification/Cluster_Files.thy ===== *)
theory Cluster_Files
  imports Strconv Hash_Types
begin

text \<open>
  The cluster: \<open>Cluster/cluster.go\<close>, the AES-CTR file encryption of \<open>util/util.go\<close>, and the handlers
  \<open>JoinCluster\<close> and \<open>BroadcastNode\<close> of \<open>GRPC/service.go\<close>. The state is the in-memory cluster and
  the content of the file \<open>ClusterInfo\<close>. The key stream of AES in counter mode from the fixed
  initial vector is the parameter \<open>ks\<close>; \<open>gob\<close> is an encoder with a partial decoder.
\<close>

section \<open>File encryption\<close>

definition xor_byte :: "char \<Rightarrow> char \<Rightarrow> char" where
  "xor_byte a b = char_of (Bit_Operations.xor (of_char a :: nat) (of_char b))"

fun xor_stream :: "(nat \<Rightarrow> char) \<Rightarrow> nat \<Rightarrow> bytes \<Rightarrow> bytes" where
  "xor_stream ks i [] = []"
| "xor_stream ks i (c # cs) = xor_byte c (ks i) # xor_stream ks (Suc i) cs"

definition aes_key_ok :: "bytes \<Rightarrow> bool" where
  "aes_key_ok key \<longleftrightarrow> length key \<in> {16, 24, 32}"

definition AesCTREncrypt :: "(bytes \<Rightarrow> nat \<Rightarrow> char) \<Rightarrow> bytes \<Rightarrow> bytes \<Rightarrow> bytes go" where
  "AesCTREncrypt ks src key = (if \<not> aes_key_ok key then Inl LogPanic else Inr (xor_stream (ks key) 0 src))"

definition AesCTRDecrypt :: "(bytes \<Rightarrow> nat \<Rightarrow> char) \<Rightarrow> bytes \<Rightarrow> bytes \<Rightarrow> bytes go" where
  "AesCTRDecrypt ks src key = (if \<not> aes_key_ok key then Inl LogPanic else Inr (xor_stream (ks key) 0 src))"

lemma xor_byte_twice: "xor_byte (xor_byte c k) k = c"
proof -
  have "(of_char c :: nat) < 2 ^ 8" "(of_char k :: nat) < 2 ^ 8" using nat_of_char_less_256 by simp_all
  then have "take_bit 8 (of_char c :: nat) = of_char c" "take_bit 8 (of_char k :: nat) = of_char k"
    by (simp_all add: take_bit_nat_eq_self_iff)
  then have "take_bit 8 (Bit_Operations.xor (of_char c :: nat) (of_char k)) = Bit_Operations.xor (of_char c) (of_char k)"
    by (simp add: take_bit_xor)
  then have "Bit_Operations.xor (of_char c :: nat) (of_char k) mod 256 = Bit_Operations.xor (of_char c) (of_char k)"
    by (simp add: take_bit_eq_mod)
  then have "(of_char (xor_byte c k) :: nat) = Bit_Operations.xor (of_char c) (of_char k)"
    by (simp add: xor_byte_def of_char_of)
  then show ?thesis by (simp add: xor_byte_def xor.assoc)
qed

lemma xor_stream_twice: "xor_stream ks i (xor_stream ks i cs) = cs"
  by (induction ks i cs rule: xor_stream.induct) (simp_all add: xor_byte_twice)

section \<open>The cluster and its file\<close>

record node =
  IP :: string
  Port :: int
  Account :: bool

record cluster =
  Nodes :: "node list"
  JoinKey :: bytes

record cluster_env =
  key_stream :: "bytes \<Rightarrow> nat \<Rightarrow> char"
  enc_cluster :: "cluster \<Rightarrow> bytes"
  dec_cluster :: "bytes \<Rightarrow> cluster option"
  cl_sha256 :: "bytes \<Rightarrow> bytes"
  local_ip :: string

record cluster_state =
  LocalNode :: cluster
  ClusterInfo :: "bytes option"

definition file_key :: bytes where
  "file_key = ''1234567812345678''"

definition cluster_Init :: "cluster_env \<Rightarrow> string \<Rightarrow> cluster_state \<Rightarrow> cluster_state" where
  "cluster_Init E key st =
     st\<lparr>LocalNode := \<lparr>Nodes = [\<lparr>IP = local_ip E, Port = 3301, Account = False\<rparr>], JoinKey = cl_sha256 E key\<rparr>\<rparr>"

definition SaveClusterFile :: "cluster_env \<Rightarrow> cluster_state \<Rightarrow> cluster_state go" where
  "SaveClusterFile E st =
     bind_go (AesCTREncrypt (key_stream E) (enc_cluster E (LocalNode st)) file_key)
       (\<lambda>c. Inr (st\<lparr>ClusterInfo := Some c\<rparr>))"

text \<open>The error values: no file, and (a panic) a file that does not decode.\<close>

definition LoadClusterFile :: "cluster_env \<Rightarrow> cluster_state \<Rightarrow> (cluster option \<times> cluster_state) go" where
  "LoadClusterFile E st =
     (case ClusterInfo st of
        None \<Rightarrow> Inr (None, st)
      | Some content \<Rightarrow>
          bind_go (AesCTRDecrypt (key_stream E) content file_key) (\<lambda>d.
            case dec_cluster E d of
              None \<Rightarrow> Inl LogPanic
            | Some clu \<Rightarrow> Inr (Some clu, st\<lparr>LocalNode := clu\<rparr>)))"

definition AddNodeToClusterFile :: "cluster_env \<Rightarrow> cluster \<Rightarrow> node \<Rightarrow> cluster_state \<Rightarrow> cluster_state go" where
  "AddNodeToClusterFile E clu n st =
     SaveClusterFile E (st\<lparr>LocalNode := clu\<lparr>Nodes := Nodes clu @ [n]\<rparr>\<rparr>)"

text \<open>
  The loop of \<open>delRepeatElem\<close> from index \<open>i\<close>. Its condition, typo included: a node is deleted if it
  equals the next one, or has the IP of the one before and the port of the one after.
\<close>

definition repeat_cond :: "node list \<Rightarrow> nat \<Rightarrow> bool" where
  "repeat_cond ns i \<longleftrightarrow>
     IP (ns ! i) = IP (ns ! (i + 1)) \<and> Port (ns ! i) = Port (ns ! (i + 1))
     \<or> IP (ns ! i) = IP (ns ! (i - 1)) \<and> Port (ns ! i) = Port (ns ! (i + 1))"

function del_repeat_from :: "nat \<Rightarrow> node list \<Rightarrow> node list" where
  "del_repeat_from i ns =
     (if int i < int (length ns) - 1
      then (if repeat_cond ns i then del_repeat_from i (take i ns @ drop (Suc i) ns)
            else del_repeat_from (Suc i) ns)
      else ns)"
  by auto
termination
  by (relation "measure (\<lambda>(i, ns). length ns - i)") auto

declare del_repeat_from.simps [simp del]

definition delRepeatElem :: "node list \<Rightarrow> node list" where
  "delRepeatElem ns = del_repeat_from 1 ns"

text \<open>One round of \<open>UpdateClusterFile\<close>: the new cluster is built without the key.\<close>

definition UpdateClusterFile_round :: "cluster_env \<Rightarrow> cluster \<Rightarrow> cluster_state \<Rightarrow> cluster_state go" where
  "UpdateClusterFile_round E clu st =
     SaveClusterFile E (st\<lparr>LocalNode := \<lparr>Nodes = delRepeatElem (Nodes clu), JoinKey = []\<rparr>\<rparr>)"

section \<open>Joining\<close>

datatype join_result = Joined | JoinError string

definition JoinCluster :: "cluster_env \<Rightarrow> string \<Rightarrow> string \<Rightarrow> bytes \<Rightarrow> cluster_state \<Rightarrow>
    (join_result \<times> cluster_state) go" where
  "JoinCluster E localIp localPort joinKey st =
     bind_go (LoadClusterFile E st) (\<lambda>(r, st1).
       case r of
         None \<Rightarrow> Inr (JoinError ''no cluster file'', st1)
       | Some clu \<Rightarrow>
           if \<exists>n \<in> set (Nodes clu). IP n = localPort \<and> Itoa (Port n) = localPort
           then Inr (JoinError ''node is in the cluster'', st1)
           else if joinKey \<noteq> JoinKey clu then Inr (JoinError ''wrong key'', st1)
           else (case Atoi localPort of
                   None \<Rightarrow> Inl LogPanic
                 | Some port \<Rightarrow>
                     bind_go (AddNodeToClusterFile E clu \<lparr>IP = localIp, Port = port, Account = False\<rparr> st1)
                       (\<lambda>st2. Inr (Joined, st2))))"

definition BroadcastNode :: "cluster_env \<Rightarrow> string \<Rightarrow> string \<Rightarrow> cluster_state \<Rightarrow> (join_result \<times> cluster_state) go" where
  "BroadcastNode E localIp localPort st =
     (case Atoi localPort of
        None \<Rightarrow> Inr (JoinError ''port'', st)
      | Some port \<Rightarrow>
          bind_go (AddNodeToClusterFile E (LocalNode st) \<lparr>IP = localIp, Port = port, Account = False\<rparr> st)
            (\<lambda>st'. Inr (Joined, st')))"

section \<open>Properties\<close>

lemma SaveClusterFile_eq:
  "SaveClusterFile E st = Inr (st\<lparr>ClusterInfo := Some (xor_stream (key_stream E file_key) 0 (enc_cluster E (LocalNode st)))\<rparr>)"
  by (simp add: SaveClusterFile_def AesCTREncrypt_def aes_key_ok_def file_key_def)

lemma Load_Save:
  assumes "dec_cluster E (enc_cluster E (LocalNode st)) = Some (LocalNode st)"
    and "SaveClusterFile E st = Inr st'"
  shows "LoadClusterFile E st' = Inr (Some (LocalNode st), st')"
  using assms by (auto simp: SaveClusterFile_eq LoadClusterFile_def AesCTRDecrypt_def aes_key_ok_def
      file_key_def xor_stream_twice)

lemma JoinCluster_member:
  assumes "SaveClusterFile E st0 = Inr st" and "LocalNode st0 = clu"
    and "dec_cluster E (enc_cluster E clu) = Some clu"
    and "clu' = clu\<lparr>Nodes := Nodes clu @ [\<lparr>IP = ip, Port = port, Account = False\<rparr>]\<rparr>"
    and "dec_cluster E (enc_cluster E clu') = Some clu'"
    and "- (2 ^ 63) \<le> port" and "port < 2 ^ 63" and "Itoa port \<notin> IP ` set (Nodes clu)"
  shows "(\<exists>st'. JoinCluster E ip (Itoa port) (JoinKey clu) st = Inr (Joined, st') \<and> LocalNode st' = clu'
      \<and> LoadClusterFile E st' = Inr (Some clu', st'))
    \<and> (\<forall>k. k \<noteq> JoinKey clu \<longrightarrow> JoinCluster E ip (Itoa port) k st = Inr (JoinError ''wrong key'', st))"
proof
  have st: "LocalNode st = clu" using assms(1,2) by (auto simp: SaveClusterFile_eq)
  have load: "LoadClusterFile E st = Inr (Some clu, st)"
    using Load_Save [of E st0 st] assms(1,2,3) by simp
  have nm: "(\<exists>n \<in> set (Nodes clu). IP n = Itoa port \<and> Itoa (Port n) = Itoa port) = False" using assms(8) by force
  show "\<forall>k. k \<noteq> JoinKey clu \<longrightarrow> JoinCluster E ip (Itoa port) k st = Inr (JoinError ''wrong key'', st)"
    by (simp add: JoinCluster_def load nm)
  let ?st1 = "st\<lparr>LocalNode := clu'\<rparr>"
  obtain st' where st': "SaveClusterFile E ?st1 = Inr st'" by (simp add: SaveClusterFile_eq)
  then have "LocalNode st' = clu'" by (auto simp: SaveClusterFile_eq)
  moreover have "JoinCluster E ip (Itoa port) (JoinKey clu) st = Inr (Joined, st')"
    using st' Atoi_Itoa [OF assms(6,7)] assms(4) by (simp add: JoinCluster_def AddNodeToClusterFile_def load nm)
  moreover have "LoadClusterFile E st' = Inr (Some clu', st')"
    using Load_Save [of E ?st1 st'] st' assms(5) by simp
  ultimately show "\<exists>st'. JoinCluster E ip (Itoa port) (JoinKey clu) st = Inr (Joined, st') \<and> LocalNode st' = clu'
      \<and> LoadClusterFile E st' = Inr (Some clu', st')" by blast
qed

text \<open>
  Joining: with a file that decodes to the cluster, a request with the cluster's key (the
  SHA-256 of its password) and a decimal port is accepted, appends exactly the requesting node
  and leaves a file that loads as the extended cluster; any other key is refused and changes
  neither the cluster nor the file. The test for nodes that are already members compares the
  node's IP with the port, so it stops nobody whose port is not also an IP in the list.
\<close>

theorem join_cluster:
  assumes "SaveClusterFile E st0 = Inr st" and "LocalNode st0 = clu"
    and "dec_cluster E (enc_cluster E clu) = Some clu"
    and "clu' = clu\<lparr>Nodes := Nodes clu @ [\<lparr>IP = ip, Port = port, Account = False\<rparr>]\<rparr>"
    and "dec_cluster E (enc_cluster E clu') = Some clu'"
    and "- (2 ^ 63) \<le> port" and "port < 2 ^ 63" and "Itoa port \<notin> IP ` set (Nodes clu)"
  shows "(\<exists>st'. JoinCluster E ip (Itoa port) (JoinKey clu) st = Inr (Joined, st') \<and> LocalNode st' = clu'
      \<and> LoadClusterFile E st' = Inr (Some clu', st'))
    \<and> (\<forall>k. k \<noteq> JoinKey clu \<longrightarrow> JoinCluster E ip (Itoa port) k st = Inr (JoinError ''wrong key'', st))"
  using assms by (rule JoinCluster_member)

definition toy_cluster_env :: cluster_env where
  "toy_cluster_env = \<lparr>key_stream = (\<lambda>_ i. char_of i), enc_cluster = (\<lambda>c. replicate (length (Nodes c)) CHR ''n'' @ JoinKey c),
     dec_cluster = (\<lambda>b. let ns = takeWhile (\<lambda>c. c = CHR ''n'') b in
       Some \<lparr>Nodes = map (\<lambda>i. if i = 0 then \<lparr>IP = ''a'', Port = 3301, Account = False\<rparr>
           else \<lparr>IP = ''b'', Port = 3301, Account = False\<rparr>) [0..<length ns], JoinKey = drop (length ns) b\<rparr>),
     cl_sha256 = (\<lambda>b. b), local_ip = ''a''\<rparr>"

theorem join_cluster_witness:
  "\<exists>st st'. JoinCluster toy_cluster_env ''b'' (Itoa 3301) ''k'' st = Inr (Joined, st') \<and> length (Nodes (LocalNode st')) = 2"
proof -
  let ?c = "\<lparr>Nodes = [\<lparr>IP = ''a'', Port = 3301, Account = False\<rparr>], JoinKey = ''k''\<rparr>"
  let ?c' = "?c\<lparr>Nodes := Nodes ?c @ [\<lparr>IP = ''b'', Port = 3301, Account = False\<rparr>]\<rparr>"
  let ?st0 = "\<lparr>LocalNode = ?c, ClusterInfo = None\<rparr>"
  obtain st where st: "SaveClusterFile toy_cluster_env ?st0 = Inr st" by (simp add: SaveClusterFile_eq)
  have "(\<exists>st'. JoinCluster toy_cluster_env ''b'' (Itoa 3301) (JoinKey ?c) st = Inr (Joined, st')
      \<and> LocalNode st' = ?c' \<and> LoadClusterFile toy_cluster_env st' = Inr (Some ?c', st'))
    \<and> (\<forall>k. k \<noteq> JoinKey ?c \<longrightarrow> JoinCluster toy_cluster_env ''b'' (Itoa 3301) k st = Inr (JoinError ''wrong key'', st))"
  proof (rule join_cluster [OF st])
    show "Itoa 3301 \<notin> IP ` set (Nodes ?c)" by (simp add: Itoa_def digits.simps)
  qed (simp_all add: toy_cluster_env_def)
  then obtain st' where "JoinCluster toy_cluster_env ''b'' (Itoa 3301) ''k'' st = Inr (Joined, st')"
    "LocalNode st' = ?c'" by auto
  then show ?thesis by (intro exI [of _ st] exI [of _ st']) simp
qed

text \<open>
  The first round of \<open>UpdateClusterFile\<close> (which every node that starts from a cluster file runs)
  drops the cluster's key from memory and from the file: afterwards a request with any non-empty
  key, the right one included, is refused, and a request with an empty key is let in.
\<close>

theorem update_drops_key:
  assumes "clu' = \<lparr>Nodes = delRepeatElem (Nodes clu), JoinKey = []\<rparr>"
    and "dec_cluster E (enc_cluster E clu') = Some clu'"
    and "- (2 ^ 63) \<le> port" and "port < 2 ^ 63" and "Itoa port \<notin> IP ` set (Nodes clu')"
  shows "\<exists>st'. UpdateClusterFile_round E clu st = Inr st' \<and> LocalNode st' = clu'
    \<and> (\<forall>k. k \<noteq> [] \<longrightarrow> JoinCluster E ip (Itoa port) k st' = Inr (JoinError ''wrong key'', st'))
    \<and> (\<exists>st''. JoinCluster E ip (Itoa port) [] st' = Inr (Joined, st''))"
proof -
  let ?st0 = "st\<lparr>LocalNode := clu'\<rparr>"
  obtain st' where st': "SaveClusterFile E ?st0 = Inr st'" by (simp add: SaveClusterFile_eq)
  have run: "UpdateClusterFile_round E clu st = Inr st'" using st' by (simp add: UpdateClusterFile_round_def assms(1))
  have loc: "LocalNode st' = clu'" using st' by (auto simp: SaveClusterFile_eq)
  have load: "LoadClusterFile E st' = Inr (Some clu', st')"
    using Load_Save [of E ?st0 st'] st' assms(2) by simp
  have nm: "(\<exists>n \<in> set (Nodes clu'). IP n = Itoa port \<and> Itoa (Port n) = Itoa port) = False" using assms(5) by force
  have key: "JoinKey clu' = []" by (simp add: assms(1))
  have "\<exists>st''. JoinCluster E ip (Itoa port) [] st' = Inr (Joined, st'')"
    using Atoi_Itoa [OF assms(3,4)]
    by (simp add: JoinCluster_def AddNodeToClusterFile_def SaveClusterFile_eq load nm key)
  moreover have "\<forall>k. k \<noteq> [] \<longrightarrow> JoinCluster E ip (Itoa port) k st' = Inr (JoinError ''wrong key'', st')"
    by (simp add: JoinCluster_def load nm key)
  ultimately show ?thesis using run loc by blast
qed

theorem update_drops_key_witness:
  "\<exists>st'. UpdateClusterFile_round toy_cluster_env
      \<lparr>Nodes = [\<lparr>IP = ''a'', Port = 3301, Account = False\<rparr>], JoinKey = ''k''\<rparr>
      \<lparr>LocalNode = \<lparr>Nodes = [], JoinKey = []\<rparr>, ClusterInfo = None\<rparr> = Inr st'
    \<and> JoinCluster toy_cluster_env ''b'' (Itoa 3301) ''k'' st' = Inr (JoinError ''wrong key'', st')"
proof -
  let ?clu = "\<lparr>Nodes = [\<lparr>IP = ''a'', Port = 3301, Account = False\<rparr>], JoinKey = ''k''\<rparr>"
  let ?clu' = "\<lparr>Nodes = delRepeatElem (Nodes ?clu), JoinKey = []\<rparr>"
  have d: "delRepeatElem [\<lparr>IP = ''a'', Port = 3301, Account = False\<rparr>] = [\<lparr>IP = ''a'', Port = 3301, Account = False\<rparr>]"
    by (simp add: delRepeatElem_def del_repeat_from.simps)
  have p: "Itoa 3301 \<notin> IP ` set (Nodes ?clu')"
    by (simp add: d Itoa_def digits.simps)
  have "\<exists>st'. UpdateClusterFile_round toy_cluster_env ?clu \<lparr>LocalNode = \<lparr>Nodes = [], JoinKey = []\<rparr>, ClusterInfo = None\<rparr> = Inr st'
    \<and> LocalNode st' = ?clu'
    \<and> (\<forall>k. k \<noteq> [] \<longrightarrow> JoinCluster toy_cluster_env ''b'' (Itoa 3301) k st' = Inr (JoinError ''wrong key'', st'))
    \<and> (\<exists>st''. JoinCluster toy_cluster_env ''b'' (Itoa 3301) [] st' = Inr (Joined, st''))"
    by (rule update_drops_key [OF refl _ _ _ p]) (simp_all add: d toy_cluster_env_def)
  then show ?thesis by auto
qed

lemma del_repeat_from_props:
  "set (del_repeat_from i ns) \<subseteq> set ns \<and> take i (del_repeat_from i ns) = take i ns"
proof (induction i ns rule: del_repeat_from.induct)
  case (1 i ns)
  let ?d = "take i ns @ drop (Suc i) ns"
  show ?case
  proof (cases "int i < int (length ns) - 1")
    case False
    then show ?thesis by (simp add: del_repeat_from.simps [of i ns])
  next
    case True
    show ?thesis
    proof (cases "repeat_cond ns i")
      case c: True
      have "set ?d \<subseteq> set ns" using set_take_subset [of i ns] set_drop_subset [of "Suc i" ns] by auto
      moreover have "take i ?d = take i ns" using True by simp
      moreover have "del_repeat_from i ns = del_repeat_from i ?d"
        by (subst del_repeat_from.simps) (simp only: True c if_True)
      moreover have ih: "set (del_repeat_from i ?d) \<subseteq> set ?d" "take i (del_repeat_from i ?d) = take i ?d"
        using 1(1) [OF True c] by blast+
      ultimately show ?thesis by (metis subset_trans)
    next
      case c: False
      let ?r = "del_repeat_from (Suc i) ns"
      have ih: "set ?r \<subseteq> set ns" "take (Suc i) ?r = take (Suc i) ns" using 1(2) [OF True c] by simp_all
      have "take i ?r = take i (take (Suc i) ?r)" by (simp add: min_def)
      also have "\<dots> = take i ns" unfolding ih(2) by (simp add: min_def)
      finally have "take i ?r = take i ns" .
      moreover have "del_repeat_from i ns = ?r" by (subst del_repeat_from.simps) (simp only: True c if_True if_False)
      ultimately show ?thesis using ih(1) by simp
    qed
  qed
qed

text \<open>
  The clean-up of the member list only removes nodes and keeps the first one, but it is not
  the removal of duplicates its comment announces: lists of up to two nodes stay as they are even
  if the two are equal, and of three different members with IPs \<open>x\<close>, \<open>x\<close>, \<open>y\<close> and ports \<open>p\<close>,
  \<open>q\<close>, \<open>q\<close> the middle one is removed.
\<close>

theorem cleanup_members:
  "set (delRepeatElem ns) \<subseteq> set ns \<and> take 1 (delRepeatElem ns) = take 1 ns
   \<and> delRepeatElem [a, a] = [a, a]
   \<and> delRepeatElem [\<lparr>IP = x, Port = p, Account = u\<rparr>, \<lparr>IP = x, Port = q, Account = v\<rparr>, \<lparr>IP = y, Port = q, Account = w\<rparr>]
     = [\<lparr>IP = x, Port = p, Account = u\<rparr>, \<lparr>IP = y, Port = q, Account = w\<rparr>]"
proof (intro conjI)
  show "set (delRepeatElem ns) \<subseteq> set ns" "take 1 (delRepeatElem ns) = take 1 ns"
    using del_repeat_from_props [of 1 ns] by (simp_all add: delRepeatElem_def)
  have two: "del_repeat_from 1 [c, d] = [c, d]" for c d by (subst del_repeat_from.simps) simp
  then show "delRepeatElem [a, a] = [a, a]" by (simp add: delRepeatElem_def)
  let ?ns = "[\<lparr>IP = x, Port = p, Account = u\<rparr>, \<lparr>IP = x, Port = q, Account = v\<rparr>, \<lparr>IP = y, Port = q, Account = w\<rparr>]"
  have "repeat_cond ?ns 1" by (simp add: repeat_cond_def)
  then have "del_repeat_from 1 ?ns = del_repeat_from 1 (take 1 ?ns @ drop (Suc 1) ?ns)"
    by (subst del_repeat_from.simps) simp
  also have "take 1 ?ns @ drop (Suc 1) ?ns = [\<lparr>IP = x, Port = p, Account = u\<rparr>, \<lparr>IP = y, Port = q, Account = w\<rparr>]"
    by simp
  finally show "delRepeatElem ?ns = [\<lparr>IP = x, Port = p, Account = u\<rparr>, \<lparr>IP = y, Port = q, Account = w\<rparr>]"
    by (simp only: delRepeatElem_def two)
qed

end
