(* ===== verification/Raft_Election.thy ===== *)
theory Raft_Election
  imports Cluster_Files "HOL-Library.Multiset"
begin

text \<open>
  The leader election that decides which node keeps the books: \<open>Raft/raft.go\<close> and \<open>Raft/rpc.go\<close>.
  The first part models one node: each function that changes it, with its guards. The second part
  puts nodes, pending calls and pending replies together and lets them interleave freely: an event
  is one atomic action of one goroutine, \<open>do_event\<close> is undefined where the action is not enabled.
  \<open>ips\<close> is the list of members; a node is addressed by its IP and its own number \<open>me\<close> is the IP
  with \<open>3302\<close> appended.
\<close>

section \<open>One node\<close>

record raft =
  rIP :: string
  me :: string
  vote :: int
  currentTerm :: int
  votedFor :: string
  state :: int
  lastSendHeartBeatTime :: int
  currentLeader :: string

definition nobody :: string where
  "nobody = ''-1''"

definition NewRaft :: "string \<Rightarrow> string \<Rightarrow> raft" where
  "NewRaft ip port = \<lparr>rIP = ip, me = ip @ port, vote = 0, currentTerm = 0, votedFor = nobody, state = 0,
     lastSendHeartBeatTime = 0, currentLeader = nobody\<rparr>"

text \<open>The setters; each holds the lock of the node while it writes one field.\<close>

definition setVote :: "int \<Rightarrow> raft \<Rightarrow> raft" where "setVote num rf = rf\<lparr>vote := num\<rparr>"
definition setVoteFor :: "string \<Rightarrow> raft \<Rightarrow> raft" where "setVoteFor ip rf = rf\<lparr>votedFor := ip\<rparr>"
definition setStatus :: "int \<Rightarrow> raft \<Rightarrow> raft" where "setStatus st rf = rf\<lparr>state := st\<rparr>"
definition setCurrentLeader :: "string \<Rightarrow> raft \<Rightarrow> raft" where "setCurrentLeader leader rf = rf\<lparr>currentLeader := leader\<rparr>"
definition voteAdd :: "raft \<Rightarrow> raft" where "voteAdd rf = rf\<lparr>vote := vote rf + 1\<rparr>"
definition termAdd :: "raft \<Rightarrow> raft" where "termAdd rf = rf\<lparr>currentTerm := currentTerm rf + 1\<rparr>"

lemmas raft_setters [simp] = setVote_def setVoteFor_def setStatus_def setCurrentLeader_def voteAdd_def termAdd_def

definition reDefault :: "raft \<Rightarrow> raft" where
  "reDefault rf = setStatus 0 (setVoteFor nobody (setVote 0 rf))"

definition becomeCandidate :: "raft \<Rightarrow> bool \<times> raft" where
  "becomeCandidate rf =
     (if state rf = 0 \<and> currentLeader rf = nobody \<and> votedFor rf = nobody
      then (True, termAdd (voteAdd (setVoteFor (me rf) (setStatus 1 rf))))
      else (False, rf))"

text \<open>
  One reply taken from \<open>voteChan\<close> in the loop of \<open>election\<close>: has the node won? \<open>nodeCount\<close> is a variable of
  the process that \<open>Start\<close> sets once.
\<close>

definition election_reply :: "nat \<Rightarrow> bool \<Rightarrow> raft \<Rightarrow> bool \<times> raft" where
  "election_reply nodeCount ok rf =
     (let rf1 = (if ok then voteAdd rf else rf)
      in if int (nodeCount div 2 + 1) \<le> vote rf1 \<and> currentLeader rf1 = nobody
         then (True, setCurrentLeader (me rf1) (setStatus 2 rf1))
         else (False, rf1))"

definition heartTimeout :: "int \<Rightarrow> raft \<Rightarrow> bool \<times> raft" where
  "heartTimeout now rf =
     (if lastSendHeartBeatTime rf \<noteq> 0 \<and> 4000 < now - lastSendHeartBeatTime rf
      then (True, (setCurrentLeader nobody (reDefault rf))\<lparr>lastSendHeartBeatTime := 0\<rparr>)
      else (False, rf))"

text \<open>What a node does for itself after a round of heart beats.\<close>

definition heart_sent :: "int \<Rightarrow> raft \<Rightarrow> raft" where
  "heart_sent now rf = rf\<lparr>lastSendHeartBeatTime := now\<rparr>"

definition HeartBeatResponse :: "string \<Rightarrow> int \<Rightarrow> raft \<Rightarrow> raft" where
  "HeartBeatResponse ip now rf = (setCurrentLeader ip rf)\<lparr>lastSendHeartBeatTime := now\<rparr>"

definition ConfirmationLeader :: "string \<Rightarrow> raft \<Rightarrow> raft" where
  "ConfirmationLeader ip rf = reDefault (setCurrentLeader ip rf)"

text \<open>The second half of \<open>ConfirmationLeader\<close>: the book-keeping right of the members.\<close>

definition confirm_accounts :: "cluster_env \<Rightarrow> string \<Rightarrow> cluster_state \<Rightarrow> cluster_state go" where
  "confirm_accounts E ip st =
     SaveClusterFile E (st\<lparr>LocalNode := (LocalNode st)\<lparr>Nodes :=
       map (\<lambda>n. n\<lparr>Account := (IP n = ip)\<rparr>) (Nodes (LocalNode st))\<rparr>\<rparr>)"

definition Vote :: "string \<Rightarrow> raft \<Rightarrow> bool \<times> raft" where
  "Vote ip rf =
     (if votedFor rf = nobody \<and> currentLeader rf = nobody then (True, setVoteFor ip rf) else (False, rf))"

text \<open>
  One round of \<open>SetAccount\<close>: the account flag of the local member, and the value that
  \<open>LocalIsAccount\<close> and the pool's mode take if there is a local member.
\<close>

definition SetAccount_round :: "raft \<Rightarrow> string \<Rightarrow> int \<Rightarrow> node list \<Rightarrow> node list \<times> bool option" where
  "SetAccount_round rf localIP localPort ns =
     (map (\<lambda>n. if IP n = localIP \<and> Port n = localPort then n\<lparr>Account := (state rf = 2)\<rparr> else n) ns,
      if \<exists>n \<in> set ns. IP n = localIP \<and> Port n = localPort then Some (state rf = 2) else None)"

section \<open>The cluster\<close>

text \<open>
  \<open>trying\<close>: nodes whose \<open>tryToBeCandidateWithElection\<close> loop runs; \<open>electing\<close>: those inside
  \<open>election\<close>; \<open>beating\<close>: nodes whose heart beat loop has been started (it never stops); \<open>calls\<close> and
  \<open>confirms\<close>: broadcast calls not yet made; \<open>replies\<close>: results waiting to be taken from the channel;
  \<open>node_count\<close>: the number of members that each node counted when it started.
\<close>

record raft_net =
  peers :: "string \<Rightarrow> raft"
  trying :: "string list"
  electing :: "string list"
  beating :: "string list"
  calls :: "(string \<times> string) list"
  replies :: "(string \<times> bool) list"
  confirms :: "(string \<times> string) list"
  node_count :: "string \<Rightarrow> nat"

datatype raft_event =
    Candidate string
  | VoteCall string string
  | VoteCallFails string string
  | Reply string bool
  | ElectionTimeout string
  | Confirm string string
  | ConfirmFails string string
  | HeartBeat string string int
  | HeartSent string int
  | HeartTimeout string int

definition broadcast :: "string list \<Rightarrow> string \<Rightarrow> (string \<times> string) list" where
  "broadcast ips i = map (\<lambda>j. (i, j)) (filter (\<lambda>j. j @ ''3302'' \<noteq> i @ ''3302'') ips)"

definition set_peer :: "string \<Rightarrow> raft \<Rightarrow> raft_net \<Rightarrow> raft_net" where
  "set_peer i rf s = s\<lparr>peers := (peers s)(i := rf)\<rparr>"

fun do_event :: "string list \<Rightarrow> raft_event \<Rightarrow> raft_net \<Rightarrow> raft_net option" where
  "do_event ips (Candidate i) s =
     (if i \<in> set ips \<and> i \<in> set (trying s) \<and> i \<notin> set (electing s)
      then (case becomeCandidate (peers s i) of
              (True, rf) \<Rightarrow> Some ((set_peer i rf s)\<lparr>electing := i # electing s, calls := calls s @ broadcast ips i\<rparr>)
            | (False, rf) \<Rightarrow> Some (s\<lparr>trying := remove1 i (trying s)\<rparr>))
      else None)"
| "do_event ips (VoteCall i j) s =
     (if (i, j) \<in> set (calls s)
      then (case Vote (rIP (peers s i)) (peers s j) of
              (ok, rf) \<Rightarrow> Some ((set_peer j rf s)\<lparr>calls := remove1 (i, j) (calls s), replies := (i, ok) # replies s\<rparr>))
      else None)"
| "do_event ips (VoteCallFails i j) s =
     (if (i, j) \<in> set (calls s)
      then Some (s\<lparr>calls := remove1 (i, j) (calls s), replies := (i, False) # replies s\<rparr>) else None)"
| "do_event ips (Reply i ok) s =
     (if i \<in> set (electing s) \<and> (i, ok) \<in> set (replies s)
      then (case election_reply (node_count s i) ok (peers s i) of
              (won, rf) \<Rightarrow>
                (let s' = (set_peer i rf s)\<lparr>replies := remove1 (i, ok) (replies s)\<rparr>
                 in if won
                    then Some (s'\<lparr>electing := remove1 i (electing s'), trying := remove1 i (trying s'),
                                  beating := i # beating s', confirms := confirms s' @ broadcast ips i\<rparr>)
                    else Some s'))
      else None)"
| "do_event ips (ElectionTimeout i) s =
     (if i \<in> set (electing s)
      then Some ((set_peer i (reDefault (peers s i)) s)\<lparr>electing := remove1 i (electing s)\<rparr>) else None)"
| "do_event ips (Confirm i j) s =
     (if (i, j) \<in> set (confirms s)
      then Some ((set_peer j (ConfirmationLeader (rIP (peers s i)) (peers s j)) s)
                   \<lparr>confirms := remove1 (i, j) (confirms s)\<rparr>) else None)"
| "do_event ips (ConfirmFails i j) s =
     (if (i, j) \<in> set (confirms s) then Some (s\<lparr>confirms := remove1 (i, j) (confirms s)\<rparr>) else None)"
| "do_event ips (HeartBeat i j now) s =
     (if i \<in> set (beating s) \<and> (i, j) \<in> set (broadcast ips i) \<and> 0 < now
      then Some (set_peer j (HeartBeatResponse (rIP (peers s i)) now (peers s j)) s) else None)"
| "do_event ips (HeartSent i now) s =
     (if i \<in> set (beating s) \<and> 0 < now then Some (set_peer i (heart_sent now (peers s i)) s) else None)"
| "do_event ips (HeartTimeout i now) s =
     (if i \<in> set ips
      then (case heartTimeout now (peers s i) of
              (True, rf) \<Rightarrow> Some ((set_peer i rf s)\<lparr>trying := i # trying s\<rparr>)
            | (False, rf) \<Rightarrow> Some s)
      else None)"

fun do_events :: "string list \<Rightarrow> raft_event list \<Rightarrow> raft_net \<Rightarrow> raft_net option" where
  "do_events ips [] s = Some s"
| "do_events ips (e # es) s = Option.bind (do_event ips e s) (do_events ips es)"

text \<open>
  \<open>Start\<close> on every member: all nodes try to become candidates, nothing is pending. The first function
  takes the numbers of members that the nodes found when they started; in the second one all found
  the whole cluster.
\<close>

definition raft_started :: "(string \<Rightarrow> nat) \<Rightarrow> string list \<Rightarrow> raft_net" where
  "raft_started n ips = \<lparr>peers = (\<lambda>i. NewRaft i ''3302''), trying = ips, electing = [], beating = [],
     calls = [], replies = [], confirms = [], node_count = n\<rparr>"

definition raft_start :: "string list \<Rightarrow> raft_net" where
  "raft_start ips = raft_started (\<lambda>_. length ips) ips"

definition leaders :: "string list \<Rightarrow> raft_net \<Rightarrow> string set" where
  "leaders ips s = {i \<in> set ips. state (peers s i) = 2}"

fun is_timeout :: "raft_event \<Rightarrow> bool" where
  "is_timeout (ElectionTimeout i) = True"
| "is_timeout (HeartTimeout i now) = True"
| "is_timeout _ = False"

section \<open>Election safety\<close>

text \<open>
  The invariant of the runs without time-outs. \<open>g j\<close> is the candidate that \<open>j\<close> has given its vote
  to, if any. A node that may still vote has not, and the votes a node has counted or will count
  were given to it.
\<close>

definition given :: "string list \<Rightarrow> (string \<Rightarrow> string option) \<Rightarrow> string \<Rightarrow> nat" where
  "given ips g i = card {j \<in> set ips. g j = Some i}"

definition yes :: "raft_net \<Rightarrow> string \<Rightarrow> nat" where
  "yes s i = count (mset (replies s)) (i, True)"

definition pairs :: "string list \<Rightarrow> (string \<times> string) set" where
  "pairs ips = {(i, j). i \<in> set ips \<and> j \<in> set ips \<and> i \<noteq> j}"

definition votes_ok :: "string list \<Rightarrow> raft_net \<Rightarrow> (string \<Rightarrow> string option) \<Rightarrow> bool" where
  "votes_ok ips s g \<longleftrightarrow>
     (\<forall>i. rIP (peers s i) = i \<and> me (peers s i) = i @ ''3302'')
   \<and> (\<forall>j \<in> set ips. votedFor (peers s j) = nobody \<and> currentLeader (peers s j) = nobody \<longrightarrow> g j = None)
   \<and> (\<forall>i \<in> set ips. 0 \<le> vote (peers s i) \<and> vote (peers s i) + int (yes s i) \<le> int (given ips g i))
   \<and> (\<forall>i \<in> set ips. state (peers s i) = 2 \<longrightarrow> length ips div 2 + 1 \<le> given ips g i)
   \<and> set (calls s) \<subseteq> pairs ips \<and> set (confirms s) \<subseteq> pairs ips
   \<and> set (electing s) \<subseteq> set ips \<and> set (beating s) \<subseteq> set ips
   \<and> (\<forall>i \<in> set ips. length ips \<le> node_count s i)"

lemma broadcast_mem: "(a, b) \<in> set (broadcast ips i) \<longleftrightarrow> a = i \<and> b \<in> set ips \<and> b \<noteq> i"
  by (auto simp: broadcast_def)

lemma broadcast_pairs: "i \<in> set ips \<Longrightarrow> set (broadcast ips i) \<subseteq> pairs ips"
  by (auto simp: broadcast_mem pairs_def)

lemma given_upd:
  assumes "g j = None" and "j \<in> set ips"
  shows "given ips (g(j := Some i)) k = given ips g k + (if k = i then 1 else 0)"
proof (cases "k = i")
  case True
  have "{x \<in> set ips. (g(j := Some i)) x = Some k} = insert j {x \<in> set ips. g x = Some k}"
    using assms True by auto
  moreover have "j \<notin> {x \<in> set ips. g x = Some k}" "finite {x \<in> set ips. g x = Some k}" using assms by simp_all
  ultimately have "given ips (g(j := Some i)) k = Suc (card {x \<in> set ips. g x = Some k})"
    by (simp only: given_def card_insert_disjoint not_False_eq_True)
  then show ?thesis using True by (simp add: given_def)
next
  case False
  then have "{x \<in> set ips. (g(j := Some i)) x = Some k} = {x \<in> set ips. g x = Some k}" using assms by auto
  then show ?thesis using False by (simp only: given_def) simp
qed

lemma given_disjoint: "i \<noteq> j \<Longrightarrow> given ips g i + given ips g j \<le> length ips"
proof -
  assume "i \<noteq> j"
  then have d: "{k \<in> set ips. g k = Some i} \<inter> {k \<in> set ips. g k = Some j} = {}" by auto
  have "card ({k \<in> set ips. g k = Some i} \<union> {k \<in> set ips. g k = Some j}) \<le> card (set ips)"
    by (rule card_mono) auto
  also have "\<dots> \<le> length ips" by (rule card_length)
  finally show ?thesis using d by (simp add: given_def card_Un_disjoint)
qed

lemma nobody_ne: "i @ ''3302'' \<noteq> nobody"
  by (simp add: nobody_def append_eq_Cons_conv)

text \<open>Each kind of event keeps the invariant, with \<open>g\<close> extended when a vote is given.\<close>

lemma votes_ok_Candidate:
  assumes "votes_ok ips s g" and "do_event ips (Candidate i) s = Some s'"
  shows "\<exists>g'. votes_ok ips s' g'"
proof -
  have i: "i \<in> set ips" using assms(2) by (auto split: if_splits)
  show ?thesis
  proof (cases "state (peers s i) = 0 \<and> currentLeader (peers s i) = nobody \<and> votedFor (peers s i) = nobody")
    case False
    then have "s' = s\<lparr>trying := remove1 i (trying s)\<rparr>"
      using assms(2) by (auto simp: becomeCandidate_def split: if_splits)
    then show ?thesis using assms(1) by (auto simp: votes_ok_def yes_def)
  next
    case True
    let ?rf = "(peers s i)\<lparr>state := 1, votedFor := me (peers s i), vote := vote (peers s i) + 1,
        currentTerm := currentTerm (peers s i) + 1\<rparr>"
    have s': "s' = (set_peer i ?rf s)\<lparr>electing := i # electing s, calls := calls s @ broadcast ips i\<rparr>"
      using assms(2) True by (auto simp: becomeCandidate_def split: if_splits)
    have gi: "g i = None" using assms(1) True i by (auto simp: votes_ok_def)
    note gu = given_upd [of g i, OF gi i, of i]
    have y: "yes s' k = yes s k" for k by (simp add: s' yes_def set_peer_def)
    have p: "peers s' = (peers s)(i := ?rf)" by (simp add: s' set_peer_def)
    have "votes_ok ips s' (g(i := Some i))"
      unfolding votes_ok_def y gu p
      using assms(1) i True nobody_ne broadcast_pairs [OF i]
      by (auto simp: votes_ok_def s' set_peer_def)
    then show ?thesis by blast
  qed
qed

lemma votes_ok_VoteCall:
  assumes "votes_ok ips s g" and "do_event ips (VoteCall i j) s = Some s'" and "nobody \<notin> set ips"
  shows "\<exists>g'. votes_ok ips s' g'"
proof -
  have ij: "(i, j) \<in> set (calls s)" using assms(2) by (auto split: if_splits)
  then have mem: "i \<in> set ips" "j \<in> set ips" "i \<noteq> j" using assms(1) by (auto simp: votes_ok_def pairs_def)
  have sub: "set (remove1 (i, j) (calls s)) \<subseteq> set (calls s)" by (rule set_remove1_subset)
  have ri: "rIP (peers s i) = i" using assms(1) by (auto simp: votes_ok_def)
  have inn: "i \<noteq> nobody" using mem(1) assms(3) by auto
  show ?thesis
  proof (cases "votedFor (peers s j) = nobody \<and> currentLeader (peers s j) = nobody")
    case False
    then have s': "s' = (set_peer j (peers s j) s)\<lparr>calls := remove1 (i, j) (calls s), replies := (i, False) # replies s\<rparr>"
      using assms(2) ij by (auto simp: Vote_def)
    have "votes_ok ips s' g"
      using assms(1) sub by (auto simp: votes_ok_def s' set_peer_def yes_def)
    then show ?thesis by blast
  next
    case True
    then have s': "s' = (set_peer j ((peers s j)\<lparr>votedFor := i\<rparr>) s)
        \<lparr>calls := remove1 (i, j) (calls s), replies := (i, True) # replies s\<rparr>"
      using assms(2) ij ri by (auto simp: Vote_def)
    have gj: "g j = None" using assms(1) True mem(2) by (auto simp: votes_ok_def)
    note gu = given_upd [of g j, OF gj mem(2), of i]
    have y: "yes s' k = yes s k + (if k = i then 1 else 0)" for k by (simp add: s' yes_def)
    have p: "peers s' = (peers s)(j := (peers s j)\<lparr>votedFor := i\<rparr>)" by (simp add: s' set_peer_def)
    have "votes_ok ips s' (g(j := Some i))"
      unfolding votes_ok_def y gu p
      using assms(1) mem inn sub by (auto simp: votes_ok_def s' set_peer_def)
    then show ?thesis by blast
  qed
qed

lemma votes_ok_Reply:
  assumes "votes_ok ips s g" and "do_event ips (Reply i ok) s = Some s'"
  shows "votes_ok ips s' g"
proof -
  have mem: "i \<in> set (electing s)" "(i, ok) \<in> set (replies s)" using assms(2) by (auto split: if_splits)
  have i: "i \<in> set ips" using assms(1) mem(1) by (auto simp: votes_ok_def)
  obtain won rf where er: "election_reply (node_count s i) ok (peers s i) = (won, rf)" by fastforce
  let ?v = "vote (peers s i) + (if ok then 1 else 0)"
  have rf: "vote rf = ?v" "rIP rf = rIP (peers s i)" "me rf = me (peers s i)" "votedFor rf = votedFor (peers s i)"
    "state rf = (if won then 2 else state (peers s i))"
    "currentLeader rf = (if won then me (peers s i) else currentLeader (peers s i))"
    "won \<Longrightarrow> int (node_count s i div 2 + 1) \<le> ?v"
    using er by (auto simp: election_reply_def Let_def split: if_splits)
  have p: "peers s' = (peers s)(i := rf)" using assms(2) mem er by (cases won) (auto simp: set_peer_def Let_def)
  have m: "mset (replies s') = mset (replies s) - {#(i, ok)#}"
    using assms(2) mem er by (cases won) (auto simp: set_peer_def Let_def)
  have c: "0 < count (mset (replies s)) (i, ok)" using mem(2) by simp
  have y: "yes s' k = yes s k - (if k = i \<and> ok then 1 else 0)" for k by (auto simp: yes_def m)
  have yi: "vote rf + int (yes s' i) = vote (peers s i) + int (yes s i)"
  proof (cases ok)
    case True
    then have "0 < yes s i" using c by (simp add: yes_def)
    then show ?thesis using True rf(1) by (simp add: y)
  next
    case False
    then show ?thesis using rf(1) by (simp add: y)
  qed
  have other: "k \<noteq> i \<Longrightarrow> yes s' k = yes s k" for k by (simp add: y)
  have es: "set (electing s') \<subseteq> set (electing s)" "set (beating s') \<subseteq> insert i (set (beating s))"
    "set (confirms s') \<subseteq> set (confirms s) \<union> set (broadcast ips i)" "set (calls s') = set (calls s)"
    using assms(2) mem er set_remove1_subset [of i "electing s"]
    by (cases won; auto simp: set_peer_def Let_def)+
  have v: "vote (peers s i) + int (yes s i) \<le> int (given ips g i)" using assms(1) i by (simp add: votes_ok_def)
  have w: "won \<Longrightarrow> length ips div 2 + 1 \<le> given ips g i"
    using rf(1,7) yi v div_le_mono [of "length ips" "node_count s i" 2] assms(1) i by (fastforce simp: votes_ok_def)
  have "\<forall>k \<in> set ips. 0 \<le> vote (peers s' k) \<and> vote (peers s' k) + int (yes s' k) \<le> int (given ips g k)"
    using assms(1) yi v other rf(1) i by (auto simp: votes_ok_def p)
  moreover have "\<forall>k \<in> set ips. state (peers s' k) = 2 \<longrightarrow> length ips div 2 + 1 \<le> given ips g k"
    using assms(1) w rf(5) i by (auto simp: votes_ok_def p split: if_splits)
  moreover have "\<forall>k. rIP (peers s' k) = k \<and> me (peers s' k) = k @ ''3302''"
    using assms(1) rf(2,3) by (auto simp: votes_ok_def p)
  moreover have "\<forall>j \<in> set ips. votedFor (peers s' j) = nobody \<and> currentLeader (peers s' j) = nobody \<longrightarrow> g j = None"
    using assms(1) rf(4,6) nobody_ne i by (auto simp: votes_ok_def p split: if_splits)
  moreover have "set (calls s') \<subseteq> pairs ips \<and> set (confirms s') \<subseteq> pairs ips"
    using assms(1) es(3,4) broadcast_pairs [OF i] by (auto simp: votes_ok_def)
  moreover have "set (electing s') \<subseteq> set ips \<and> set (beating s') \<subseteq> set ips"
    using assms(1) es(1,2) i by (auto simp: votes_ok_def)
  moreover have "\<forall>k \<in> set ips. length ips \<le> node_count s' k"
    using assms(1,2) mem er by (cases won) (auto simp: votes_ok_def set_peer_def Let_def)
  ultimately show ?thesis unfolding votes_ok_def by blast
qed

lemma votes_ok_other:
  assumes "votes_ok ips s g" and "do_event ips e s = Some s'" and "nobody \<notin> set ips"
    and "e = VoteCallFails i j \<or> e = Confirm i j \<or> e = ConfirmFails i j \<or> e = HeartBeat i j now \<or> e = HeartSent i now"
  shows "votes_ok ips s' g"
proof -
  have r1: "set (remove1 (i, j) (calls s)) \<subseteq> set (calls s)" "set (remove1 (i, j) (confirms s)) \<subseteq> set (confirms s)"
    by (rule set_remove1_subset)+
  have sub: "set (calls s) \<subseteq> pairs ips" "set (confirms s) \<subseteq> pairs ips" and ri: "rIP (peers s i) = i"
    and b: "set (beating s) \<subseteq> set ips" using assms(1) by (simp_all add: votes_ok_def)
  consider "e = VoteCallFails i j" | "e = Confirm i j" | "e = ConfirmFails i j" | "e = HeartBeat i j now" | "e = HeartSent i now"
    using assms(4) by blast
  then show ?thesis
  proof cases
    case 1
    then have s': "s' = s\<lparr>calls := remove1 (i, j) (calls s), replies := (i, False) # replies s\<rparr>"
      using assms(2) by (auto split: if_splits)
    show ?thesis using assms(1) r1 by (auto simp: votes_ok_def s' yes_def)
  next
    case 2
    then have ij: "(i, j) \<in> set (confirms s)" and s': "s' = (set_peer j (ConfirmationLeader i (peers s j)) s)
        \<lparr>confirms := remove1 (i, j) (confirms s)\<rparr>"
      using assms(2) ri by (auto split: if_splits)
    have ne: "i \<noteq> nobody" using ij sub assms(3) by (auto simp: pairs_def)
    have p: "peers s' = (peers s)(j := ConfirmationLeader i (peers s j))" by (simp add: s' set_peer_def)
    have c: "votedFor (ConfirmationLeader i rf) = nobody" "currentLeader (ConfirmationLeader i rf) = i"
      "vote (ConfirmationLeader i rf) = 0" "state (ConfirmationLeader i rf) = 0"
      "rIP (ConfirmationLeader i rf) = rIP rf" "me (ConfirmationLeader i rf) = me rf" for rf
      by (simp_all add: ConfirmationLeader_def reDefault_def)
    have y: "yes s' k = yes s k" for k by (simp add: s' set_peer_def yes_def)
    have v: "int (yes s j) \<le> int (given ips g j)" if "j \<in> set ips"
      using assms(1) that by (force simp: votes_ok_def)
    show ?thesis
      unfolding votes_ok_def y p
      using assms(1) ne r1 v by (auto simp: votes_ok_def s' set_peer_def c)
  next
    case 3
    then have s': "s' = s\<lparr>confirms := remove1 (i, j) (confirms s)\<rparr>"
      using assms(2) by (auto split: if_splits)
    show ?thesis using assms(1) r1 by (auto simp: votes_ok_def s' yes_def)
  next
    case 4
    then have m: "i \<in> set (beating s)" and s': "s' = set_peer j (HeartBeatResponse i now (peers s j)) s"
      using assms(2) ri by (auto split: if_splits)
    have ne: "i \<noteq> nobody" using m b assms(3) by auto
    show ?thesis using assms(1) ne by (auto simp: votes_ok_def s' set_peer_def HeartBeatResponse_def yes_def)
  next
    case 5
    then have s': "s' = set_peer i (heart_sent now (peers s i)) s" using assms(2) by (auto split: if_splits)
    show ?thesis using assms(1) by (auto simp: votes_ok_def s' set_peer_def heart_sent_def yes_def)
  qed
qed

lemma votes_ok_step:
  assumes "votes_ok ips s g" and "do_event ips e s = Some s'" and "nobody \<notin> set ips" and "\<not> is_timeout e"
  shows "\<exists>g'. votes_ok ips s' g'"
proof (cases e)
  case (Candidate i)
  then show ?thesis using votes_ok_Candidate assms by blast
next
  case (VoteCall i j)
  then show ?thesis using votes_ok_VoteCall assms by blast
next
  case (Reply i ok)
  then show ?thesis using votes_ok_Reply assms by blast
qed (use votes_ok_other [OF assms(1,2,3)] assms(4) in auto)

lemma votes_ok_start: "\<forall>i \<in> set ips. length ips \<le> n i \<Longrightarrow> votes_ok ips (raft_started n ips) (\<lambda>_. None)"
  by (simp add: votes_ok_def raft_started_def NewRaft_def yes_def given_def)

lemma votes_ok_run:
  "votes_ok ips s g \<Longrightarrow> nobody \<notin> set ips \<Longrightarrow> \<forall>e \<in> set es. \<not> is_timeout e \<Longrightarrow>
   do_events ips es s = Some s' \<Longrightarrow> \<exists>g'. votes_ok ips s' g'"
proof (induction es arbitrary: s g)
  case Nil
  then show ?case by auto
next
  case (Cons e es)
  from Cons.prems(4) obtain s1 where s1: "do_event ips e s = Some s1" "do_events ips es s1 = Some s'"
    by (auto simp: bind_eq_Some_conv)
  obtain g1 where "votes_ok ips s1 g1" using votes_ok_step [OF Cons.prems(1) s1(1) Cons.prems(2)] Cons.prems(3) by auto
  then show ?case using Cons.IH s1(2) Cons.prems(2,3) by auto
qed


definition first_election :: "raft_event list" where
  "first_election = [Candidate ''B'', VoteCall ''B'' ''A'', Reply ''B'' True, VoteCall ''B'' ''C'',
     Confirm ''B'' ''A'', Confirm ''B'' ''C'', HeartBeat ''B'' ''A'' 1, HeartBeat ''B'' ''C'' 1]"

definition after_partition :: "raft_event list" where
  "after_partition = [HeartTimeout ''A'' 5000, HeartTimeout ''C'' 5000, Candidate ''A'',
     VoteCall ''A'' ''C'', Reply ''A'' True, HeartBeat ''A'' ''B'' 5001, HeartBeat ''B'' ''A'' 5002]"

lemmas raft_eval = raft_start_def raft_started_def NewRaft_def becomeCandidate_def Vote_def election_reply_def
  ConfirmationLeader_def reDefault_def HeartBeatResponse_def heartTimeout_def nobody_def
  set_peer_def broadcast_def leaders_def first_election_def after_partition_def


text \<open>
  With heart-beat time-outs there can be two leaders for good: after \<open>B\<close> was elected and has
  sent heart beats, the two other members time out (a partition), elect \<open>A\<close>, and the confirmation
  does not reach \<open>B\<close>. Both are leaders, and heart beats between them change nothing about it,
  since \<open>HeartBeatResponse\<close> does not step a leader down and no term is compared.
\<close>

lemma two_leaders_after_timeouts:
  "\<exists>s. do_events [''A'', ''B'', ''C''] (first_election @ after_partition) (raft_start [''A'', ''B'', ''C'']) = Some s
     \<and> leaders [''A'', ''B'', ''C''] s = {''A'', ''B''}"
  by (simp add: raft_eval Let_def) auto

end
