(* ===== verification/Alg_Messages.thy ===== *)
theory Alg_Messages
  imports Data_Chain Sortition Strconv
begin

text \<open>
  The messages of the consensus and the keys that sign them: \<open>algorand/message.go\<close> and
  \<open>util/crypto.go\<close>. Ed25519, the VRF over it and \<open>encoding/json\<close> are libraries: they are fields
  of \<open>alg_lib\<close>, over which the operations are parametric.
\<close>

section \<open>Keys\<close>

record keys_lib =
  ed_public :: "bytes \<Rightarrow> bytes"
  ed_sign :: "bytes \<Rightarrow> bytes \<Rightarrow> bytes option"
  ed_verify :: "bytes \<Rightarrow> bytes \<Rightarrow> bytes \<Rightarrow> bool"
  vrf_prove :: "bytes \<Rightarrow> bytes \<Rightarrow> bytes \<Rightarrow> bytes option"
  vrf_proof2hash :: "bytes \<Rightarrow> bytes"

text \<open>
  \<open>ed_public sk\<close> is the public half of a private key, \<open>ed_sign sk m\<close> signs (no value is its
  error), \<open>ed_verify pk m sig\<close> verifies, \<open>vrf_prove pk sk m\<close> proves (no value is its error) and
  \<open>vrf_proof2hash\<close> is the output of a proof.
\<close>

definition PublicKeySize :: nat where
  "PublicKeySize = 32"

datatype alg_error = SignatureInvalid | PriorityMismatch | DecodeError | SignError

text \<open>
  A slice expression \<open>sign[:32]\<close> reaches up to the capacity of the slice; the capacity is taken to
  be the length here.
\<close>

definition RecoverPubkey :: "bytes \<Rightarrow> bytes go" where
  "RecoverPubkey sign = (if length sign < PublicKeySize then Inl IndexRange else Inr (take PublicKeySize sign))"

definition pub_VerifySign :: "keys_lib \<Rightarrow> bytes \<Rightarrow> bytes \<Rightarrow> bytes \<Rightarrow> alg_error option go" where
  "pub_VerifySign K pk m sign =
     (if length sign < PublicKeySize then Inl IndexRange
      else let signature = drop PublicKeySize sign
           in Inr (if ed_verify K pk m signature then None else Some SignatureInvalid))"

text \<open>The result of the library's check is dropped: \<open>VerifyVRF\<close> reports no error, ever.\<close>

definition VerifyVRF :: "bytes \<Rightarrow> bytes \<Rightarrow> bytes \<Rightarrow> alg_error option" where
  "VerifyVRF pk proof m = None"

definition priv_Sign :: "keys_lib \<Rightarrow> bytes \<Rightarrow> bytes \<Rightarrow> bytes option" where
  "priv_Sign K sk m =
     (case ed_sign K sk m of None \<Rightarrow> None | Some sign \<Rightarrow> Some (ed_public K sk @ sign))"

text \<open>Value and proof; both are nil when the library reports an error.\<close>

definition Evaluate :: "keys_lib \<Rightarrow> bytes \<Rightarrow> bytes \<Rightarrow> (bytes \<times> bytes) option" where
  "Evaluate K sk m =
     (case vrf_prove K (ed_public K sk) sk m of
        None \<Rightarrow> None
      | Some proof \<Rightarrow> Some (vrf_proof2hash K proof, proof))"

definition pub_Address :: "bytes \<Rightarrow> address" where
  "pub_Address pk = BytesToAddress pk"

section \<open>Message types\<close>

definition VOTE :: int where "VOTE = 0"
definition BlockProposal :: int where "BlockProposal = 1"
definition BLOCK :: int where "BLOCK = 2"

definition ExpectedBlockProposers :: int where "ExpectedBlockProposers = 26"
definition ExpectedCommitteeMembers :: int where "ExpectedCommitteeMembers = 10"
definition ExpectedFinalCommitteeMembers :: int where "ExpectedFinalCommitteeMembers = 20"
definition ThresholdOfBAStep :: rat where "ThresholdOfBAStep = 2 / 10"
definition FinalThreshold :: rat where "FinalThreshold = 1 / 10"
definition MAXSTEPS :: int where "MAXSTEPS = 12"
definition R :: uint64 where "R = 1000"
definition PROPOSE :: int where "PROPOSE = 1000"
definition ReductionOne :: int where "ReductionOne = 1001"
definition ReductionTwo :: int where "ReductionTwo = 1002"
definition FINAL :: int where "FINAL = 1003"
definition FinalConsensus :: int where "FinalConsensus = 0"
definition TentativeConsensus :: int where "TentativeConsensus = 1"
definition Committee :: string where "Committee = ''committee''"
definition Proposer :: string where "Proposer = ''proposer''"

lemmas alg_params = VOTE_def BlockProposal_def BLOCK_def ExpectedBlockProposers_def
  ExpectedCommitteeMembers_def ExpectedFinalCommitteeMembers_def ThresholdOfBAStep_def
  FinalThreshold_def MAXSTEPS_def R_def PROPOSE_def ReductionOne_def ReductionTwo_def FINAL_def
  FinalConsensus_def TentativeConsensus_def

section \<open>Votes\<close>

record vote_message =
  v_Signature :: bytes
  v_Round :: uint64
  v_Step :: int
  v_VRF :: bytes
  v_Proof :: bytes
  v_ParentHash :: bytes
  v_Hash :: bytes

definition vote_data :: "vote_message \<Rightarrow> bytes" where
  "vote_data v = Uint2Bytes (v_Round v) @ Uint2Bytes (word_of_int (v_Step v)) @ v_VRF v @ v_Proof v
     @ v_ParentHash v @ v_Hash v"

definition vote_RecoverPubkey :: "vote_message \<Rightarrow> bytes go" where
  "vote_RecoverPubkey v = RecoverPubkey (v_Signature v)"

definition vote_VerifySign :: "keys_lib \<Rightarrow> vote_message \<Rightarrow> alg_error option go" where
  "vote_VerifySign K v =
     bind_go (vote_RecoverPubkey v) (\<lambda>pubkey. pub_VerifySign K pubkey (vote_data v) (v_Signature v))"

definition vote_Sign :: "keys_lib \<Rightarrow> bytes \<Rightarrow> vote_message \<Rightarrow> vote_message option" where
  "vote_Sign K sk v =
     (case priv_Sign K sk (vote_data v) of None \<Rightarrow> None | Some sign \<Rightarrow> Some (v\<lparr>v_Signature := sign\<rparr>))"

section \<open>Proposals\<close>

record proposal =
  p_Round :: uint64
  p_Hash :: bytes
  p_Prior :: bytes
  p_VRF :: bytes
  p_Proof :: bytes
  p_Pubkey :: bytes

definition p_Address :: "proposal \<Rightarrow> address" where
  "p_Address b = BytesToAddress (p_Pubkey b)"

definition proposal_Verify :: "(bytes \<Rightarrow> bytes) \<Rightarrow> (int \<Rightarrow> rat) \<Rightarrow> proposal \<Rightarrow> uint64 \<Rightarrow> bytes \<Rightarrow> alg_error option" where
  "proposal_Verify sha epow b weight m =
     (case VerifyVRF (p_Pubkey b) (p_Proof b) m of
        Some e \<Rightarrow> Some e
      | None \<Rightarrow>
          let subusers = subUsers epow ExpectedBlockProposers weight (p_VRF b)
          in if maxPriority sha (p_VRF b) subusers \<noteq> p_Prior b then Some PriorityMismatch else None)"

section \<open>The key under which votes are filed\<close>

definition ConstructVoteKey :: "uint64 \<Rightarrow> int \<Rightarrow> string" where
  "ConstructVoteKey rnd step = Itoa (sint rnd) @ Itoa step"

lemma Itoa_inject_all: "Itoa i = Itoa j \<Longrightarrow> i = j"
proof -
  have d: "digits n \<noteq> CHR ''-'' # s" for n s
    using digits_all [of n] by (auto simp: is_digit_def)
  have e: "digits m = digits n \<longleftrightarrow> m = n" for m n
    using digits_value_digits by metis
  assume "Itoa i = Itoa j"
  then show "i = j" using d d [THEN not_sym] by (auto simp: Itoa_def e split: if_splits)
qed

lemma sint_small: "unat (w :: uint64) < 2 ^ 63 \<Longrightarrow> sint w = int (unat w)"
proof -
  assume "unat w < 2 ^ 63"
  then have "uint w < 2 ^ 63" by (metis of_nat_less_iff of_nat_numeral of_nat_power uint_nat)
  then have "signed_take_bit 63 (uint w) = uint w"
    using uint_ge_0 [of w] by (intro signed_take_bit_int_eq_self) linarith+
  then show "sint w = int (unat w)" by (simp add: sint_uint)
qed

lemma Itoa_int: "Itoa (int n) = digits n"
  by (simp add: Itoa_def)

section \<open>Properties\<close>

lemma vote_data_signature [simp]: "vote_data (v\<lparr>v_Signature := s\<rparr>) = vote_data v"
  by (simp add: vote_data_def)

lemma vote_VerifySign_ok:
  "vote_VerifySign K v = Inr None \<longleftrightarrow> PublicKeySize \<le> length (v_Signature v)
     \<and> ed_verify K (take PublicKeySize (v_Signature v)) (vote_data v) (drop PublicKeySize (v_Signature v))"
  by (auto simp: vote_VerifySign_def vote_RecoverPubkey_def RecoverPubkey_def pub_VerifySign_def
      bind_go_Inr_iff Let_def)

lemma vote_VerifySign_short:
  "length (v_Signature v) < PublicKeySize \<Longrightarrow> vote_VerifySign K v = Inl IndexRange"
  by (simp add: vote_VerifySign_def vote_RecoverPubkey_def RecoverPubkey_def)

lemma vote_VerifySign_long:
  "PublicKeySize \<le> length (v_Signature v) \<Longrightarrow> vote_VerifySign K v =
     Inr (if ed_verify K (take PublicKeySize (v_Signature v)) (vote_data v)
            (drop PublicKeySize (v_Signature v)) then None else Some SignatureInvalid)"
  by (simp add: vote_VerifySign_def vote_RecoverPubkey_def RecoverPubkey_def pub_VerifySign_def Let_def)

definition toy_keys :: keys_lib where
  "toy_keys = \<lparr>ed_public = (\<lambda>sk. take 32 (sk @ replicate 32 CHR 0x00)), ed_sign = (\<lambda>sk m. Some (rev m)),
     ed_verify = (\<lambda>pk m s. s = rev m), vrf_prove = (\<lambda>pk sk m. Some (sk @ m)), vrf_proof2hash = (\<lambda>p. [])\<rparr>"

text \<open>
  A signed vote verifies and gives back the signer's public key, if Ed25519 accepts what it
  signed and public keys have 32 bytes; and a vote whose signature is shorter than a public key
  makes \<open>VerifySign\<close> panic instead of returning an error.
\<close>

theorem vote_sign_verifies:
  assumes "length (ed_public K sk) = 32"
    and "\<And>m s. ed_sign K sk m = Some s \<Longrightarrow> ed_verify K (ed_public K sk) m s"
    and "vote_Sign K sk v = Some v'"
  shows "vote_VerifySign K v' = Inr None \<and> vote_RecoverPubkey v' = Inr (ed_public K sk)
     \<and> vote_data v' = vote_data v \<and> vote_VerifySign K (v'\<lparr>v_Signature := take 31 s\<rparr>) = Inl IndexRange"
proof -
  obtain s' where s': "ed_sign K sk (vote_data v) = Some s'" "v' = v\<lparr>v_Signature := ed_public K sk @ s'\<rparr>"
    using assms(3) by (auto simp: vote_Sign_def priv_Sign_def split: option.splits)
  then show ?thesis
    using assms(1,2) by (simp add: vote_VerifySign_ok vote_RecoverPubkey_def RecoverPubkey_def
        PublicKeySize_def vote_VerifySign_short)
qed

theorem vote_sign_verifies_witness:
  "\<exists>v'. vote_Sign toy_keys ''k'' (\<lparr>v_Signature = [], v_Round = 3, v_Step = 1, v_VRF = [], v_Proof = [],
      v_ParentHash = ''p'', v_Hash = ''h''\<rparr>) = Some v' \<and> vote_VerifySign toy_keys v' = Inr None"
proof -
  let ?v = "\<lparr>v_Signature = [], v_Round = 3, v_Step = 1, v_VRF = [], v_Proof = [],
      v_ParentHash = ''p'', v_Hash = ''h''\<rparr>"
  obtain v' where v': "vote_Sign toy_keys ''k'' ?v = Some v'"
    by (simp add: vote_Sign_def priv_Sign_def toy_keys_def)
  have "vote_VerifySign toy_keys v' = Inr None"
    using vote_sign_verifies [OF _ _ v'] by (simp add: toy_keys_def)
  with v' show ?thesis by blast
qed

text \<open>
  Votes are filed under the decimal digits of the round followed by those of the step, with
  nothing between them. Keys of steps with the same number of digits are equal only for equal
  rounds and steps, so the votes of the first nine steps of all rounds are kept apart; but the
  votes of step 11 of a round are filed with those of step 1 of ten times the round plus one.
\<close>

theorem vote_key:
  "(length (Itoa step) = length (Itoa step') \<longrightarrow>
      ConstructVoteKey rnd step = ConstructVoteKey rnd' step' \<longrightarrow> rnd = rnd' \<and> step = step')
   \<and> (unat rnd < 10 ^ 17 \<longrightarrow> 0 < rnd \<longrightarrow> ConstructVoteKey rnd 11 = ConstructVoteKey (10 * rnd + 1) 1)"
proof (intro conjI impI)
  assume l: "length (Itoa step) = length (Itoa step')"
    and k: "ConstructVoteKey rnd step = ConstructVoteKey rnd' step'"
  then have "Itoa (sint rnd) = Itoa (sint rnd') \<and> Itoa step = Itoa step'"
    by (simp add: ConstructVoteKey_def)
  then have "sint rnd = sint rnd' \<and> step = step'" using Itoa_inject_all by blast
  then show "rnd = rnd'" and "step = step'" by (auto simp: signed_word_eqI)
next
  assume r: "unat rnd < 10 ^ 17" "0 < rnd"
  have s: "sint rnd = int (unat rnd)" using r(1) by (simp add: sint_small)
  have u: "unat (10 * rnd + 1) = 10 * unat rnd + 1"
    using r(1) by (simp add: unat_word_ariths)
  have s': "sint (10 * rnd + 1) = int (10 * unat rnd + 1)"
    using r(1) u sint_small [of "10 * rnd + 1"] by simp
  have "Itoa (sint (10 * rnd + 1)) = digits (10 * unat rnd + 1)"
    unfolding s' by (rule Itoa_int)
  also have "\<dots> = digits (unat rnd) @ ''1''"
  proof -
    have "\<not> 10 * unat rnd + 1 < 10" using r(2) by (simp add: word_less_nat_alt)
    moreover have "(10 * unat rnd + 1) div 10 = unat rnd" by simp
    moreover have "digit (10 * unat rnd + 1) = CHR ''1''" by (simp add: digit_def mod_mult_self4 char_of_def bit_0)
    ultimately show ?thesis by (subst digits.simps) simp
  qed
  finally have "Itoa (sint (10 * rnd + 1)) = digits (unat rnd) @ ''1''" .
  moreover have "digit 1 = CHR ''1''" "digit 11 = CHR ''1''"
    by (simp_all add: digit_def char_of_def bit_0)
  then have d: "digits 1 = ''1''" by (subst digits.simps) simp
  then have "digits 11 = ''11''" using \<open>digit 11 = CHR ''1''\<close> by (subst digits.simps) simp
  then have "Itoa 1 = ''1''" "Itoa 11 = ''11''"
    using Itoa_int [of 1] Itoa_int [of 11] d by simp_all
  ultimately show "ConstructVoteKey rnd 11 = ConstructVoteKey (10 * rnd + 1) 1"
    using s Itoa_int [of "unat rnd"] by (simp add: ConstructVoteKey_def)
qed

theorem vote_key_witness:
  "ConstructVoteKey 1 11 = ConstructVoteKey 11 1 \<and> ConstructVoteKey 1 2 \<noteq> ConstructVoteKey 2 2"
  using vote_key [of 11 1 1 1] vote_key [of 2 2 1 2] by simp

end
