(* ===== verification/Alg_Peer.thy ===== *)
theory Alg_Peer
  imports Alg_Messages
begin

text \<open>
  What a node holds of the running consensus: \<open>algorand/peer.go\<close> without \<open>Handle\<close>, which needs the
  chain (theory \<open>Consensus\<close>). The package-level maps \<open>Pros\<close>, \<open>Blcoks\<close> and \<open>InVotes\<close> and the fields
  of \<open>Peer\<close> are one record; a missing key of a Go map of slices reads as the empty list.
\<close>

section \<open>State\<close>

record peer =
  Pros :: "uint64 \<Rightarrow> proposal list"
  Blcoks :: "uint64 \<Rightarrow> block list"
  InVotes :: "string \<Rightarrow> vote_message list"
  incomingVotes :: "string \<Rightarrow> vote_message list option"
  peer_blocks :: "uint64 \<Rightarrow> block list"
  maxProposals :: "uint64 \<Rightarrow> proposal list"

definition NewPeer :: peer where
  "NewPeer = \<lparr>Pros = (\<lambda>_. []), Blcoks = (\<lambda>_. []), InVotes = (\<lambda>_. []), incomingVotes = (\<lambda>_. None),
     peer_blocks = (\<lambda>_. []), maxProposals = (\<lambda>_. [])\<rparr>"

section \<open>Blocks and proposals\<close>

definition AddBlock :: "block \<Rightarrow> peer \<Rightarrow> peer" where
  "AddBlock blk p = p\<lparr>peer_blocks := (peer_blocks p)(Round blk := peer_blocks p (Round blk) @ [blk]),
     Blcoks := (Blcoks p)(Round blk := Blcoks p (Round blk) @ [blk])\<rparr>"

definition AddProposal :: "uint64 \<Rightarrow> proposal \<Rightarrow> peer \<Rightarrow> peer" where
  "AddProposal rnd pr p = p\<lparr>maxProposals := (maxProposals p)(rnd := maxProposals p rnd @ [pr]),
     Pros := (Pros p)(rnd := Pros p rnd @ [pr])\<rparr>"

definition better :: "proposal \<Rightarrow> proposal \<Rightarrow> proposal" where
  "better a b = (if p_Prior a \<le> p_Prior b then b else a)"

definition getMaxProposal :: "uint64 \<Rightarrow> peer \<Rightarrow> proposal go" where
  "getMaxProposal rnd p =
     (if Pros p rnd = [] then Inl IndexRange else Inr (foldl better (Pros p rnd ! 0) (Pros p rnd)))"

definition getBlock :: "uint64 \<Rightarrow> bytes \<Rightarrow> peer \<Rightarrow> block option" where
  "getBlock rnd hsh p =
     foldl (\<lambda>blk b. if CurrentBlockHash b = hsh then Some b else blk) None (Blcoks p rnd)"

definition clearProposal :: "uint64 \<Rightarrow> peer \<Rightarrow> peer" where
  "clearProposal rnd p = p\<lparr>maxProposals := (maxProposals p)(rnd := [])\<rparr>"

section \<open>Votes\<close>

definition add_in_vote :: "vote_message \<Rightarrow> peer \<Rightarrow> peer" where
  "add_in_vote v p = (let key = ConstructVoteKey (v_Round v) (v_Step v)
     in p\<lparr>InVotes := (InVotes p)(key := InVotes p key @ [v])\<rparr>)"

text \<open>
  An \<open>Iterator\<close> points at the list under a key of \<open>incomingVotes\<close>; that entry is never replaced, so
  the key stands for the pointer.
\<close>

record vote_iterator =
  it_key :: string
  it_index :: nat

definition list_add :: "string \<Rightarrow> vote_message \<Rightarrow> peer \<Rightarrow> peer" where
  "list_add key v p = p\<lparr>incomingVotes := (incomingVotes p)(key := map_option (\<lambda>l. l @ [v]) (incomingVotes p key))\<rparr>"

definition list_get :: "string \<Rightarrow> nat \<Rightarrow> peer \<Rightarrow> vote_message option" where
  "list_get key index p =
     (case incomingVotes p key of
        None \<Rightarrow> None
      | Some l \<Rightarrow> if length l \<le> index then None else Some (l ! index))"

definition voteIterator :: "uint64 \<Rightarrow> int \<Rightarrow> peer \<Rightarrow> vote_iterator \<times> peer" where
  "voteIterator rnd step p =
     (let key = ConstructVoteKey rnd step;
          p' = (if incomingVotes p key = None then p\<lparr>incomingVotes := (incomingVotes p)(key \<mapsto> [])\<rparr> else p)
      in (\<lparr>it_key = key, it_index = 0\<rparr>, p'))"

definition it_next :: "vote_iterator \<Rightarrow> peer \<Rightarrow> vote_message option \<times> vote_iterator" where
  "it_next it p =
     (case list_get (it_key it) (it_index it) p of
        None \<Rightarrow> (None, it)
      | Some el \<Rightarrow> (Some el, it\<lparr>it_index := it_index it + 1\<rparr>))"

definition getIncomingMsgs :: "uint64 \<Rightarrow> int \<Rightarrow> peer \<Rightarrow> vote_message list" where
  "getIncomingMsgs rnd step p =
     (case incomingVotes p (ConstructVoteKey rnd step) of None \<Rightarrow> [] | Some l \<Rightarrow> l)"

section \<open>Gossip\<close>

text \<open>
  \<open>Gossip\<close> calls \<open>Handle\<close> at every node of the cluster file but the one whose IP followed by the
  fixed port is the local id. \<open>answers\<close> tells which calls return without an error; a failed call
  panics after the messages before it went out. The result lists who was called.
\<close>

fun Gossip :: "string \<Rightarrow> string \<Rightarrow> (string \<Rightarrow> bool) \<Rightarrow> string list \<Rightarrow> string list go" where
  "Gossip port self answers [] = Inr []"
| "Gossip port self answers (ip # ips) =
     (if ip @ port = self then Gossip port self answers ips
      else if \<not> answers ip then Inl LogPanic
      else bind_go (Gossip port self answers ips) (\<lambda>called. Inr (ip # called)))"

section \<open>Properties\<close>

lemma getBlock_fold:
  "foldl (\<lambda>blk b. if CurrentBlockHash b = h then Some b else blk) None bs = Some b \<Longrightarrow>
     b \<in> set bs \<and> CurrentBlockHash b = h"
proof (induction bs rule: rev_induct)
  case Nil
  then show ?case by simp
next
  case (snoc x bs)
  show ?case
  proof (cases "CurrentBlockHash x = h")
    case True
    with snoc.prems have "x = b" by simp
    with True show ?thesis by simp
  next
    case False
    with snoc.prems have "foldl (\<lambda>blk b. if CurrentBlockHash b = h then Some b else blk) None bs = Some b"
      by simp
    from snoc.IH [OF this] show ?thesis by simp
  qed
qed

lemma getBlock_fold_None:
  "foldl (\<lambda>blk b. if CurrentBlockHash b = h then Some b else blk) None bs = None \<longleftrightarrow>
     (\<forall>b \<in> set bs. CurrentBlockHash b \<noteq> h)"
  by (induction bs rule: rev_induct) auto

lemma getBlock_Some: "getBlock rnd h p = Some b \<Longrightarrow> b \<in> set (Blcoks p rnd) \<and> CurrentBlockHash b = h"
  unfolding getBlock_def by (rule getBlock_fold)

lemma getBlock_None: "getBlock rnd h p = None \<longleftrightarrow> (\<forall>b \<in> set (Blcoks p rnd). CurrentBlockHash b \<noteq> h)"
  by (simp add: getBlock_def getBlock_fold_None)

lemma better_fold:
  "foldl better a ps \<in> insert a (set ps) \<and> (\<forall>q \<in> insert a (set ps). p_Prior q \<le> p_Prior (foldl better a ps))"
proof (induction ps rule: rev_induct)
  case Nil
  then show ?case by simp
next
  case (snoc q ps)
  then show ?case by (fastforce simp: better_def)
qed

lemma getMaxProposal_max:
  assumes "getMaxProposal rnd p = Inr pr"
  shows "pr \<in> set (Pros p rnd) \<and> (\<forall>q \<in> set (Pros p rnd). p_Prior q \<le> p_Prior pr)"
proof -
  have ne: "Pros p rnd \<noteq> []" and eq: "pr = foldl better (Pros p rnd ! 0) (Pros p rnd)"
    using assms by (auto simp: getMaxProposal_def split: if_splits)
  then have "insert (Pros p rnd ! 0) (set (Pros p rnd)) = set (Pros p rnd)" by auto
  with better_fold [of "Pros p rnd ! 0" "Pros p rnd"] eq show ?thesis by metis
qed

lemma getMaxProposal_snoc:
  "getMaxProposal rnd (AddProposal rnd pr p) =
     Inr (case getMaxProposal rnd p of Inl _ \<Rightarrow> pr | Inr m \<Rightarrow> better m pr)"
  by (auto simp: getMaxProposal_def AddProposal_def nth_append better_def)

text \<open>
  The proposal a node follows and its block. After a proposal was filed the chosen one is
  among the filed ones, none has a higher priority, and of equal ones the latest wins; with no
  proposal filed for the round the look-up panics instead of giving nil, which is what its caller
  tests for. Filed blocks are found by hash, the latest of several with the same hash first.
\<close>

theorem proposal_choice:
  "(case getMaxProposal rnd (AddProposal rnd pr p) of
      Inl e \<Rightarrow> False
    | Inr m \<Rightarrow> m \<in> insert pr (set (Pros p rnd)) \<and> (\<forall>q \<in> insert pr (set (Pros p rnd)). p_Prior q \<le> p_Prior m)
        \<and> (p_Prior m = p_Prior pr \<longrightarrow> m = pr))
   \<and> (getMaxProposal rnd p = Inl IndexRange \<longleftrightarrow> Pros p rnd = [])
   \<and> getBlock (Round b) (CurrentBlockHash b) (AddBlock b p) = Some b
   \<and> (getBlock rnd h p = Some b0 \<longrightarrow> b0 \<in> set (Blcoks p rnd) \<and> CurrentBlockHash b0 = h)"
proof -
  obtain m where m: "getMaxProposal rnd (AddProposal rnd pr p) = Inr m"
    using getMaxProposal_snoc by blast
  have s: "set (Pros (AddProposal rnd pr p) rnd) = insert pr (set (Pros p rnd))"
    by (simp add: AddProposal_def)
  have "p_Prior m = p_Prior pr \<longrightarrow> m = pr"
    using m unfolding getMaxProposal_snoc by (auto simp: better_def split: sum.splits if_splits)
  moreover have "getMaxProposal rnd p = Inl IndexRange \<longleftrightarrow> Pros p rnd = []" by (simp add: getMaxProposal_def)
  moreover have "getBlock (Round b) (CurrentBlockHash b) (AddBlock b p) = Some b"
    by (simp add: getBlock_def AddBlock_def)
  ultimately show ?thesis
    using getMaxProposal_max [OF m] getBlock_Some [of rnd h p b0] unfolding s by (simp add: m)
qed

definition toy_proposal :: "bytes \<Rightarrow> bytes \<Rightarrow> proposal" where
  "toy_proposal h pr = \<lparr>p_Round = 1, p_Hash = h, p_Prior = pr, p_VRF = [], p_Proof = [], p_Pubkey = []\<rparr>"

theorem proposal_choice_witness:
  "getMaxProposal 1 (AddProposal 1 (toy_proposal ''y'' ''p'') (AddProposal 1 (toy_proposal ''x'' ''p'') NewPeer))
     = Inr (toy_proposal ''y'' ''p'')"
  using proposal_choice [where rnd = 1 and pr = "toy_proposal ''y'' ''p''" and p = "AddProposal 1 (toy_proposal ''x'' ''p'') NewPeer"]
  by (simp add: AddProposal_def NewPeer_def toy_proposal_def getMaxProposal_def better_def)

lemma Gossip_Inr: "Gossip port self answers ips = Inr called \<Longrightarrow>
    called = filter (\<lambda>ip. ip @ port \<noteq> self) ips \<and> list_all answers called"
  by (induction ips arbitrary: called) (auto simp: bind_go_Inr_iff split: if_splits)

lemma Gossip_Inl: "Gossip port self answers ips = Inl e \<Longrightarrow>
    e = LogPanic \<and> (\<exists>ip \<in> set ips. ip @ port \<noteq> self \<and> \<not> answers ip)"
proof (induction ips)
  case (Cons ip ips)
  then show ?case by (cases "Gossip port self answers ips") (auto split: if_splits)
qed simp

text \<open>
  Gossip reaches every other node of the cluster file exactly once and in its order, if all of
  them answer; if one does not, the sending node panics, whatever the others do.
\<close>

theorem gossip_all_or_crash:
  "Gossip port self answers ips =
     (if list_all answers (filter (\<lambda>ip. ip @ port \<noteq> self) ips)
      then Inr (filter (\<lambda>ip. ip @ port \<noteq> self) ips) else Inl LogPanic)"
proof (cases "Gossip port self answers ips")
  case (Inl e)
  then show ?thesis using Gossip_Inl [of port self answers ips] by (auto simp: list_all_iff)
next
  case (Inr called)
  then show ?thesis using Gossip_Inr [of port self answers ips] by auto
qed

end
