(* ===== verification/Consensus.thy ===== *)
theory Consensus
  imports Alg_Peer
begin

text \<open>
  The consensus of a node: \<open>algorand/algorand.go\<close> and \<open>Handle\<close> of \<open>peer.go\<close>. An operation takes
  the environment (libraries, private key, random numbers), and the state of the node, which it
  returns changed; a result of type \<open>run\<close> is \<open>None\<close> if the operation never returns, a panic, or a
  value.

  What other nodes send is a schedule in the state: every place where the code sleeps takes one
  list of messages off \<open>a_arrive\<close> and handles them. What the node sends is appended to \<open>a_out\<close>;
  the node itself is not among the receivers of its gossip.
\<close>

section \<open>Environment and state\<close>

record 'db alg_env =
  e_bolt :: "'db bolt"
  e_hashes :: crypto
  e_block :: "block codec"
  e_vote :: "vote_message codec"
  e_proposal :: "proposal codec"
  e_keys :: keys_lib
  e_pow :: "int \<Rightarrow> rat"
  e_intn :: "nat \<Rightarrow> nat"
  e_priv :: bytes
  e_now :: uint64
  e_ticks :: nat

text \<open>
  \<open>e_pow\<close> is the exponential used by the binomial, \<open>e_intn i\<close> is the \<open>i\<close>-th result of
  \<open>rand.Intn(9950)\<close>, \<open>e_now\<close> the clock, and \<open>e_ticks\<close> how often the 200 ms ticker fires within
  \<open>LamdaBlock\<close>.
\<close>

record 'db alg_state =
  a_chain :: "'db data_chain"
  a_peer :: peer
  a_drawn :: nat
  a_out :: "(int \<times> bytes) list"
  a_arrive :: "(int \<times> bytes) list list"

definition lift_go :: "'a go \<Rightarrow> 'a run" where
  "lift_go m = Some m"

lemma lift_go_simps [simp]:
  "lift_go (Inl p) = Some (Inl p)"
  "lift_go (Inr x) = Some (Inr x)"
  by (simp_all add: lift_go_def)

definition Pubkey :: "'db alg_env \<Rightarrow> bytes" where
  "Pubkey E = ed_public (e_keys E) (e_priv E)"

definition lastBlock :: "'db alg_env \<Rightarrow> 'db alg_state \<Rightarrow> block run" where
  "lastBlock E s = lift_go (GetBlockByHash (e_bolt E) (e_block E) (a_chain s) (TailHash (a_chain s)))"

definition alg_Round :: "'db alg_env \<Rightarrow> 'db alg_state \<Rightarrow> uint64 run" where
  "alg_Round E s = bind_run (lastBlock E s) (\<lambda>b. return_run (Round b))"

text \<open>The weight of any address is drawn anew on every call.\<close>

definition alg_weight :: "'db alg_env \<Rightarrow> address \<Rightarrow> 'db alg_state \<Rightarrow> uint64 \<times> 'db alg_state" where
  "alg_weight E addr s = (of_nat (e_intn E (a_drawn s) + 50), s\<lparr>a_drawn := a_drawn s + 1\<rparr>)"

definition TokenOwn :: "'db alg_env \<Rightarrow> 'db alg_state \<Rightarrow> uint64 \<times> 'db alg_state" where
  "TokenOwn E s = alg_weight E (BytesToAddress (Pubkey E)) s"

definition gossip :: "int \<Rightarrow> bytes \<Rightarrow> 'db alg_state \<Rightarrow> 'db alg_state" where
  "gossip typ data s = s\<lparr>a_out := a_out s @ [(typ, data)]\<rparr>"

section \<open>Seeds\<close>

definition SortitionSeed :: "'db alg_env \<Rightarrow> 'db alg_state \<Rightarrow> uint64 \<Rightarrow> bytes run" where
  "SortitionSeed E s rnd =
     (let realR = rnd - 1; md = rnd mod R
      in if realR < md then return_run (sha256 (e_hashes E) [])
         else bind_run (GetByRound (e_bolt E) (e_block E) (a_chain s) (realR - md)) (\<lambda>blk.
                case blk of None \<Rightarrow> panic_run NilDeref | Some b \<Rightarrow> return_run (Seed b)))"

definition hash_seed :: "'db alg_env \<Rightarrow> bytes \<Rightarrow> uint64 \<Rightarrow> bytes" where
  "hash_seed E seed rnd = sha256 (e_hashes E) (seed @ Uint2Bytes rnd)"

text \<open>Seed and proof; no value is the error of \<open>Evaluate\<close>, the only one the function returns.\<close>

definition vrfSeed :: "'db alg_env \<Rightarrow> 'db alg_state \<Rightarrow> uint64 \<Rightarrow> (bytes \<times> bytes) option run" where
  "vrfSeed E s rnd =
     (if rnd = 0 then return_run (Some (sha256 (e_hashes E) [], []))
      else bind_run (GetByRound (e_bolt E) (e_block E) (a_chain s) (rnd - 1)) (\<lambda>blk.
        let evaluate = (\<lambda>b. return_run (Evaluate (e_keys E) (e_priv E) (Seed b @ Uint2Bytes (Round b + 1))))
        in if rnd \<noteq> 1
           then bind_run (lastBlock E s) (\<lambda>lastParentBlock.
             case blk of
               None \<Rightarrow> panic_run NilDeref
             | Some b \<Rightarrow>
                 bind_run (if Proof b \<noteq> []
                     then bind_run (lift_go (RecoverPubkey (BSignature b))) (\<lambda>pubkey.
                       return_run (VerifyVRF pubkey (Proof b) (Seed lastParentBlock @ Uint2Bytes (Round b)) \<noteq> None))
                     else return_run (Seed b \<noteq> hash_seed E (Seed lastParentBlock) (Round b)))
                   (\<lambda>invalid. if invalid then return_run (Some (hash_seed E (Seed b) (Round b + 1), []))
                              else evaluate b))
           else (case blk of None \<Rightarrow> panic_run NilDeref | Some b \<Rightarrow> evaluate b)))"

definition emptyBlock :: "uint64 \<Rightarrow> bytes \<Rightarrow> block" where
  "emptyBlock rnd prevHash = NewBlock\<lparr>Round := rnd, PreviousBlockHash := prevHash\<rparr>"

section \<open>Sortition and votes\<close>

definition Sortition :: "'db alg_env \<Rightarrow> bytes \<Rightarrow> bytes \<Rightarrow> int \<Rightarrow> uint64 \<Rightarrow> bytes \<times> bytes \<times> int" where
  "Sortition E seed role expectedNum weight =
     (let (vrf, proof) = (case Evaluate (e_keys E) (e_priv E) (constructSeed seed role) of
                            None \<Rightarrow> ([], []) | Some vp \<Rightarrow> vp)
      in (vrf, proof, subUsers (e_pow E) expectedNum weight vrf))"

definition verifySort :: "'db alg_env \<Rightarrow> bytes \<Rightarrow> bytes \<Rightarrow> bytes \<Rightarrow> bytes \<Rightarrow> int \<Rightarrow> 'db alg_state \<Rightarrow>
    int \<times> 'db alg_state" where
  "verifySort E vrf proof seed role expectedNum s =
     (if VerifyVRF (Pubkey E) proof (constructSeed seed role) \<noteq> None then (0, s)
      else let (weight, s') = TokenOwn E s in (subUsers (e_pow E) expectedNum weight vrf, s'))"

definition committeeVote :: "'db alg_env \<Rightarrow> uint64 \<Rightarrow> int \<Rightarrow> int \<Rightarrow> bytes \<Rightarrow> 'db alg_state \<Rightarrow>
    (alg_error option \<times> 'db alg_state) run" where
  "committeeVote E rnd step expectedNum hsh s =
     bind_run (SortitionSeed E s rnd) (\<lambda>seed.
       let (weight, s1) = TokenOwn E s;
           (vrf, proof, j) = Sortition E seed (Role Committee rnd step) expectedNum weight
       in if 0 < j
          then (case vote_Sign (e_keys E) (e_priv E)
                       \<lparr>v_Signature = [], v_Round = rnd, v_Step = step, v_VRF = vrf, v_Proof = proof,
                        v_ParentHash = TailHash (a_chain s), v_Hash = hsh\<rparr> of
                  None \<Rightarrow> return_run (Some SignError, s1)
                | Some v \<Rightarrow> return_run (None, gossip VOTE (encode (e_vote E) v) s1))
          else return_run (None, s1))"

text \<open>All callers drop the error.\<close>

definition cast_vote :: "'db alg_env \<Rightarrow> uint64 \<Rightarrow> int \<Rightarrow> int \<Rightarrow> bytes \<Rightarrow> 'db alg_state \<Rightarrow> 'db alg_state run" where
  "cast_vote E rnd step expectedNum hsh s =
     bind_run (committeeVote E rnd step expectedNum hsh s) (\<lambda>(_, s'). return_run s')"

definition processMsg :: "'db alg_env \<Rightarrow> vote_message \<Rightarrow> int \<Rightarrow> 'db alg_state \<Rightarrow>
    ((int \<times> bytes \<times> bytes) \<times> 'db alg_state) run" where
  "processMsg E m expectedNum s =
     bind_run (lift_go (vote_VerifySign (e_keys E) m)) (\<lambda>err.
       if err \<noteq> None then return_run ((0, [], []), s)
       else if v_ParentHash m \<noteq> TailHash (a_chain s) then return_run ((0, [], []), s)
       else bind_run (SortitionSeed E s (v_Round m)) (\<lambda>seed.
              let (votes, s') = verifySort E (v_VRF m) (v_Proof m) seed
                                  (Role Committee (v_Round m) (v_Step m)) expectedNum s
              in return_run ((votes, v_Hash m, v_VRF m), s')))"

section \<open>Messages from other nodes\<close>

definition Handle :: "'db alg_env \<Rightarrow> int \<Rightarrow> bytes \<Rightarrow> 'db alg_state \<Rightarrow>
    (alg_error option \<times> 'db alg_state) run" where
  "Handle E typ data s =
     (if typ = BLOCK
      then bind_run (lift_go (Deserialize (e_block E) data)) (\<lambda>blk.
             return_run (None, s\<lparr>a_peer := AddBlock blk (a_peer s)\<rparr>))
      else if typ = BlockProposal
      then (case decode (e_proposal E) data of
              None \<Rightarrow> return_run (Some DecodeError, s)
            | Some bp \<Rightarrow>
                let (weight, s1) = alg_weight E (p_Address bp) s
                in bind_run (SortitionSeed E s1 (p_Round bp)) (\<lambda>seed.
                     case proposal_Verify (sha256 (e_hashes E)) (e_pow E) bp weight
                            (constructSeed seed (Role Proposer (p_Round bp) PROPOSE)) of
                       Some e \<Rightarrow> return_run (Some e, s1)
                     | None \<Rightarrow> return_run (None, s1\<lparr>a_peer := AddProposal (p_Round bp) bp (a_peer s1)\<rparr>)))
      else if typ = VOTE
      then (case decode (e_vote E) data of
              None \<Rightarrow> return_run (Some DecodeError, s)
            | Some v \<Rightarrow> return_run (None, s\<lparr>a_peer := add_in_vote v (a_peer s)\<rparr>))
      else return_run (None, s))"

definition handle_all :: "'db alg_env \<Rightarrow> (int \<times> bytes) list \<Rightarrow> 'db alg_state \<Rightarrow> 'db alg_state run" where
  "handle_all E msgs s =
     fold_run (\<lambda>s (typ, data). bind_run (Handle E typ data s) (\<lambda>(_, s'). return_run s')) s msgs"

definition sleep :: "'db alg_env \<Rightarrow> 'db alg_state \<Rightarrow> 'db alg_state run" where
  "sleep E s =
     (case a_arrive s of
        [] \<Rightarrow> return_run s
      | msgs # rest \<Rightarrow> handle_all E msgs (s\<lparr>a_arrive := rest\<rparr>))"

section \<open>Counting\<close>

definition quorum :: "rat \<Rightarrow> int \<Rightarrow> int" where
  "quorum threshold expectedNum = \<lfloor>of_int expectedNum * threshold\<rfloor>"

record 'db count =
  c_res :: bytes
  c_counts :: "int \<Rightarrow> int"
  c_voters :: "bytes set"
  c_state :: "'db alg_state"

definition count_vote :: "'db alg_env \<Rightarrow> rat \<Rightarrow> int \<Rightarrow> 'db count \<Rightarrow> vote_message \<Rightarrow> 'db count run" where
  "count_vote E threshold expectedNum c voteMsg =
     bind_run (processMsg E voteMsg expectedNum (c_state c)) (\<lambda>((votes, hsh, _), s').
       bind_run (lift_go (vote_RecoverPubkey voteMsg)) (\<lambda>pubkey.
         if pubkey \<in> c_voters c \<or> votes = 0 then return_run (c\<lparr>c_state := s'\<rparr>)
         else bind_run (lift_go (BytesToInt32 hsh)) (\<lambda>index.
                let n = c_counts c index + votes
                in return_run \<lparr>c_res = (if quorum threshold expectedNum \<le> n then hsh else c_res c),
                               c_counts = (c_counts c)(index := n),
                               c_voters = insert pubkey (c_voters c), c_state = s'\<rparr>)))"

text \<open>
  The result is the hash and whether the error is \<open>errCountVotesTimeout\<close>. The timer of \<open>countVotes\<close>
  is started before the code sleeps for the same time, so it has fired when no vote is there.
\<close>

definition countVotes :: "'db alg_env \<Rightarrow> uint64 \<Rightarrow> int \<Rightarrow> rat \<Rightarrow> int \<Rightarrow> 'db alg_state \<Rightarrow>
    ((bytes \<times> bool) \<times> 'db alg_state) run" where
  "countVotes E rnd step threshold expectedNum s =
     bind_run (sleep E s) (\<lambda>s1.
       let votes = InVotes (a_peer s1) (ConstructVoteKey rnd step)
       in if votes = [] then return_run (([], True), s1)
          else bind_run (fold_run (count_vote E threshold expectedNum)
                   \<lparr>c_res = [], c_counts = (\<lambda>_. 0), c_voters = {}, c_state = s1\<rparr> votes)
                 (\<lambda>c. return_run ((c_res c, False), c_state c)))"

definition coin_hash :: "'db alg_env \<Rightarrow> bytes \<Rightarrow> nat \<Rightarrow> nat" where
  "coin_hash E vrf j = be_nat (sha256 (e_hashes E) (vrf @ Uint2Bytes (of_nat j)))"

definition coin_msg :: "'db alg_env \<Rightarrow> int \<Rightarrow> nat \<times> 'db alg_state \<Rightarrow> vote_message \<Rightarrow> (nat \<times> 'db alg_state) run" where
  "coin_msg E expectedNum ms msg = (case ms of (minhash, s) \<Rightarrow>
     bind_run (processMsg E msg expectedNum s) (\<lambda>((votes, _, vrf), s').
       return_run (foldl (\<lambda>m j. if coin_hash E vrf j < m then coin_hash E vrf j else m) minhash
                     [1..<nat votes], s')))"

definition commonCoin :: "'db alg_env \<Rightarrow> uint64 \<Rightarrow> int \<Rightarrow> int \<Rightarrow> 'db alg_state \<Rightarrow> (nat \<times> 'db alg_state) run" where
  "commonCoin E rnd step expectedNum s =
     bind_run (fold_run (coin_msg E expectedNum) (2 ^ HashLength, s) (getIncomingMsgs rnd step (a_peer s)))
       (\<lambda>(minhash, s'). return_run (minhash mod 2, s'))"

section \<open>Agreement\<close>

definition reduction :: "'db alg_env \<Rightarrow> uint64 \<Rightarrow> bytes \<Rightarrow> 'db alg_state \<Rightarrow> (bytes \<times> 'db alg_state) run" where
  "reduction E rnd hsh s =
     bind_run (cast_vote E rnd ReductionOne ExpectedCommitteeMembers hsh s) (\<lambda>s1.
     bind_run (countVotes E rnd ReductionOne ThresholdOfBAStep ExpectedCommitteeMembers s1) (\<lambda>((hash1, timeout1), s2).
       let emp = emptyHash (sha256 (e_hashes E)) rnd (TailHash (a_chain s2))
       in bind_run (cast_vote E rnd ReductionTwo ExpectedCommitteeMembers (if timeout1 then emp else hash1) s2) (\<lambda>s3.
          bind_run (countVotes E rnd ReductionTwo ThresholdOfBAStep ExpectedCommitteeMembers s3) (\<lambda>((hash2, timeout2), s4).
            return_run (if timeout2 then emp else hash2, s4)))))"

definition vote_and_count :: "'db alg_env \<Rightarrow> uint64 \<Rightarrow> int \<Rightarrow> bytes \<Rightarrow> 'db alg_state \<Rightarrow>
    ((bytes \<times> bool) \<times> 'db alg_state) run" where
  "vote_and_count E rnd step r s =
     bind_run (cast_vote E rnd step ExpectedCommitteeMembers r s) (\<lambda>s1.
       countVotes E rnd step ThresholdOfBAStep ExpectedCommitteeMembers s1)"

definition vote_ahead :: "'db alg_env \<Rightarrow> uint64 \<Rightarrow> int \<Rightarrow> bytes \<Rightarrow> 'db alg_state \<Rightarrow> 'db alg_state run" where
  "vote_ahead E rnd step r s =
     fold_run (\<lambda>s i. cast_vote E rnd i ExpectedCommitteeMembers r s) s [step + 1..step + 3]"

text \<open>
  The loop of \<open>binaryBA\<close>. \<open>None\<close> is the wait on \<open>hangForever\<close> after the last step; the third phase
  of an iteration does not increase \<open>step\<close>.
\<close>

function binary_loop :: "'db alg_env \<Rightarrow> uint64 \<Rightarrow> bytes \<Rightarrow> bytes \<Rightarrow> int \<Rightarrow> bytes \<Rightarrow> 'db alg_state \<Rightarrow>
    (bytes \<times> 'db alg_state) run" where
  "binary_loop E rnd hsh emp step r s =
     (if step < MAXSTEPS then
        bind_run (vote_and_count E rnd step r s) (\<lambda>((r1, timeout1), s1).
          if \<not> timeout1 \<and> r1 \<noteq> emp then
            bind_run (vote_ahead E rnd step r1 s1) (\<lambda>s2.
            bind_run (if step = 1 then cast_vote E rnd FINAL ExpectedFinalCommitteeMembers r1 s2 else return_run s2)
              (\<lambda>s3. return_run (r1, s3)))
          else
            bind_run (vote_and_count E rnd (step + 1) (if timeout1 then hsh else r1) s1) (\<lambda>((r2, timeout2), s2).
              if \<not> timeout2 \<and> r2 = emp then
                bind_run (vote_ahead E rnd (step + 1) r2 s2) (\<lambda>s3. return_run (r2, s3))
              else
                bind_run (vote_and_count E rnd (step + 2) (if timeout2 then emp else r2) s2) (\<lambda>((r3, timeout3), s3).
                  bind_run (if timeout3
                            then bind_run (commonCoin E rnd (step + 2) ExpectedCommitteeMembers s3) (\<lambda>(coin, s4).
                                   return_run (if coin = 0 then hsh else emp, s4))
                            else return_run (r3, s3))
                    (\<lambda>(r', s'). binary_loop E rnd hsh emp (step + 2) r' s'))))
      else None)"
  by auto
termination
  by (relation "measure (\<lambda>(E, rnd, hsh, emp, step, r, s). nat (MAXSTEPS - step))") auto

declare binary_loop.simps [simp del]

definition binaryBA :: "'db alg_env \<Rightarrow> uint64 \<Rightarrow> bytes \<Rightarrow> 'db alg_state \<Rightarrow> (bytes \<times> 'db alg_state) run" where
  "binaryBA E rnd hsh s =
     binary_loop E rnd hsh (emptyHash (sha256 (e_hashes E)) rnd (TailHash (a_chain s))) 1 hsh s"

text \<open>
  \<open>BA\<close> writes the kind of consensus into the block it got from \<open>getBlock\<close>, which is the one in the
  peer's lists. A hash without a block gives nil, and the write panics.
\<close>

fun update_first :: "('a \<Rightarrow> bool) \<Rightarrow> ('a \<Rightarrow> 'a) \<Rightarrow> 'a list \<Rightarrow> 'a list" where
  "update_first P f [] = []"
| "update_first P f (x # xs) = (if P x then f x # xs else x # update_first P f xs)"

definition set_type :: "uint64 \<Rightarrow> bytes \<Rightarrow> int \<Rightarrow> peer \<Rightarrow> peer" where
  "set_type rnd hsh t p =
     (let upd = (\<lambda>bs. rev (update_first (\<lambda>b. CurrentBlockHash b = hsh) (\<lambda>b. b\<lparr>BType := t\<rparr>) (rev bs)))
      in p\<lparr>Blcoks := (Blcoks p)(rnd := upd (Blcoks p rnd)),
           peer_blocks := (peer_blocks p)(rnd := upd (peer_blocks p rnd))\<rparr>)"

definition BA :: "'db alg_env \<Rightarrow> uint64 \<Rightarrow> block \<Rightarrow> 'db alg_state \<Rightarrow> ((int \<times> block) \<times> 'db alg_state) run" where
  "BA E rnd blk s =
     bind_run (reduction E rnd (CurrentBlockHash blk) s) (\<lambda>(hash1, s1).
     bind_run (binaryBA E rnd hash1 s1) (\<lambda>(hsh, s2).
     bind_run (countVotes E rnd FINAL FinalThreshold ExpectedFinalCommitteeMembers s2) (\<lambda>((r, _), s3).
     bind_run (lastBlock E s3) (\<lambda>lb.
       let prevHash = CurrentBlockHash lb;
           t = (if r = hsh then FinalConsensus else TentativeConsensus)
       in if hsh = emptyHash (sha256 (e_hashes E)) rnd prevHash
          then return_run ((t, (emptyBlock rnd prevHash)\<lparr>BType := t\<rparr>), s3)
          else case getBlock rnd hsh (a_peer s3) of
                 None \<Rightarrow> panic_run NilDeref
               | Some newBlk \<Rightarrow> return_run ((t, newBlk\<lparr>BType := t\<rparr>), s3\<lparr>a_peer := set_type rnd hsh t (a_peer s3)\<rparr>)))))"

section \<open>Proposing a block\<close>

definition proposeBlock :: "'db alg_env \<Rightarrow> transaction list \<Rightarrow> 'db alg_state \<Rightarrow> block run" where
  "proposeBlock E txs s =
     bind_run (alg_Round E s) (\<lambda>last.
       let currRound = last + 1
       in bind_run (vrfSeed E s currRound) (\<lambda>sp.
            case sp of
              None \<Rightarrow> bind_run (lastBlock E s) (\<lambda>lb. return_run (emptyBlock currRound (CurrentBlockHash lb)))
            | Some (seed, proof) \<Rightarrow>
                bind_run (lift_go (InitBlock (e_hashes E) (e_block E) (e_now E) txs (TailHash (a_chain s))
                                     (LastID (a_chain s)) NewBlock)) (\<lambda>b.
                  let sign = (case priv_Sign (e_keys E) (e_priv E) (CurrentBlockHash b) of None \<Rightarrow> [] | Some sg \<Rightarrow> sg)
                  in return_run (b\<lparr>Round := currRound, Seed := seed, Author := BytesToAddress (Pubkey E),
                                   Proof := proof, BSignature := sign\<rparr>))))"

text \<open>The ticker: every tick looks for the best proposal's block; \<open>n\<close> ticks fit into the time-out.\<close>

fun poll_block :: "'db alg_env \<Rightarrow> uint64 \<Rightarrow> nat \<Rightarrow> 'db alg_state \<Rightarrow> (block \<times> 'db alg_state) run" where
  "poll_block E rnd 0 s =
     bind_run (lastBlock E s) (\<lambda>lb. return_run (emptyBlock rnd (CurrentBlockHash lb), s))"
| "poll_block E rnd (Suc n) s =
     bind_run (sleep E s) (\<lambda>s1.
     bind_run (lift_go (getMaxProposal rnd (a_peer s1))) (\<lambda>pp.
       case getBlock rnd (p_Hash pp) (a_peer s1) of
         Some blk \<Rightarrow> return_run (blk, s1)
       | None \<Rightarrow> poll_block E rnd n s1))"

definition blockProposal :: "'db alg_env \<Rightarrow> transaction list \<Rightarrow> uint64 \<Rightarrow> bytes \<Rightarrow> bytes \<Rightarrow> int \<Rightarrow> 'db alg_state \<Rightarrow>
    (block \<times> 'db alg_state) run" where
  "blockProposal E txs rnd vrf proof subusers s =
     bind_run (if 0 < subusers
         then bind_run (proposeBlock E txs s) (\<lambda>newBlk.
                let pr = \<lparr>p_Round = Round newBlk, p_Hash = CurrentBlockHash newBlk,
                          p_Prior = maxPriority (sha256 (e_hashes E)) vrf subusers, p_VRF = vrf,
                          p_Proof = proof, p_Pubkey = Pubkey E\<rparr>;
                    s1 = s\<lparr>a_peer := AddBlock newBlk (AddProposal rnd pr (a_peer s))\<rparr>
                in return_run (gossip BlockProposal (encode (e_proposal E) pr)
                                 (gossip BLOCK (Serialize (e_block E) newBlk) s1)))
         else return_run s)
       (\<lambda>s2. bind_run (sleep E s2) (\<lambda>s3. poll_block E rnd (e_ticks E) s3))"

definition ProcessMain :: "'db alg_env \<Rightarrow> transaction list \<Rightarrow> uint64 \<Rightarrow> bytes \<Rightarrow> bytes \<Rightarrow> int \<Rightarrow> 'db alg_state \<Rightarrow>
    (block \<times> 'db alg_state) run" where
  "ProcessMain E txs rnd vrf proof subusers s =
     bind_run (alg_Round E s) (\<lambda>last.
       let currRound = last + 1
       in bind_run (blockProposal E txs rnd vrf proof subusers s) (\<lambda>(blk, s1).
            bind_run (BA E currRound blk s1) (\<lambda>((_, blk'), s2). return_run (blk', s2))))"

end
