(* ===== verification/Agreement.thy ===== *)
theory Agreement
  imports Consensus
begin

text \<open>
  What the consensus of \<open>Consensus\<close> guarantees and where it fails: the seeds, the votes that are
  counted, agreement when the votes are there, and the ways a node stops.
\<close>

section \<open>Operations that only draw and send\<close>

definition quiet :: "'db alg_state \<Rightarrow> 'db alg_state \<Rightarrow> bool" where
  "quiet s s' \<longleftrightarrow> a_chain s' = a_chain s \<and> a_peer s' = a_peer s \<and> a_arrive s' = a_arrive s"

lemma quiet_refl [simp]: "quiet s s"
  by (simp add: quiet_def)

lemma quiet_trans: "quiet s t \<Longrightarrow> quiet t u \<Longrightarrow> quiet s u"
  by (simp add: quiet_def)

lemma SortitionSeed_chain: "a_chain s' = a_chain s \<Longrightarrow> SortitionSeed E s' rnd = SortitionSeed E s rnd"
  unfolding SortitionSeed_def by (simp only:)

lemma SortitionSeed_quiet: "quiet s s' \<Longrightarrow> SortitionSeed E s' rnd = SortitionSeed E s rnd"
  by (rule SortitionSeed_chain) (simp add: quiet_def)

lemma lastBlock_quiet: "quiet s s' \<Longrightarrow> lastBlock E s' = lastBlock E s"
  by (simp add: lastBlock_def quiet_def)

lemma TokenOwn_quiet: "quiet s (snd (TokenOwn E s))"
  by (simp add: TokenOwn_def alg_weight_def quiet_def)

lemma cast_vote_quiet:
  assumes "SortitionSeed E s rnd = return_run seed"
  shows "\<exists>s'. cast_vote E rnd step n h s = return_run s' \<and> quiet s s'"
  using assms
  by (auto simp: cast_vote_def committeeVote_def TokenOwn_def alg_weight_def quiet_def gossip_def Let_def
      split: prod.splits option.splits)

lemma vote_ahead_quiet:
  assumes "SortitionSeed E s rnd = return_run seed"
  shows "\<exists>s'. vote_ahead E rnd step r s = return_run s' \<and> quiet s s'"
proof -
  have "\<exists>s'. fold_run (\<lambda>s i. cast_vote E rnd i ExpectedCommitteeMembers r s) s is = return_run s' \<and> quiet s s'" for "is"
    using assms
  proof (induction "is" arbitrary: s)
    case Nil
    then show ?case by simp
  next
    case (Cons i "is")
    obtain s1 where s1: "cast_vote E rnd i ExpectedCommitteeMembers r s = return_run s1" "quiet s s1"
      using cast_vote_quiet [OF Cons.prems] by blast
    have "SortitionSeed E s1 rnd = return_run seed"
      using SortitionSeed_quiet [OF s1(2)] Cons.prems by simp
    from Cons.IH [OF this] obtain s2 where
      s2: "fold_run (\<lambda>s i. cast_vote E rnd i ExpectedCommitteeMembers r s) s1 is = return_run s2" "quiet s1 s2"
      by blast
    show ?case using s1(1) s2(1) quiet_trans [OF s1(2) s2(2)] by simp
  qed
  then show ?thesis by (simp add: vote_ahead_def)
qed

lemma sleep_idle: "a_arrive s = [] \<Longrightarrow> sleep E s = return_run s"
  by (simp add: sleep_def)

lemma countVotes_idle:
  "a_arrive s = [] \<Longrightarrow> countVotes E rnd step th n s =
     (let votes = InVotes (a_peer s) (ConstructVoteKey rnd step)
      in if votes = [] then return_run (([], True), s)
         else bind_run (fold_run (count_vote E th n)
                 \<lparr>c_res = [], c_counts = (\<lambda>_. 0), c_voters = {}, c_state = s\<rparr> votes)
                (\<lambda>c. return_run ((c_res c, False), c_state c)))"
  by (simp add: countVotes_def sleep_idle)

section \<open>The seed of the sortition\<close>

definition open_tail :: "'db alg_env \<Rightarrow> 'db alg_state \<Rightarrow> block \<Rightarrow> bool" where
  "open_tail E s b \<longleftrightarrow> GetBlockByHash (e_bolt E) (e_block E) (a_chain s) (TailHash (a_chain s)) = Inr b"

lemma SortitionSeed_cases:
  assumes "open_tail E s b" and "Round b < - 1"
  shows "SortitionSeed E s rnd =
    (if rnd = 0 then panic_run NilDeref
     else if unat rnd < 1000 then return_run (sha256 (e_hashes E) [])
     else bind_run (GetByRound (e_bolt E) (e_block E) (a_chain s) (of_nat (1000 * (unat rnd div 1000) - 1)))
            (\<lambda>blk. case blk of None \<Rightarrow> panic_run NilDeref | Some b' \<Rightarrow> return_run (Seed b')))"
proof -
  let ?m = "rnd mod R"
  have um: "unat ?m = unat rnd mod 1000" by (simp add: R_def unat_mod)
  consider "rnd = 0" | "rnd \<noteq> 0" "unat rnd < 1000" | "1000 \<le> unat rnd" by linarith
  then show ?thesis
  proof cases
    case 1
    have "GetByRound (e_bolt E) (e_block E) (a_chain s) (- 1) = Some (Inr None)"
      using assms by (simp add: GetByRound_def open_tail_def)
    then show ?thesis using 1 by (simp add: SortitionSeed_def R_def)
  next
    case 2
    have u1: "unat (rnd - 1) = unat rnd - 1" using 2(1) by (rule unat_minus_one)
    have "0 < unat rnd" using 2(1) by (simp add: unat_gt_0)
    then have "rnd - 1 < ?m" using u1 um 2(2) by (simp add: word_less_nat_alt)
    then show ?thesis using 2 by (simp add: SortitionSeed_def Let_def)
  next
    case 3
    then have ne: "rnd \<noteq> 0" by auto
    have u1: "unat (rnd - 1) = unat rnd - 1" using ne by (rule unat_minus_one)
    have lt: "unat rnd mod 1000 < 1000" by simp
    then have le: "unat ?m \<le> unat (rnd - 1)" using 3 u1 um by linarith
    then have nl: "\<not> rnd - 1 < ?m" by (simp add: word_less_nat_alt)
    have "unat (rnd - 1 - ?m) = unat rnd - 1 - unat rnd mod 1000"
      using unat_sub [of ?m "rnd - 1"] le u1 um by (simp add: word_le_nat_alt)
    also have "\<dots> = 1000 * (unat rnd div 1000) - 1"
      using minus_mod_eq_mult_div [of "unat rnd" 1000] by simp
    finally have eq: "rnd - 1 - ?m = of_nat (1000 * (unat rnd div 1000) - 1)"
      by (metis of_nat_unat ucast_id)
    have "SortitionSeed E s rnd = bind_run (GetByRound (e_bolt E) (e_block E) (a_chain s) (rnd - 1 - ?m))
        (\<lambda>blk. case blk of None \<Rightarrow> panic_run NilDeref | Some b' \<Rightarrow> return_run (Seed b'))"
      using nl by (simp add: SortitionSeed_def Let_def)
    then show ?thesis unfolding eq using ne 3 by simp
  qed
qed

text \<open>
  The seed of a round is refreshed every 1000 rounds: below round 1000 it is the hash of
  nothing, and from there on the seed of the block just before the last multiple of 1000; round 0
  asks for the block of the greatest round there is, so that every chain answers with nil and the
  call panics.
\<close>

theorem sortition_seed:
  assumes "open_tail E s b" and "Round b < - 1"
  shows "SortitionSeed E s rnd =
    (if rnd = 0 then panic_run NilDeref
     else if unat rnd < 1000 then return_run (sha256 (e_hashes E) [])
     else bind_run (GetByRound (e_bolt E) (e_block E) (a_chain s) (of_nat (1000 * (unat rnd div 1000) - 1)))
            (\<lambda>blk. case blk of None \<Rightarrow> panic_run NilDeref | Some b' \<Rightarrow> return_run (Seed b')))"
  by (rule SortitionSeed_cases [OF assms])

text \<open>A concrete node on a chain of three blocks, for the witnesses.\<close>

definition toy_env :: "mapdb alg_env" where
  "toy_env = \<lparr>e_bolt = map_bolt, e_hashes = toy_crypto, e_block = toy_codec toy_blocks,
     e_vote = \<lparr>encode = v_Hash, decode = (\<lambda>_. None)\<rparr>,
     e_proposal = \<lparr>encode = p_Hash, decode = (\<lambda>h. Some \<lparr>p_Round = 0, p_Hash = h, p_Prior = [], p_VRF = [],
       p_Proof = [], p_Pubkey = []\<rparr>)\<rparr>,
     e_keys = toy_keys, e_pow = (\<lambda>_. 0), e_intn = (\<lambda>_. 0), e_priv = ''k'', e_now = 9, e_ticks = 1\<rparr>"

definition toy_state :: "mapdb alg_state" where
  "toy_state = \<lparr>a_chain = toy_chain, a_peer = NewPeer, a_drawn = 0, a_out = [], a_arrive = []\<rparr>"

lemma toy_open_tail: "open_tail toy_env (toy_state\<lparr>a_peer := p\<rparr>) (toy_block 2 ''c'' ''b'')"
proof -
  have "data_rep map_bolt (toy_codec toy_blocks) toy_chain (toy_block 2 ''c'' ''b'' # drop 2 toy_blocks)"
    using toy_chain_rep by (simp add: toy_blocks_def)
  from data_store.lookup_tail [OF this] show ?thesis
    by (simp add: open_tail_def toy_env_def toy_state_def)
qed

theorem sortition_seed_witness:
  "SortitionSeed toy_env (toy_state\<lparr>a_peer := NewPeer\<rparr>) 0 = panic_run NilDeref
   \<and> SortitionSeed toy_env (toy_state\<lparr>a_peer := NewPeer\<rparr>) 3 = return_run (sha256 toy_crypto [])"
proof -
  have r: "Round (toy_block 2 ''c'' ''b'') < - 1" by (simp add: toy_block_def)
  note t = sortition_seed [OF toy_open_tail r]
  show ?thesis using t [of NewPeer 0] t [of NewPeer 3] by (simp add: toy_env_def)
qed

text \<open>
  Any node can stop the others: handling a block proposal that carries round 0 panics, before
  anything else in the proposal is looked at, on every node with an open chain whose tail is not
  at the greatest round.
\<close>

theorem round_zero_proposal_crashes:
  assumes "open_tail E s b" and "Round b < - 1"
    and "decode (e_proposal E) data = Some bp" and "p_Round bp = 0"
  shows "Handle E BlockProposal data s = panic_run NilDeref"
proof -
  have "SortitionSeed E (s\<lparr>a_drawn := a_drawn s + 1\<rparr>) 0 = SortitionSeed E s 0"
    by (rule SortitionSeed_chain) simp
  then have "SortitionSeed E (s\<lparr>a_drawn := a_drawn s + 1\<rparr>) 0 = panic_run NilDeref"
    using SortitionSeed_cases [OF assms(1,2), of 0] by simp
  then show ?thesis using assms(3,4)
    by (simp add: Handle_def BlockProposal_def BLOCK_def alg_weight_def)
qed

theorem round_zero_proposal_crashes_witness:
  "Handle toy_env BlockProposal ''x'' (toy_state\<lparr>a_peer := NewPeer\<rparr>) = panic_run NilDeref"
  by (rule round_zero_proposal_crashes [OF toy_open_tail, where bp = "\<lparr>p_Round = 0, p_Hash = ''x'', p_Prior = [],
      p_VRF = [], p_Proof = [], p_Pubkey = []\<rparr>"]) (simp_all add: toy_block_def toy_env_def)

section \<open>What is counted\<close>

lemma processMsg_valid:
  assumes "vote_VerifySign (e_keys E) v = Inr None" and "v_ParentHash v = TailHash (a_chain s)"
    and "SortitionSeed E s (v_Round v) = return_run seed"
  shows "processMsg E v n s = return_run ((subUsers (e_pow E) n (of_nat (e_intn E (a_drawn s) + 50)) (v_VRF v),
     v_Hash v, v_VRF v), s\<lparr>a_drawn := a_drawn s + 1\<rparr>)"
  using assms by (simp add: processMsg_def verifySort_def VerifyVRF_def TokenOwn_def alg_weight_def)

lemma processMsg_invalid:
  assumes "PublicKeySize \<le> length (v_Signature v)"
    and "vote_VerifySign (e_keys E) v \<noteq> Inr None \<or> v_ParentHash v \<noteq> TailHash (a_chain s)"
  shows "processMsg E v n s = return_run ((0, [], []), s)"
  using assms by (auto simp: processMsg_def vote_VerifySign_long)

lemma processMsg_quiet: "processMsg E v n s = return_run (r, s') \<Longrightarrow> quiet s s'"
  by (auto simp: processMsg_def bind_run_return_iff verifySort_def TokenOwn_def alg_weight_def VerifyVRF_def
      quiet_def split: if_splits)

text \<open>
  Whoever owns a key pair, and no one checks whose it is, can vote with the VRF output they
  like: a vote on the current tail with the signer's key counts as many sub-users as \<open>subUsers\<close>
  reads off the claimed output, whatever the proof, since \<open>VerifyVRF\<close> drops the result of the check.
\<close>

theorem vrf_is_not_checked:
  assumes "vote_Sign (e_keys E) sk (v\<lparr>v_VRF := vrf, v_Proof := pf\<rparr>) = Some v'"
    and "length (ed_public (e_keys E) sk) = 32"
    and "\<And>m s. ed_sign (e_keys E) sk m = Some s \<Longrightarrow> ed_verify (e_keys E) (ed_public (e_keys E) sk) m s"
    and "v_ParentHash v = TailHash (a_chain s)" and "SortitionSeed E s (v_Round v) = return_run seed"
  shows "processMsg E v' n s = return_run
    ((subUsers (e_pow E) n (of_nat (e_intn E (a_drawn s) + 50)) vrf, v_Hash v, vrf), s\<lparr>a_drawn := a_drawn s + 1\<rparr>)"
proof -
  obtain sg where sg: "ed_sign (e_keys E) sk (vote_data (v\<lparr>v_VRF := vrf, v_Proof := pf\<rparr>)) = Some sg"
    and v': "v' = v\<lparr>v_VRF := vrf, v_Proof := pf, v_Signature := ed_public (e_keys E) sk @ sg\<rparr>"
    using assms(1) by (auto simp: vote_Sign_def priv_Sign_def split: option.splits)
  have "vote_VerifySign (e_keys E) v' = Inr None"
    using assms(2,3) sg unfolding v' vote_VerifySign_ok by (simp add: PublicKeySize_def)
  then show ?thesis
    using processMsg_valid [of E v' s seed n] assms(4,5) by (simp add: v')
qed

definition forger_vote :: vote_message where
  "forger_vote = \<lparr>v_Signature = [], v_Round = 3, v_Step = 1, v_VRF = [], v_Proof = [],
     v_ParentHash = ''c'', v_Hash = ''hash''\<rparr>"

lemma toy_seed: "SortitionSeed toy_env (toy_state\<lparr>a_peer := p\<rparr>) 3 = return_run (sha256 toy_crypto [])"
  by (simp add: SortitionSeed_def R_def toy_env_def Let_def)

theorem vrf_is_not_checked_witness:
  "\<exists>v'. vote_Sign toy_keys ''f'' (forger_vote\<lparr>v_VRF := ''any'', v_Proof := ''none''\<rparr>) = Some v'
     \<and> processMsg toy_env v' 10 (toy_state\<lparr>a_peer := NewPeer\<rparr>) = return_run
         ((subUsers (\<lambda>_. 0) 10 50 ''any'', ''hash'', ''any''), toy_state\<lparr>a_peer := NewPeer, a_drawn := 1\<rparr>)"
proof -
  obtain v' where v': "vote_Sign toy_keys ''f'' (forger_vote\<lparr>v_VRF := ''any'', v_Proof := ''none''\<rparr>) = Some v'"
    by (simp add: vote_Sign_def priv_Sign_def toy_keys_def)
  have k: "e_keys toy_env = toy_keys" by (simp add: toy_env_def)
  have "processMsg toy_env v' 10 (toy_state\<lparr>a_peer := NewPeer\<rparr>) = return_run
      ((subUsers (e_pow toy_env) 10 (of_nat (e_intn toy_env (a_drawn (toy_state\<lparr>a_peer := NewPeer\<rparr>)) + 50)) ''any'',
        v_Hash forger_vote, ''any''), toy_state\<lparr>a_peer := NewPeer, a_drawn := a_drawn (toy_state\<lparr>a_peer := NewPeer\<rparr>) + 1\<rparr>)"
  proof (rule vrf_is_not_checked [where sk = "''f''" and v = forger_vote and pf = "''none''"])
    show "vote_Sign (e_keys toy_env) ''f'' (forger_vote\<lparr>v_VRF := ''any'', v_Proof := ''none''\<rparr>) = Some v'"
      using v' by (simp add: k)
    show "SortitionSeed toy_env (toy_state\<lparr>a_peer := NewPeer\<rparr>) (v_Round forger_vote) =
        return_run (sha256 toy_crypto [])"
      using toy_seed [of NewPeer] by (simp add: forger_vote_def)
  qed (simp_all add: k toy_keys_def forger_vote_def toy_state_def)
  then show ?thesis using v' by (auto simp: forger_vote_def toy_env_def toy_state_def)
qed

definition valid_vote :: "'db alg_env \<Rightarrow> 'db alg_state \<Rightarrow> vote_message \<Rightarrow> bool" where
  "valid_vote E s v \<longleftrightarrow> vote_VerifySign (e_keys E) v = Inr None \<and> v_ParentHash v = TailHash (a_chain s)"

definition voter :: "vote_message \<Rightarrow> bytes" where
  "voter v = take PublicKeySize (v_Signature v)"

lemma BytesToInt32_take:
  assumes "BytesToInt32 a = Inr i" and "BytesToInt32 b = Inr i"
  shows "take 4 a = take 4 b"
proof -
  have l: "length (take 4 a) = 4" "length (take 4 b) = 4"
    using assms by (auto simp: BytesToInt32_eq split: if_splits)
  have "sint (word_of_nat (be_nat (take 4 a)) :: 32 word) = sint (word_of_nat (be_nat (take 4 b)) :: 32 word)"
    using assms by (auto simp: BytesToInt32_eq split: if_splits)
  then have w: "(word_of_nat (be_nat (take 4 a)) :: 32 word) = word_of_nat (be_nat (take 4 b))"
    by (rule signed_word_eqI)
  have u: "unat (word_of_nat (be_nat x) :: 32 word) = be_nat x" if "length x = 4" for x
    using be_nat_bound [of x] that by (simp add: unat_of_nat)
  have "be_nat (take 4 a) = be_nat (take 4 b)" using w u [OF l(1)] u [OF l(2)] by metis
  then show ?thesis using be_bytes_be_nat [OF l(1)] be_bytes_be_nat [OF l(2)] by metis
qed

text \<open>What a vote is worth to a node at its \<open>k\<close>-th draw: the weight of the voter is drawn anew each time.\<close>

definition vote_weight :: "'db alg_env \<Rightarrow> int \<Rightarrow> vote_message \<Rightarrow> nat \<Rightarrow> int" where
  "vote_weight E n v k = subUsers (e_pow E) n (of_nat (e_intn E k + 50)) (v_VRF v)"

text \<open>The votes counted so far and what each was worth.\<close>

definition counted :: "'db alg_env \<Rightarrow> rat \<Rightarrow> int \<Rightarrow> 'db alg_state \<Rightarrow> 'db count \<Rightarrow> vote_message set \<Rightarrow>
    (vote_message \<Rightarrow> int) \<Rightarrow> bool" where
  "counted E th n s c W f \<longleftrightarrow> finite W \<and> inj_on voter W \<and> c_voters c = voter ` W \<and> quiet s (c_state c)
     \<and> (\<forall>v \<in> W. valid_vote E s v \<and> 0 \<le> f v \<and> (\<exists>k. f v = vote_weight E n v k) \<and> (\<exists>i. BytesToInt32 (v_Hash v) = Inr i))
     \<and> (\<forall>i. c_counts c i = (\<Sum>v | v \<in> W \<and> BytesToInt32 (v_Hash v) = Inr i. f v))
     \<and> (c_res c = [] \<or> (\<exists>v \<in> W. v_Hash v = c_res c
           \<and> quorum th n \<le> (\<Sum>v' | v' \<in> W \<and> BytesToInt32 (v_Hash v') = BytesToInt32 (v_Hash v). f v')))"

lemma counted_insert:
  assumes c: "counted E th n s c W f" and v: "valid_vote E s v" "voter v \<notin> c_voters c"
    and f: "m = vote_weight E n v k" and i: "BytesToInt32 (v_Hash v) = Inr i" and q: "quiet s s'"
  shows "counted E th n s \<lparr>c_res = (if quorum th n \<le> c_counts c i + m then v_Hash v else c_res c),
      c_counts = (c_counts c)(i := c_counts c i + m), c_voters = insert (voter v) (c_voters c), c_state = s'\<rparr>
    (insert v W) (f(v := m))"
proof -
  let ?f = "f(v := m)"
  have fin: "finite W" and vW: "v \<notin> W" using c v(2) by (auto simp: counted_def)
  have m0: "0 \<le> m" using f subUsers_spec by (metis vote_weight_def)
  have sums: "(\<Sum>x | x \<in> insert v W \<and> BytesToInt32 (v_Hash x) = Inr j. ?f x) =
      (\<Sum>x | x \<in> W \<and> BytesToInt32 (v_Hash x) = Inr j. f x) + (if j = i then m else 0)" for j
  proof -
    have r: "(\<Sum>x | x \<in> W \<and> BytesToInt32 (v_Hash x) = Inr j. ?f x) =
        (\<Sum>x | x \<in> W \<and> BytesToInt32 (v_Hash x) = Inr j. f x)"
      using vW by (intro sum.cong) auto
    have "{x. x \<in> insert v W \<and> BytesToInt32 (v_Hash x) = Inr j} =
        (if j = i then insert v {x. x \<in> W \<and> BytesToInt32 (v_Hash x) = Inr j}
         else {x. x \<in> W \<and> BytesToInt32 (v_Hash x) = Inr j})" using i by auto
    then show ?thesis using r fin vW by (cases "j = i") simp_all
  qed
  have counts: "c_counts c j = (\<Sum>x | x \<in> W \<and> BytesToInt32 (v_Hash x) = Inr j. f x)" for j
    using c by (simp add: counted_def)
  have good: "\<forall>x \<in> insert v W. valid_vote E s x \<and> 0 \<le> ?f x \<and> (\<exists>k. ?f x = vote_weight E n x k)
      \<and> (\<exists>i. BytesToInt32 (v_Hash x) = Inr i)"
  proof
    fix x assume "x \<in> insert v W"
    then consider "x = v" | "x \<in> W" "x \<noteq> v" using vW by blast
    then show "valid_vote E s x \<and> 0 \<le> ?f x \<and> (\<exists>k. ?f x = vote_weight E n x k)
      \<and> (\<exists>i. BytesToInt32 (v_Hash x) = Inr i)"
    proof cases
      case 1
      then show ?thesis using v(1) m0 f i by auto
    next
      case 2
      then show ?thesis using c by (simp add: counted_def)
    qed
  qed
  have res: "r = [] \<or> (\<exists>x \<in> insert v W. v_Hash x = r
      \<and> quorum th n \<le> (\<Sum>x' | x' \<in> insert v W \<and> BytesToInt32 (v_Hash x') = BytesToInt32 (v_Hash x). ?f x'))"
    if r: "r = (if quorum th n \<le> c_counts c i + m then v_Hash v else c_res c)" for r
  proof (cases "quorum th n \<le> c_counts c i + m")
    case True
    have "quorum th n \<le> (\<Sum>x' | x' \<in> insert v W \<and> BytesToInt32 (v_Hash x') = Inr i. ?f x')"
      unfolding sums using True by (simp add: counts)
    then have "quorum th n \<le> (\<Sum>x' | x' \<in> insert v W \<and> BytesToInt32 (v_Hash x') = BytesToInt32 (v_Hash v). ?f x')"
      unfolding i .
    with True r show ?thesis by (intro disjI2 bexI [of _ v]) simp_all
  next
    case no: False
    show ?thesis
    proof (cases "c_res c = []")
      case True
      with no r show ?thesis by simp
    next
      case False
      then obtain x where x: "x \<in> W" "v_Hash x = c_res c"
        "quorum th n \<le> (\<Sum>x' | x' \<in> W \<and> BytesToInt32 (v_Hash x') = BytesToInt32 (v_Hash x). f x')"
        using c unfolding counted_def by blast
      obtain j where j: "BytesToInt32 (v_Hash x) = Inr j" using c x(1) unfolding counted_def by blast
      have "quorum th n \<le> (\<Sum>x' | x' \<in> insert v W \<and> BytesToInt32 (v_Hash x') = Inr j. ?f x')"
        unfolding sums using x(3) m0 by (cases "j = i") (simp_all add: j)
      then have "quorum th n \<le> (\<Sum>x' | x' \<in> insert v W \<and> BytesToInt32 (v_Hash x') = BytesToInt32 (v_Hash x). ?f x')"
        unfolding j .
      moreover have "v_Hash x = r" using x(2) no r by simp
      ultimately show ?thesis using x(1) by blast
    qed
  qed
  have inj: "inj_on voter (insert v W)" using c v(2) by (auto simp: counted_def)
  have cnt: "\<forall>j. ((c_counts c)(i := c_counts c i + m)) j =
      (\<Sum>x | x \<in> insert v W \<and> BytesToInt32 (v_Hash x) = Inr j. ?f x)"
    unfolding sums by (simp add: counts)
  have vot: "insert (voter v) (c_voters c) = voter ` insert v W" using c by (simp add: counted_def)
  show ?thesis
    unfolding counted_def count.simps
    using fin inj vot q good cnt res [OF refl] by (intro conjI) (simp_all only: finite_insert simp_thms)
qed

lemma count_vote_counted:
  assumes c: "counted E th n s c W f" and step: "count_vote E th n c v = return_run c'"
  shows "\<exists>W' f'. counted E th n s c' W' f' \<and> W' \<subseteq> insert v W"
proof -
  obtain votes h vrf s' pk where p: "processMsg E v n (c_state c) = return_run ((votes, h, vrf), s')"
    and pk: "vote_RecoverPubkey v = Inr pk"
    and c': "(if pk \<in> c_voters c \<or> votes = 0 then return_run (c\<lparr>c_state := s'\<rparr>)
         else bind_run (lift_go (BytesToInt32 h)) (\<lambda>index.
                let m = c_counts c index + votes
                in return_run \<lparr>c_res = (if quorum th n \<le> m then h else c_res c),
                               c_counts = (c_counts c)(index := m),
                               c_voters = insert pk (c_voters c), c_state = s'\<rparr>)) = return_run c'"
    using step by (auto simp: count_vote_def bind_run_return_iff lift_go_def)
  have q: "quiet s s'" using processMsg_quiet [OF p] c quiet_trans unfolding counted_def by blast
  show ?thesis
  proof (cases "pk \<in> c_voters c \<or> votes = 0")
    case True
    then have "counted E th n s c' W f" using c c' q by (auto simp: counted_def)
    then show ?thesis by blast
  next
    case False
    have long: "PublicKeySize \<le> length (v_Signature v)" and pkv: "pk = voter v"
      using pk by (auto simp: vote_RecoverPubkey_def RecoverPubkey_def voter_def split: if_splits)
    have tail: "TailHash (a_chain (c_state c)) = TailHash (a_chain s)"
      using c by (simp add: counted_def quiet_def)
    have ok: "vote_VerifySign (e_keys E) v = Inr None" "v_ParentHash v = TailHash (a_chain (c_state c))"
      using processMsg_invalid [OF long, of E "c_state c" n] p False by auto
    then have valid: "valid_vote E s v" by (simp add: valid_vote_def tail)
    obtain k where w: "votes = vote_weight E n v k" "h = v_Hash v"
      using p ok by (auto simp: processMsg_def bind_run_return_iff verifySort_def VerifyVRF_def TokenOwn_def
          alg_weight_def vote_weight_def)
    obtain i where i: "BytesToInt32 (v_Hash v) = Inr i"
      using c' False w(2) by (auto simp: bind_run_return_iff lift_go_def)
    have "c' = \<lparr>c_res = (if quorum th n \<le> c_counts c i + votes then v_Hash v else c_res c),
        c_counts = (c_counts c)(i := c_counts c i + votes), c_voters = insert (voter v) (c_voters c), c_state = s'\<rparr>"
      using c' False w(2) i pkv by (auto simp: Let_def)
    then show ?thesis
      using counted_insert [OF c valid _ w(1) i q] False pkv by blast
  qed
qed

lemma fold_counted:
  assumes "counted E th n s c W f" and "fold_run (count_vote E th n) c vs = return_run c'"
  shows "\<exists>W' f'. counted E th n s c' W' f' \<and> W' \<subseteq> W \<union> set vs"
  using assms
proof (induction vs arbitrary: c W f)
  case Nil
  then show ?case by (intro exI [of _ W] exI [of _ f]) simp
next
  case (Cons v vs)
  obtain c1 where c1: "count_vote E th n c v = return_run c1" "fold_run (count_vote E th n) c1 vs = return_run c'"
    using Cons.prems(2) by (auto simp: bind_run_return_iff)
  obtain W1 f1 where 1: "counted E th n s c1 W1 f1" "W1 \<subseteq> insert v W"
    using count_vote_counted [OF Cons.prems(1) c1(1)] by blast
  obtain W' f' where "counted E th n s c' W' f'" "W' \<subseteq> W1 \<union> set vs"
    using Cons.IH [OF 1(1) c1(2)] by blast
  with 1(2) show ?case by (intro exI [of _ W'] exI [of _ f']) auto
qed

lemma counted_quorum:
  assumes "countVotes E rnd step th n s = return_run ((h, timeout), s')" and "h \<noteq> []"
  shows "\<exists>s1 W f. sleep E s = return_run s1
    \<and> finite W \<and> W \<subseteq> set (InVotes (a_peer s1) (ConstructVoteKey rnd step)) \<and> inj_on voter W
    \<and> (\<forall>v \<in> W. valid_vote E s1 v \<and> take 4 (v_Hash v) = take 4 h \<and> (\<exists>k. f v = vote_weight E n v k))
    \<and> h \<in> v_Hash ` W \<and> quorum th n \<le> (\<Sum>v \<in> W. f v)"
proof -
  obtain s1 where s1: "sleep E s = return_run s1"
    using assms(1) by (auto simp: countVotes_def bind_run_return_iff)
  let ?vs = "InVotes (a_peer s1) (ConstructVoteKey rnd step)"
  let ?c0 = "\<lparr>c_res = [], c_counts = (\<lambda>_. 0), c_voters = {}, c_state = s1\<rparr>"
  obtain c where c: "fold_run (count_vote E th n) ?c0 ?vs = return_run c" "h = c_res c"
    using assms by (auto simp: countVotes_def s1 Let_def bind_run_return_iff split: if_splits)
  have "counted E th n s1 ?c0 {} (\<lambda>_. 0)" by (simp add: counted_def)
  from fold_counted [OF this c(1)] obtain W f where W: "counted E th n s1 c W f" "W \<subseteq> set ?vs" by auto
  obtain v0 where v0: "v0 \<in> W" "v_Hash v0 = h"
    "quorum th n \<le> (\<Sum>v | v \<in> W \<and> BytesToInt32 (v_Hash v) = BytesToInt32 (v_Hash v0). f v)"
    using W(1) assms(2) c(2) by (auto simp: counted_def)
  obtain i where i: "BytesToInt32 h = Inr i" using W(1) v0(1,2) unfolding counted_def by blast
  let ?W = "{v \<in> W. BytesToInt32 (v_Hash v) = Inr i}"
  have "\<forall>v \<in> ?W. valid_vote E s1 v \<and> take 4 (v_Hash v) = take 4 h \<and> (\<exists>k. f v = vote_weight E n v k)"
    using W(1) BytesToInt32_take [OF _ i] by (simp add: counted_def)
  moreover have "finite ?W" using W(1) by (simp add: counted_def)
  moreover have "inj_on voter ?W" using W(1) by (auto simp: counted_def inj_on_def)
  moreover have "v0 \<in> ?W" using v0 i by simp
  moreover have "quorum th n \<le> (\<Sum>v \<in> ?W. f v)" using v0(2,3) i by simp
  ultimately show ?thesis using s1 W(2) v0(2) by (intro exI [of _ s1] exI [of _ ?W] exI [of _ f]) auto
qed

text \<open>
  C1. A counted hash has a quorum behind it: if \<open>countVotes\<close> returns a non-empty hash, then among
  the votes filed under the key of round and step there are valid ones (signed, on the current
  tail) of pairwise different public keys, one of them for that hash and all of them for hashes
  with the same first four bytes, whose sub-users together reach the threshold. Votes with the same
  first four bytes are counted together because the tally is indexed by \<open>BytesToInt32\<close> of the hash.
\<close>

theorem count_votes_sound:
  assumes "countVotes E rnd step th n s = return_run ((h, timeout), s')" and "h \<noteq> []"
  shows "\<exists>s1 W f. sleep E s = return_run s1
    \<and> W \<subseteq> set (InVotes (a_peer s1) (ConstructVoteKey rnd step)) \<and> inj_on voter W
    \<and> (\<forall>v \<in> W. valid_vote E s1 v \<and> take 4 (v_Hash v) = take 4 h
          \<and> (\<exists>w. f v = subUsers (e_pow E) n w (v_VRF v)))
    \<and> h \<in> v_Hash ` W \<and> quorum th n \<le> (\<Sum>v \<in> W. f v)"
proof -
  from counted_quorum [OF assms] obtain s1 W f where W: "sleep E s = return_run s1"
    "W \<subseteq> set (InVotes (a_peer s1) (ConstructVoteKey rnd step))" "inj_on voter W"
    "\<forall>v \<in> W. valid_vote E s1 v \<and> take 4 (v_Hash v) = take 4 h \<and> (\<exists>k. f v = vote_weight E n v k)"
    "h \<in> v_Hash ` W" "quorum th n \<le> (\<Sum>v \<in> W. f v)" by blast
  have "\<forall>v \<in> W. valid_vote E s1 v \<and> take 4 (v_Hash v) = take 4 h \<and> (\<exists>w. f v = subUsers (e_pow E) n w (v_VRF v))"
    using W(4) by (auto simp: vote_weight_def)
  then show ?thesis using W by blast
qed

section \<open>Silence and junk\<close>

text \<open>The votes filed for a step, and a step for which no valid vote is there.\<close>

definition filed :: "uint64 \<Rightarrow> int \<Rightarrow> 'db alg_state \<Rightarrow> vote_message list" where
  "filed rnd step s = InVotes (a_peer s) (ConstructVoteKey rnd step)"

definition junk :: "'db alg_env \<Rightarrow> 'db alg_state \<Rightarrow> vote_message \<Rightarrow> bool" where
  "junk E s v \<longleftrightarrow> PublicKeySize \<le> length (v_Signature v) \<and> \<not> valid_vote E s v"

lemma filed_quiet: "quiet s s' \<Longrightarrow> filed rnd step s' = filed rnd step s"
  by (simp add: filed_def quiet_def)

lemma junk_quiet: "quiet s s' \<Longrightarrow> junk E s' v = junk E s v"
  by (simp add: junk_def valid_vote_def quiet_def)

lemma arrive_quiet: "quiet s s' \<Longrightarrow> a_arrive s' = a_arrive s"
  by (simp add: quiet_def)

lemma count_junk_fold:
  assumes "\<forall>v \<in> set vs. junk E (c_state c) v"
  shows "fold_run (count_vote E th n) c vs = return_run c"
  using assms
proof (induction vs)
  case (Cons v vs)
  then have "processMsg E v n (c_state c) = return_run ((0, [], []), c_state c)"
    using processMsg_invalid [of v E "c_state c" n] by (auto simp: junk_def valid_vote_def)
  moreover have "vote_RecoverPubkey v = Inr (voter v)"
    using Cons.prems by (simp add: junk_def vote_RecoverPubkey_def RecoverPubkey_def voter_def)
  ultimately have "count_vote E th n c v = return_run c" by (simp add: count_vote_def)
  with Cons show ?case by simp
qed simp

lemma count_junk:
  assumes "a_arrive s = []" and "\<forall>v \<in> set (filed rnd step s). junk E s v"
  shows "countVotes E rnd step th n s = return_run (([], filed rnd step s = []), s)"
proof -
  let ?c0 = "\<lparr>c_res = [], c_counts = (\<lambda>_. 0), c_voters = {}, c_state = s\<rparr>"
  have "fold_run (count_vote E th n) ?c0 (filed rnd step s) = return_run ?c0"
    by (rule count_junk_fold) (use assms(2) in simp)
  then show ?thesis using assms(1) by (auto simp: countVotes_idle filed_def Let_def)
qed

lemma vote_and_count_junk:
  assumes "SortitionSeed E s rnd = return_run seed" and "a_arrive s = []"
    and "\<forall>v \<in> set (filed rnd step s). junk E s v"
  shows "\<exists>s'. vote_and_count E rnd step r s = return_run (([], filed rnd step s = []), s') \<and> quiet s s'"
proof -
  obtain s' where s': "cast_vote E rnd step ExpectedCommitteeMembers r s = return_run s'" "quiet s s'"
    using cast_vote_quiet [OF assms(1)] by blast
  have "countVotes E rnd step ThresholdOfBAStep ExpectedCommitteeMembers s' = return_run (([], filed rnd step s' = []), s')"
    by (rule count_junk) (use assms s'(2) in \<open>auto simp: arrive_quiet filed_quiet junk_quiet\<close>)
  then show ?thesis using s' by (auto simp: vote_and_count_def filed_quiet)
qed

lemma reduction_vote_and_count:
  "reduction E rnd h s =
     bind_run (vote_and_count E rnd ReductionOne h s) (\<lambda>((hash1, timeout1), s2).
       let emp = emptyHash (sha256 (e_hashes E)) rnd (TailHash (a_chain s2))
       in bind_run (vote_and_count E rnd ReductionTwo (if timeout1 then emp else hash1) s2)
            (\<lambda>((hash2, timeout2), s4). return_run (if timeout2 then emp else hash2, s4)))"
  unfolding reduction_def vote_and_count_def
  by (cases "cast_vote E rnd ReductionOne ExpectedCommitteeMembers h s" rule: option.exhaust;
      auto simp: bind_run_def Let_def split: option.splits sum.splits)

lemma reduction_junk:
  assumes "SortitionSeed E s rnd = return_run seed" and "a_arrive s = []"
    and "\<forall>step. \<forall>v \<in> set (filed rnd step s). junk E s v"
  shows "\<exists>s' h'. reduction E rnd h s = return_run (h', s') \<and> quiet s s' \<and>
    (filed rnd ReductionTwo s \<noteq> [] \<longrightarrow> h' = [])"
proof -
  obtain s1 where s1: "vote_and_count E rnd ReductionOne h s = return_run (([], filed rnd ReductionOne s = []), s1)"
    "quiet s s1" using vote_and_count_junk assms by blast
  have "SortitionSeed E s1 rnd = return_run seed" "a_arrive s1 = []"
    "\<forall>v \<in> set (filed rnd ReductionTwo s1). junk E s1 v"
    using assms s1(2) by (simp_all add: SortitionSeed_quiet arrive_quiet filed_quiet junk_quiet)
  then obtain s2 where s2: "vote_and_count E rnd ReductionTwo (if filed rnd ReductionOne s = [] then
        emptyHash (sha256 (e_hashes E)) rnd (TailHash (a_chain s1)) else []) s1
      = return_run (([], filed rnd ReductionTwo s1 = []), s2)" "quiet s1 s2"
    using vote_and_count_junk by blast
  show ?thesis
    using s1 s2 quiet_trans [OF s1(2) s2(2)] filed_quiet [OF s1(2)]
    by (auto simp: reduction_vote_and_count Let_def)
qed

text \<open>
  C6. Votes nobody should count decide: if junk votes (validly framed, but with a wrong signature or
  on another tail) are all there is for a round, and some are filed for the second reduction step
  and for step 1, \<open>countVotes\<close> reports neither a hash nor a time-out, so the nil hash passes for an
  agreed one and \<open>BA\<close> dereferences the nil block.
\<close>

theorem junk_votes_crash:
  assumes "SortitionSeed E s rnd = return_run seed" and "a_arrive s = []"
    and "lastBlock E s = return_run lb" and "\<And>m. sha256 (e_hashes E) m \<noteq> []"
    and "\<forall>step. \<forall>v \<in> set (filed rnd step s). junk E s v"
    and "filed rnd ReductionTwo s \<noteq> []" and "filed rnd 1 s \<noteq> []"
    and "\<forall>b \<in> set (Blcoks (a_peer s) rnd). CurrentBlockHash b \<noteq> []"
  shows "BA E rnd blk s = panic_run NilDeref"
proof -
  obtain s1 where s1: "reduction E rnd (CurrentBlockHash blk) s = return_run ([], s1)" "quiet s s1"
    using reduction_junk [OF assms(1,2,5)] assms(6) by metis
  note q1 = SortitionSeed_quiet [OF s1(2)] arrive_quiet [OF s1(2)] filed_quiet [OF s1(2)] junk_quiet [OF s1(2)]
  obtain s2 where s2: "vote_and_count E rnd 1 [] s1 = return_run (([], False), s2)" "quiet s1 s2"
    using vote_and_count_junk [of E s1 rnd seed 1 "[]"] assms(1,2,5,7) by (auto simp: q1)
  obtain s3 where s3: "vote_ahead E rnd 1 [] s2 = return_run s3" "quiet s2 s3"
    using vote_ahead_quiet [of E s2 rnd seed] SortitionSeed_quiet [OF s2(2)] q1 assms(1) by metis
  obtain s4 where s4: "cast_vote E rnd FINAL ExpectedFinalCommitteeMembers [] s3 = return_run s4" "quiet s3 s4"
    using cast_vote_quiet [of E s3 rnd seed] SortitionSeed_quiet [OF s3(2)] SortitionSeed_quiet [OF s2(2)] q1 assms(1)
    by metis
  have bba: "binaryBA E rnd [] s1 = return_run ([], s4)"
    using s2(1) s3(1) s4(1) assms(4) assms(4) [THEN not_sym] by (simp add: binaryBA_def binary_loop.simps MAXSTEPS_def emptyHash_def)
  have q: "quiet s s4" using s1(2) s2(2) s3(2) s4(2) quiet_trans by blast
  have "countVotes E rnd FINAL FinalThreshold ExpectedFinalCommitteeMembers s4
      = return_run (([], filed rnd FINAL s4 = []), s4)"
    by (rule count_junk) (use assms(2,5) q in \<open>auto simp: arrive_quiet filed_quiet junk_quiet\<close>)
  moreover have "lastBlock E s4 = return_run lb" using lastBlock_quiet [OF q] assms(3) by simp
  moreover have "getBlock rnd [] (a_peer s4) = None" using assms(8) q by (simp add: getBlock_None quiet_def)
  ultimately show ?thesis using s1(1) bba assms(4) assms(4) [THEN not_sym]
    by (simp add: BA_def emptyHash_def Let_def)
qed

lemma coin_no_messages:
  "incomingVotes (a_peer s) = (\<lambda>_. None) \<Longrightarrow> commonCoin E rnd step n s = return_run (0, s)"
  by (simp add: commonCoin_def getIncomingMsgs_def)

definition silent :: "'db alg_env \<Rightarrow> uint64 \<Rightarrow> 'db alg_state \<Rightarrow> bool" where
  "silent E rnd s \<longleftrightarrow> a_arrive s = [] \<and> (\<forall>step. filed rnd step s = [])
     \<and> incomingVotes (a_peer s) = (\<lambda>_. None) \<and> (\<exists>seed. SortitionSeed E s rnd = return_run seed)"

lemma silent_quiet: "quiet s s' \<Longrightarrow> silent E rnd s' = silent E rnd s"
  using SortitionSeed_quiet [of s s' E rnd] by (simp add: silent_def quiet_def filed_def)

lemma vote_and_count_silent:
  assumes "silent E rnd s"
  shows "\<exists>s'. vote_and_count E rnd step r s = return_run (([], True), s') \<and> silent E rnd s'"
proof -
  obtain seed where "SortitionSeed E s rnd = return_run seed" using assms by (auto simp: silent_def)
  moreover have f: "filed rnd step s = []" "a_arrive s = []" using assms by (simp_all add: silent_def)
  ultimately obtain s' where s': "vote_and_count E rnd step r s = return_run (([], True), s')" "quiet s s'"
    using vote_and_count_junk [of E s rnd seed step r] by auto
  then have "silent E rnd s'" using assms silent_quiet by blast
  with s'(1) show ?thesis by blast
qed

lemma binary_loop_silent: "silent E rnd s \<Longrightarrow> binary_loop E rnd h emp step r s = None"
proof (induction "nat (MAXSTEPS - step)" arbitrary: step r s rule: less_induct)
  case less
  show ?case
  proof (cases "step < MAXSTEPS")
    case False
    then show ?thesis by (simp add: binary_loop.simps)
  next
    case True
    obtain s1 where s1: "vote_and_count E rnd step r s = return_run (([], True), s1)" "silent E rnd s1"
      using vote_and_count_silent [OF less.prems] by blast
    obtain s2 where s2: "vote_and_count E rnd (step + 1) h s1 = return_run (([], True), s2)" "silent E rnd s2"
      using vote_and_count_silent [OF s1(2)] by blast
    obtain s3 where s3: "vote_and_count E rnd (step + 2) emp s2 = return_run (([], True), s3)" "silent E rnd s3"
      using vote_and_count_silent [OF s2(2)] by blast
    have "commonCoin E rnd (step + 2) ExpectedCommitteeMembers s3 = return_run (0, s3)"
      using s3(2) by (simp add: coin_no_messages silent_def)
    moreover have "binary_loop E rnd h emp (step + 2) h s3 = None" using less.hyps s3(2) True by simp
    ultimately show ?thesis using s1(1) s2(1) s3(1) by (subst binary_loop.simps) simp
  qed
qed



definition junk_peer :: peer where
  "junk_peer = NewPeer\<lparr>InVotes := (\<lambda>_. [forger_vote\<lparr>v_Signature := replicate 40 CHR 0x00, v_ParentHash := ''b''\<rparr>])\<rparr>"

theorem junk_votes_crash_witness:
  "BA toy_env 3 (toy_block 3 ''d'' ''c'') (toy_state\<lparr>a_peer := junk_peer\<rparr>) = panic_run NilDeref"
proof (rule junk_votes_crash)
  show "SortitionSeed toy_env (toy_state\<lparr>a_peer := junk_peer\<rparr>) 3 = return_run (sha256 toy_crypto [])"
    by (rule toy_seed)
  show "lastBlock toy_env (toy_state\<lparr>a_peer := junk_peer\<rparr>) = return_run (toy_block 2 ''c'' ''b'')"
    using toy_open_tail [of junk_peer] by (simp add: open_tail_def lastBlock_def)
  show "sha256 (e_hashes toy_env) m \<noteq> []" for m by (simp add: toy_env_def toy_crypto_def)
qed (simp_all add: filed_def junk_def valid_vote_def junk_peer_def NewPeer_def toy_state_def PublicKeySize_def)

section \<open>Agreement when the votes are there\<close>

definition supports :: "'db alg_env \<Rightarrow> 'db alg_state \<Rightarrow> bytes \<Rightarrow> int \<Rightarrow> vote_message \<Rightarrow> bool" where
  "supports E s h n v \<longleftrightarrow> valid_vote E s v \<and> v_Hash v = h
     \<and> (\<exists>seed. SortitionSeed E s (v_Round v) = return_run seed)
     \<and> (\<forall>i. 1 \<le> subUsers (e_pow E) n (of_nat (e_intn E i + 50)) (v_VRF v))"

text \<open>Every vote filed for a step is for \<open>h\<close>, and they come from at least \<open>q\<close> keys.\<close>

definition unanimous :: "'db alg_env \<Rightarrow> uint64 \<Rightarrow> bytes \<Rightarrow> 'db alg_state \<Rightarrow> int \<Rightarrow> int \<Rightarrow> int \<Rightarrow> bool" where
  "unanimous E rnd h s step n q \<longleftrightarrow> (\<forall>v \<in> set (filed rnd step s). supports E s h n v)
     \<and> q \<le> int (card (voter ` set (filed rnd step s)))"

lemma supports_quiet: "quiet s s' \<Longrightarrow> supports E s' h n v = supports E s h n v"
  using SortitionSeed_quiet [of s s' E "v_Round v"] by (simp add: supports_def valid_vote_def quiet_def)

text \<open>
  The votes filed last for a step are for \<open>h\<close> and come from \<open>q\<close> keys that did not vote before; which hashes
  the votes before them were for does not matter.
\<close>

definition decided :: "'db alg_env \<Rightarrow> uint64 \<Rightarrow> bytes \<Rightarrow> 'db alg_state \<Rightarrow> int \<Rightarrow> int \<Rightarrow> int \<Rightarrow> bool" where
  "decided E rnd h s step n q \<longleftrightarrow> (\<exists>xs ys. filed rnd step s = xs @ ys
     \<and> (\<forall>v \<in> set xs. supports E s (v_Hash v) n v \<and> 4 \<le> length (v_Hash v)) \<and> (\<forall>v \<in> set ys. supports E s h n v)
     \<and> voter ` set xs \<inter> voter ` set ys = {} \<and> q \<le> int (card (voter ` set ys)))"

lemma unanimous_decided: "unanimous E rnd h s step n q \<Longrightarrow> decided E rnd h s step n q"
  unfolding unanimous_def decided_def by (intro exI [of _ "[]"] exI [of _ "filed rnd step s"]) simp

lemma decided_quiet: "quiet s s' \<Longrightarrow> decided E rnd h s' step n q = decided E rnd h s step n q"
  by (simp add: decided_def filed_quiet supports_quiet)

lemma unanimous_quiet: "quiet s s' \<Longrightarrow> unanimous E rnd h s' step n q = unanimous E rnd h s step n q"
  by (simp add: unanimous_def filed_quiet supports_quiet)

definition agreeing :: "'db alg_state \<Rightarrow> int \<Rightarrow> bytes \<Rightarrow> int \<Rightarrow> bytes set \<Rightarrow> 'db count \<Rightarrow> bytes set \<Rightarrow> bool" where
  "agreeing s q h i V0 c V \<longleftrightarrow> quiet s (c_state c) \<and> finite V \<and> c_voters c = V0 \<union> V \<and> int (card V) \<le> c_counts c i
     \<and> (q \<le> int (card V) \<longrightarrow> c_res c = h)"

lemma count_vote_supports:
  assumes c: "quiet s (c_state c)" and v: "supports E s h n v" and i: "BytesToInt32 h = Inr i"
  shows "\<exists>m s'. 1 \<le> m \<and> quiet s s' \<and> count_vote E th n c v = return_run
    (if voter v \<in> c_voters c then c\<lparr>c_state := s'\<rparr>
     else \<lparr>c_res = (if quorum th n \<le> c_counts c i + m then h else c_res c), c_counts = (c_counts c)(i := c_counts c i + m),
            c_voters = insert (voter v) (c_voters c), c_state = s'\<rparr>)"
proof -
  obtain seed where ok: "vote_VerifySign (e_keys E) v = Inr None" "v_ParentHash v = TailHash (a_chain (c_state c))"
    "SortitionSeed E (c_state c) (v_Round v) = return_run seed" "v_Hash v = h"
    using v SortitionSeed_quiet [OF c] c by (auto simp: supports_def valid_vote_def quiet_def)
  let ?m = "subUsers (e_pow E) n (of_nat (e_intn E (a_drawn (c_state c)) + 50)) (v_VRF v)"
  let ?s = "(c_state c)\<lparr>a_drawn := a_drawn (c_state c) + 1\<rparr>"
  note p = processMsg_valid [OF ok(1-3), of n]
  have m: "1 \<le> ?m" using v by (simp add: supports_def)
  moreover have "quiet s ?s" using c by (simp add: quiet_def)
  moreover have "vote_RecoverPubkey v = Inr (voter v)"
    using ok(1) by (simp add: vote_VerifySign_ok vote_RecoverPubkey_def RecoverPubkey_def voter_def)
  then have "count_vote E th n c v = return_run
    (if voter v \<in> c_voters c then c\<lparr>c_state := ?s\<rparr>
     else \<lparr>c_res = (if quorum th n \<le> c_counts c i + ?m then h else c_res c), c_counts = (c_counts c)(i := c_counts c i + ?m),
            c_voters = insert (voter v) (c_voters c), c_state = ?s\<rparr>)"
    using p m i ok(4) by (simp add: count_vote_def Let_def)
  ultimately show ?thesis by blast
qed

lemma count_vote_agreeing:
  assumes c: "agreeing s q h i V0 c V" and v: "supports E s h n v" "voter v \<notin> V0" and i: "BytesToInt32 h = Inr i"
    and q: "q = quorum th n"
  shows "\<exists>c'. count_vote E th n c v = return_run c' \<and> agreeing s q h i V0 c' (insert (voter v) V)"
proof -
  obtain m s' where "1 \<le> m" "quiet s s'" "count_vote E th n c v = return_run
      (if voter v \<in> c_voters c then c\<lparr>c_state := s'\<rparr>
       else \<lparr>c_res = (if quorum th n \<le> c_counts c i + m then h else c_res c), c_counts = (c_counts c)(i := c_counts c i + m),
              c_voters = insert (voter v) (c_voters c), c_state = s'\<rparr>)"
    using count_vote_supports [OF _ v(1) i, of c th] c by (auto simp: agreeing_def)
  then show ?thesis using c v(2) q by (cases "voter v \<in> V") (auto simp: agreeing_def insert_absorb)
qed

lemma fold_agreeing:
  assumes "agreeing s q h i V0 c V" and "\<forall>v \<in> set vs. supports E s h n v \<and> voter v \<notin> V0" and "BytesToInt32 h = Inr i"
    and "q = quorum th n"
  shows "\<exists>c'. fold_run (count_vote E th n) c vs = return_run c' \<and> agreeing s q h i V0 c' (V \<union> voter ` set vs)"
  using assms(1,2)
proof (induction vs arbitrary: c V)
  case Nil
  then show ?case by simp
next
  case (Cons v vs)
  have v: "supports E s h n v" "voter v \<notin> V0" "\<forall>v \<in> set vs. supports E s h n v \<and> voter v \<notin> V0"
    using Cons.prems(2) by simp_all
  obtain c1 where c1: "count_vote E th n c v = return_run c1" "agreeing s q h i V0 c1 (insert (voter v) V)"
    using count_vote_agreeing [OF Cons.prems(1) v(1,2) assms(3,4)] by blast
  obtain c' where "fold_run (count_vote E th n) c1 vs = return_run c'"
    "agreeing s q h i V0 c' (insert (voter v) V \<union> voter ` set vs)"
    using Cons.IH [OF c1(2) v(3)] by blast
  with c1(1) show ?case by (intro exI [of _ c']) simp
qed

lemma fold_run_append: "fold_run f s (xs @ ys) = bind_run (fold_run f s xs) (\<lambda>s'. fold_run f s' ys)"
  by (induction xs arbitrary: s) (auto simp: bind_run_def split: option.split sum.split)

text \<open>Votes for any hashes: the tallies stay non-negative.\<close>

lemma fold_any:
  assumes "quiet s (c_state c)" and "\<forall>i. 0 \<le> c_counts c i"
    and "\<forall>v \<in> set vs. supports E s (v_Hash v) n v \<and> 4 \<le> length (v_Hash v)"
  shows "\<exists>c'. fold_run (count_vote E th n) c vs = return_run c' \<and> quiet s (c_state c') \<and> (\<forall>i. 0 \<le> c_counts c' i)
    \<and> c_voters c' = c_voters c \<union> voter ` set vs"
  using assms
proof (induction vs arbitrary: c)
  case Nil
  then show ?case by simp
next
  case (Cons v vs)
  obtain i where i: "BytesToInt32 (v_Hash v) = Inr i" using Cons.prems(3) by (auto simp: BytesToInt32_eq)
  have "supports E s (v_Hash v) n v" using Cons.prems(3) by simp
  from count_vote_supports [OF Cons.prems(1) this i, of th] obtain m s' where
    m: "1 \<le> m" "quiet s s'" "count_vote E th n c v = return_run
      (if voter v \<in> c_voters c then c\<lparr>c_state := s'\<rparr>
       else \<lparr>c_res = (if quorum th n \<le> c_counts c i + m then v_Hash v else c_res c), c_counts = (c_counts c)(i := c_counts c i + m),
              c_voters = insert (voter v) (c_voters c), c_state = s'\<rparr>)" by blast
  have "0 \<le> c_counts c i + m" using m(1) Cons.prems(2) [rule_format, of i] by simp
  with m Cons.prems(2) obtain c1 where c1: "count_vote E th n c v = return_run c1" "quiet s (c_state c1)"
    "\<forall>i. 0 \<le> c_counts c1 i" "c_voters c1 = insert (voter v) (c_voters c)"
    by (cases "voter v \<in> c_voters c") (auto simp: insert_absorb)
  from Cons.IH [OF c1(2,3)] Cons.prems(3) obtain c' where "fold_run (count_vote E th n) c1 vs = return_run c'"
    "quiet s (c_state c')" "\<forall>i. 0 \<le> c_counts c' i" "c_voters c' = c_voters c1 \<union> voter ` set vs" by auto
  with c1 show ?case by (intro exI [of _ c']) auto
qed

lemma count_decided:
  assumes "a_arrive s = []" and "decided E rnd h s step n (quorum th n)" and "1 \<le> quorum th n"
    and "4 \<le> length h"
  shows "\<exists>s'. countVotes E rnd step th n s = return_run ((h, False), s') \<and> quiet s s'"
proof -
  let ?c0 = "\<lparr>c_res = [], c_counts = (\<lambda>_. 0), c_voters = {}, c_state = s\<rparr>"
  obtain i where i: "BytesToInt32 h = Inr i" using assms(4) by (simp add: BytesToInt32_eq)
  obtain xs ys where vs: "filed rnd step s = xs @ ys" "\<forall>v \<in> set xs. supports E s (v_Hash v) n v \<and> 4 \<le> length (v_Hash v)"
    "\<forall>v \<in> set ys. supports E s h n v" "voter ` set xs \<inter> voter ` set ys = {}" "quorum th n \<le> int (card (voter ` set ys))"
    using assms(2) by (auto simp: decided_def)
  obtain c1 where c1: "fold_run (count_vote E th n) ?c0 xs = return_run c1" "quiet s (c_state c1)" "\<forall>i. 0 \<le> c_counts c1 i"
    "c_voters c1 = voter ` set xs"
    using fold_any [of s ?c0 xs E n th] vs(2) by auto
  have "agreeing s (quorum th n) h i (voter ` set xs) c1 {}" using c1 assms(3) by (simp add: agreeing_def)
  moreover have "\<forall>v \<in> set ys. supports E s h n v \<and> voter v \<notin> voter ` set xs" using vs(3,4) by blast
  ultimately obtain c where c: "fold_run (count_vote E th n) c1 ys = return_run c"
    "agreeing s (quorum th n) h i (voter ` set xs) c (voter ` set ys)"
    using fold_agreeing [OF _ _ i refl, of s th n "voter ` set xs" c1 "{}" ys E] by auto
  have "xs @ ys \<noteq> []" using assms(3) vs(5) by auto
  moreover have "fold_run (count_vote E th n) ?c0 (xs @ ys) = return_run c" using c1(1) c(1) by (simp add: fold_run_append)
  ultimately show ?thesis
    using c(2) assms(1) vs(1,5) by (auto simp: countVotes_idle filed_def [symmetric] Let_def agreeing_def)
qed

lemma count_unanimous:
  assumes "a_arrive s = []" and "unanimous E rnd h s step n (quorum th n)" and "1 \<le> quorum th n"
    and "4 \<le> length h"
  shows "\<exists>s'. countVotes E rnd step th n s = return_run ((h, False), s') \<and> quiet s s'"
  using count_decided [OF assms(1) unanimous_decided [OF assms(2)] assms(3,4)] .

lemma quorum_values: "quorum ThresholdOfBAStep ExpectedCommitteeMembers = 2"
  "quorum FinalThreshold ExpectedFinalCommitteeMembers = 2"
  by (simp_all add: quorum_def alg_params)

lemma vote_and_count_decided:
  assumes "SortitionSeed E s rnd = return_run seed" and "a_arrive s = []" and "4 \<le> length h"
    and "decided E rnd h s step ExpectedCommitteeMembers 2"
  shows "\<exists>s'. vote_and_count E rnd step r s = return_run ((h, False), s') \<and> quiet s s'"
proof -
  obtain s1 where s1: "cast_vote E rnd step ExpectedCommitteeMembers r s = return_run s1" "quiet s s1"
    using cast_vote_quiet [OF assms(1)] by blast
  then obtain s2 where "countVotes E rnd step ThresholdOfBAStep ExpectedCommitteeMembers s1 = return_run ((h, False), s2)"
    "quiet s1 s2"
    using count_decided [of s1 E rnd h step ExpectedCommitteeMembers ThresholdOfBAStep] assms
    by (auto simp: quorum_values decided_quiet arrive_quiet)
  with s1 show ?thesis using quiet_trans by (auto simp: vote_and_count_def)
qed

lemma BA_decided:
  assumes "SortitionSeed E s rnd = return_run seed" and "a_arrive s = []"
    and "lastBlock E s = return_run lb" and "4 \<le> length h"
    and "h \<noteq> emptyHash (sha256 (e_hashes E)) rnd (TailHash (a_chain s))"
    and "h \<noteq> emptyHash (sha256 (e_hashes E)) rnd (CurrentBlockHash lb)"
    and "\<forall>step \<in> {ReductionOne, ReductionTwo, 1}. decided E rnd h s step ExpectedCommitteeMembers 2"
    and "decided E rnd h s FINAL ExpectedFinalCommitteeMembers 2"
    and "getBlock rnd h (a_peer s) = Some b"
  shows "\<exists>s'. BA E rnd blk s = return_run ((FinalConsensus, b\<lparr>BType := FinalConsensus\<rparr>), s')
    \<and> a_chain s' = a_chain s"
proof -
  obtain s1 where s1: "vote_and_count E rnd ReductionOne (CurrentBlockHash blk) s = return_run ((h, False), s1)" "quiet s s1"
    using vote_and_count_decided [OF assms(1,2,4)] assms(7) by blast
  note q1 = SortitionSeed_quiet [OF s1(2)] arrive_quiet [OF s1(2)] decided_quiet [OF s1(2)]
  obtain s2 where s2: "vote_and_count E rnd ReductionTwo h s1 = return_run ((h, False), s2)" "quiet s1 s2"
    using vote_and_count_decided [of E s1 rnd seed h ReductionTwo h] assms(1,2,4,7) by (auto simp: q1)
  have q2: "quiet s s2" using s1(2) s2(2) quiet_trans by blast
  obtain s3 where s3: "vote_and_count E rnd 1 h s2 = return_run ((h, False), s3)" "quiet s2 s3"
    using vote_and_count_decided [of E s2 rnd seed h 1 h] assms(1,2,4,7)
    by (auto simp: SortitionSeed_quiet [OF q2] arrive_quiet [OF q2] decided_quiet [OF q2])
  have q3: "quiet s s3" using q2 s3(2) quiet_trans by blast
  obtain s4 where s4: "vote_ahead E rnd 1 h s3 = return_run s4" "quiet s3 s4"
    using vote_ahead_quiet [of E s3 rnd seed] SortitionSeed_quiet [OF q3] assms(1) by metis
  have q4: "quiet s s4" using q3 s4(2) quiet_trans by blast
  obtain s5 where s5: "cast_vote E rnd FINAL ExpectedFinalCommitteeMembers h s4 = return_run s5" "quiet s4 s5"
    using cast_vote_quiet [of E s4 rnd seed] SortitionSeed_quiet [OF q4] assms(1) by metis
  have q5: "quiet s s5" using q4 s5(2) quiet_trans by blast
  obtain s6 where s6: "countVotes E rnd FINAL FinalThreshold ExpectedFinalCommitteeMembers s5 = return_run ((h, False), s6)"
    "quiet s5 s6"
    using count_decided [of s5 E rnd h FINAL ExpectedFinalCommitteeMembers FinalThreshold] assms(2,4,8)
    by (auto simp: quorum_values arrive_quiet [OF q5] decided_quiet [OF q5])
  have q6: "quiet s s6" using q5 s6(2) quiet_trans by blast
  have t: "TailHash (a_chain s2) = TailHash (a_chain s)" using q2 by (simp add: quiet_def)
  have bba: "binaryBA E rnd h s2 = return_run (h, s5)"
    using s3(1) s4(1) s5(1) assms(5) by (simp add: binaryBA_def binary_loop.simps MAXSTEPS_def t)
  have "lastBlock E s6 = return_run lb" using lastBlock_quiet [OF q6] assms(3) by simp
  moreover have "getBlock rnd h (a_peer s6) = Some b" "a_chain s6 = a_chain s"
    using assms(9) q6 by (simp_all add: quiet_def)
  ultimately show ?thesis
    using s1(1) s2(1) bba s6(1) assms(6) by (simp add: BA_def reduction_vote_and_count Let_def)
qed

lemma BA_unanimous:
  assumes "SortitionSeed E s rnd = return_run seed" and "a_arrive s = []"
    and "lastBlock E s = return_run lb" and "4 \<le> length h"
    and "h \<noteq> emptyHash (sha256 (e_hashes E)) rnd (TailHash (a_chain s))"
    and "h \<noteq> emptyHash (sha256 (e_hashes E)) rnd (CurrentBlockHash lb)"
    and "\<forall>step \<in> {ReductionOne, ReductionTwo, 1}. unanimous E rnd h s step ExpectedCommitteeMembers 2"
    and "unanimous E rnd h s FINAL ExpectedFinalCommitteeMembers 2"
    and "getBlock rnd h (a_peer s) = Some b"
  shows "\<exists>s'. BA E rnd blk s = return_run ((FinalConsensus, b\<lparr>BType := FinalConsensus\<rparr>), s')
    \<and> a_chain s' = a_chain s"
  using assms(7,8) by (intro BA_decided [OF assms(1-6) _ _ assms(9)]) (auto dest: unanimous_decided)

text \<open>
  C2. Agreement: if all votes filed for the two reduction steps, for step 1 and for the final step
  are valid ones for the same hash, of at least two keys and each worth at least one sub-user, then
  \<open>BA\<close> ends with final consensus on the filed block of that hash, whatever block the node proposed
  itself. The thresholds of both committees are 2.
\<close>

theorem ba_final_consensus:
  assumes "SortitionSeed E s rnd = return_run seed" and "a_arrive s = []"
    and "lastBlock E s = return_run lb" and "4 \<le> length h"
    and "h \<noteq> emptyHash (sha256 (e_hashes E)) rnd (TailHash (a_chain s))"
    and "h \<noteq> emptyHash (sha256 (e_hashes E)) rnd (CurrentBlockHash lb)"
    and "\<forall>step \<in> {ReductionOne, ReductionTwo, 1}. unanimous E rnd h s step ExpectedCommitteeMembers 2"
    and "unanimous E rnd h s FINAL ExpectedFinalCommitteeMembers 2"
    and "getBlock rnd h (a_peer s) = Some b"
  shows "\<exists>s'. BA E rnd blk s = return_run ((FinalConsensus, b\<lparr>BType := FinalConsensus\<rparr>), s')
    \<and> a_chain s' = a_chain s"
  using assms by (rule BA_unanimous)

definition toy_vote :: "char \<Rightarrow> vote_message" where
  "toy_vote c = (let v = forger_vote in v\<lparr>v_Signature := replicate 32 c @ rev (vote_data v)\<rparr>)"

definition toy_peer :: peer where
  "toy_peer = NewPeer\<lparr>InVotes := (\<lambda>_. [toy_vote CHR ''x'', toy_vote CHR ''y'']),
     Blcoks := (\<lambda>_. [toy_block 3 ''hash'' ''c''])\<rparr>"

lemma toy_sub_users: "1 \<le> subUsers (\<lambda>_. 0) n 50 []"
proof -
  have e: "\<exists>j \<le> unat (50 :: uint64). hit (\<lambda>_. 0) n 50 [] j" using toy_hit by blast
  have "hit (\<lambda>_. 0) n 50 [] (nat (subUsers (\<lambda>_. 0) n 50 []))"
    using subUsers_spec [of "\<lambda>_. 0" n 50 "[]"] unfolding if_P [OF e] by blast
  then have "nat (subUsers (\<lambda>_. 0) n 50 []) \<noteq> 0" using toy_hit [of n] by metis
  then show ?thesis by simp
qed

lemma toy_supports: "supports toy_env (toy_state\<lparr>a_peer := p\<rparr>) ''hash'' n (toy_vote c)"
proof -
  have "SortitionSeed toy_env (toy_state\<lparr>a_peer := p\<rparr>) (v_Round (toy_vote c)) = return_run (sha256 toy_crypto [])"
    using toy_seed [of p] by (simp add: toy_vote_def forger_vote_def Let_def)
  moreover have "vote_VerifySign toy_keys (toy_vote c) = Inr None"
    by (simp add: vote_VerifySign_ok toy_vote_def Let_def PublicKeySize_def toy_keys_def)
  ultimately show ?thesis using toy_sub_users [of n]
    by (simp add: supports_def valid_vote_def toy_vote_def forger_vote_def Let_def toy_env_def toy_state_def)
qed

lemma toy_unanimous: "unanimous toy_env 3 ''hash'' (toy_state\<lparr>a_peer := toy_peer\<rparr>) step n 2"
proof -
  have "filed 3 step (toy_state\<lparr>a_peer := toy_peer\<rparr>) = [toy_vote CHR ''x'', toy_vote CHR ''y'']"
    by (simp add: filed_def toy_state_def toy_peer_def)
  moreover have "voter (toy_vote c) = replicate 32 c" for c
    by (simp add: voter_def toy_vote_def Let_def PublicKeySize_def)
  then have "voter (toy_vote CHR ''x'') \<noteq> voter (toy_vote CHR ''y'')"
    by (simp add: replicate_eq_replicate)
  ultimately show ?thesis by (simp add: unanimous_def toy_supports)
qed

theorem count_votes_sound_witness:
  "\<exists>W f. W \<subseteq> {toy_vote CHR ''x'', toy_vote CHR ''y''} \<and> inj_on voter W \<and> 2 \<le> (\<Sum>v \<in> W. f v :: int)"
proof -
  have idle: "a_arrive (toy_state\<lparr>a_peer := toy_peer\<rparr>) = []" by (simp add: toy_state_def)
  have inbox: "InVotes (a_peer (toy_state\<lparr>a_peer := toy_peer\<rparr>)) key = [toy_vote CHR ''x'', toy_vote CHR ''y'']" for key
    by (simp add: toy_state_def toy_peer_def)
  note q = quorum_values(1)
  obtain s' where "countVotes toy_env 3 1 ThresholdOfBAStep ExpectedCommitteeMembers (toy_state\<lparr>a_peer := toy_peer\<rparr>)
      = return_run ((''hash'', False), s')"
    using count_unanimous [OF idle, of toy_env 3 "''hash''" 1 ExpectedCommitteeMembers ThresholdOfBAStep]
      toy_unanimous [of 1] by (auto simp: q)
  from count_votes_sound [OF this] obtain s1 W f where
    "sleep toy_env (toy_state\<lparr>a_peer := toy_peer\<rparr>) = return_run s1"
    "W \<subseteq> set (InVotes (a_peer s1) (ConstructVoteKey 3 1))" "inj_on voter W"
    "quorum ThresholdOfBAStep ExpectedCommitteeMembers \<le> (\<Sum>v \<in> W. f v)" by blast
  then show ?thesis using sleep_idle [OF idle] inbox by (intro exI [of _ W] exI [of _ f]) (simp add: q)
qed

theorem ba_final_consensus_witness:
  "\<exists>s'. BA toy_env 3 (toy_block 3 ''mine'' ''c'') (toy_state\<lparr>a_peer := toy_peer\<rparr>)
     = return_run ((FinalConsensus, toy_block 3 ''hash'' ''c''), s')"
proof -
  have lb: "lastBlock toy_env (toy_state\<lparr>a_peer := toy_peer\<rparr>) = return_run (toy_block 2 ''c'' ''b'')"
    using toy_open_tail [of toy_peer] by (simp add: open_tail_def lastBlock_def)
  have l: "length (emptyHash (sha256 (e_hashes toy_env)) r h) = 32" for r h
    by (simp add: emptyHash_def toy_env_def toy_crypto_def)
  have ne: "''hash'' \<noteq> emptyHash (sha256 (e_hashes toy_env)) r h" for r h
  proof
    assume eq: "''hash'' = emptyHash (sha256 (e_hashes toy_env)) r h"
    from l [of r h] show False unfolding eq [symmetric] by simp
  qed
  have b: "getBlock 3 ''hash'' (a_peer (toy_state\<lparr>a_peer := toy_peer\<rparr>)) = Some (toy_block 3 ''hash'' ''c'')"
    by (simp add: getBlock_def toy_state_def toy_peer_def)
  have idle: "a_arrive (toy_state\<lparr>a_peer := toy_peer\<rparr>) = []" "4 \<le> length ''hash''"
    by (simp_all add: toy_state_def)
  have u: "\<forall>step \<in> {ReductionOne, ReductionTwo, 1}. unanimous toy_env 3 ''hash'' (toy_state\<lparr>a_peer := toy_peer\<rparr>)
      step ExpectedCommitteeMembers 2" using toy_unanimous by blast
  from ba_final_consensus [OF toy_seed idle(1) lb idle(2) ne ne u toy_unanimous b]
  show ?thesis by (auto simp: toy_block_def NewBlock_def FinalConsensus_def)
qed

section \<open>The proposed block\<close>

lemma proposeBlock_fields:
  assumes "open_tail E s lb" and "vrfSeed E s (Round lb + 1) = return_run (Some (seed, pf))"
    and "txs \<noteq> []" and "TailHash (a_chain s) \<noteq> genesis_parent"
    and "list_all (VerifyTransaction (e_hashes E)) txs"
  shows "\<exists>b b0. proposeBlock E txs s = return_run b
    \<and> Round b = Round lb + 1 \<and> PreviousBlockHash b = TailHash (a_chain s) \<and> Transactions b = txs
    \<and> Seed b = seed \<and> Proof b = pf \<and> Author b = BytesToAddress (Pubkey E)
    \<and> CheckDataBlock (e_hashes E) b = Inr True
    \<and> CurrentBlockHash b = sha256 (e_hashes E) (encode (e_block E) b0)
    \<and> Round b0 = LastID (a_chain s) \<and> Seed b0 = [] \<and> Proof b0 = [] \<and> Author b0 = replicate AddressLength zero_byte"
proof -
  let ?start = "NewBlock\<lparr>Round := LastID (a_chain s), PreviousBlockHash := TailHash (a_chain s), Transactions := txs,
    MerKelRoot := merkle_root_digest (md5 (e_hashes E)) (map transactionsToBytes txs), BTimeStamp := e_now E\<rparr>"
  let ?ini = "(SetBlockHash (e_hashes E) (e_block E) ?start)\<lparr>Seed := sha256 (e_hashes E) [],
    Author := HashToAddr (sha256 (e_hashes E) [])\<rparr>"
  have i: "InitBlock (e_hashes E) (e_block E) (e_now E) txs (TailHash (a_chain s)) (LastID (a_chain s)) NewBlock = Inr ?ini"
    using GetMerkleRoot_digest [of "map transactionsToBytes txs" "md5 (e_hashes E)"] assms(3)
    by (auto simp: InitBlock_def SetBlockHash_def Let_def)
  let ?b = "?ini\<lparr>Round := Round lb + 1, Seed := seed, Author := BytesToAddress (Pubkey E), Proof := pf,
    BSignature := (case priv_Sign (e_keys E) (e_priv E) (CurrentBlockHash ?ini) of None \<Rightarrow> [] | Some sg \<Rightarrow> sg)\<rparr>"
  obtain b b0 where b: "b = ?b" "b0 = ?start" by blast
  have p: "proposeBlock E txs s = return_run b"
    using assms(1,2) i unfolding b by (simp add: proposeBlock_def alg_Round_def lastBlock_def open_tail_def Let_def)
  have c: "CheckDataBlock (e_hashes E) b = Inr True"
    using assms(3,4,5) unfolding b by (simp add: CheckDataBlock_cases SetBlockHash_def list_all_iff)
  have f: "Round b = Round lb + 1 \<and> PreviousBlockHash b = TailHash (a_chain s) \<and> Transactions b = txs
      \<and> Seed b = seed \<and> Proof b = pf \<and> Author b = BytesToAddress (Pubkey E)"
    unfolding b by (simp add: SetBlockHash_def)
  have h: "CurrentBlockHash b = sha256 (e_hashes E) (encode (e_block E) b0)"
    unfolding b by (simp add: SetBlockHash_def)
  have "Round b0 = LastID (a_chain s) \<and> Seed b0 = [] \<and> Proof b0 = [] \<and> Author b0 = replicate AddressLength zero_byte"
    unfolding b by (simp add: NewBlock_def)
  with p c f h show ?thesis by blast
qed

text \<open>
  What a proposer proposes: from a chain whose seed can be computed, a block of the given
  transactions for the round after the tail, on the tail, signed with the node's key; a receiver's
  \<open>CheckDataBlock\<close> accepts it if every transaction verifies. Its hash was computed before round,
  seed, author and proof were set, so the hash (the only signed thing) does not cover them.
\<close>

theorem proposed_block:
  assumes "open_tail E s lb" and "vrfSeed E s (Round lb + 1) = return_run (Some (seed, pf))"
    and "txs \<noteq> []" and "TailHash (a_chain s) \<noteq> genesis_parent"
    and "list_all (VerifyTransaction (e_hashes E)) txs"
  shows "\<exists>b b0. proposeBlock E txs s = return_run b
    \<and> Round b = Round lb + 1 \<and> PreviousBlockHash b = TailHash (a_chain s) \<and> Transactions b = txs
    \<and> Seed b = seed \<and> Proof b = pf \<and> Author b = BytesToAddress (Pubkey E)
    \<and> CheckDataBlock (e_hashes E) b = Inr True
    \<and> CurrentBlockHash b = sha256 (e_hashes E) (encode (e_block E) b0)
    \<and> Round b0 = LastID (a_chain s) \<and> Seed b0 = [] \<and> Proof b0 = [] \<and> Author b0 = replicate AddressLength zero_byte"
  using assms by (rule proposeBlock_fields)

definition toy_tx :: transaction where
  "toy_tx = zero_tx\<lparr>Signature := be_bytes 2 0 @ sha256 toy_crypto (gob_slice toy_crypto (transactionsToBytes zero_tx))\<rparr>"

lemma toy_tx_verifies: "VerifyTransaction toy_crypto toy_tx"
proof -
  have "toy_tx\<lparr>Signature := [], TxID := []\<rparr> = zero_tx" by (simp add: toy_tx_def zero_tx_def)
  moreover have "PublicKey toy_tx = []"
    "Signature toy_tx = be_bytes 2 0 @ sha256 toy_crypto (gob_slice toy_crypto (transactionsToBytes zero_tx))"
    by (simp_all add: toy_tx_def zero_tx_def)
  moreover have "ecdsa_verify toy_crypto 0 0 d (be_bytes 2 0 @ d)" for d by (simp add: toy_crypto_def)
  ultimately show ?thesis by (simp add: VerifyTransaction_unfold restore_key_def)
qed

lemma toy_vrf_seed:
  assumes "a_chain s = toy_chain"
  shows "\<exists>sd. vrfSeed toy_env s 3 = return_run (Some (sd, []))"
proof -
  let ?t = "toy_block 2 ''c'' ''b''"
  have tail: "GetBlockByHash map_bolt (toy_codec toy_blocks) toy_chain ''c'' = Inr ?t"
    using toy_open_tail [of NewPeer] by (simp add: open_tail_def toy_env_def toy_state_def)
  have g: "GetByRound map_bolt (toy_codec toy_blocks) toy_chain 2 = Some (Inr (Some ?t))"
    by (simp add: GetByRound_def tail get_by_round_loop.simps)
  have sel: "e_bolt toy_env = map_bolt" "e_block toy_env = toy_codec toy_blocks" by (simp_all add: toy_env_def)
  have t: "Proof ?t = []" "Seed ?t = []" by (simp_all add: toy_block_def NewBlock_def)
  have ne: "[] \<noteq> hash_seed toy_env x r" for x r
    by (simp add: hash_seed_def toy_env_def toy_crypto_def)
  show ?thesis unfolding vrfSeed_def lastBlock_def Let_def sel assms using g tail t ne by simp
qed

lemma toy_propose:
  assumes "a_chain s = toy_chain"
  shows "\<exists>b. proposeBlock toy_env [toy_tx] s = return_run b \<and> Round b = 3
     \<and> CheckDataBlock toy_crypto b = Inr True \<and> length (CurrentBlockHash b) = 32"
proof -
  let ?t = "toy_block 2 ''c'' ''b''"
  have o: "open_tail toy_env s ?t"
    using toy_open_tail [of NewPeer] by (simp add: open_tail_def toy_env_def toy_state_def assms)
  obtain sd where sd: "vrfSeed toy_env s (Round ?t + 1) = return_run (Some (sd, []))"
    using toy_vrf_seed [OF assms] by auto
  have h: "e_hashes toy_env = toy_crypto" "TailHash (a_chain s) \<noteq> genesis_parent"
    by (simp_all add: toy_env_def genesis_parent_def assms)
  have "list_all (VerifyTransaction (e_hashes toy_env)) [toy_tx]" using toy_tx_verifies h(1) by simp
  from proposeBlock_fields [OF o sd _ h(2) this] obtain b b0 where
    "proposeBlock toy_env [toy_tx] s = return_run b" "Round b = Round ?t + 1"
    "CheckDataBlock toy_crypto b = Inr True" "CurrentBlockHash b = sha256 toy_crypto (encode (e_block toy_env) b0)"
    using h(1) by auto
  then show ?thesis by (simp add: toy_crypto_def)
qed

theorem proposed_block_witness:
  "\<exists>b. proposeBlock toy_env [toy_tx] (toy_state\<lparr>a_peer := NewPeer\<rparr>) = return_run b \<and> Round b = 3
     \<and> CheckDataBlock toy_crypto b = Inr True"
proof -
  let ?s = "toy_state\<lparr>a_peer := NewPeer\<rparr>" and ?t = "toy_block 2 ''c'' ''b''"
  obtain sd where sd: "vrfSeed toy_env ?s (Round ?t + 1) = return_run (Some (sd, []))"
    using toy_vrf_seed [of ?s] by (auto simp: toy_state_def)
  have h: "e_hashes toy_env = toy_crypto" "TailHash (a_chain ?s) \<noteq> genesis_parent"
    by (simp_all add: toy_env_def toy_state_def genesis_parent_def)
  have "list_all (VerifyTransaction (e_hashes toy_env)) [toy_tx]" using toy_tx_verifies h(1) by simp
  from proposed_block [OF toy_open_tail sd _ h(2) this]
  show ?thesis using h(1) by auto
qed

end
