(* ===== verification/Pools.thy ===== *)
theory Pools
  imports Tx_Queue Block_Queue Cache_Api Agreement
begin

text \<open>
  The transaction pools: \<open>txpool/txpool.go\<close>, \<open>txpool_data.go\<close> and \<open>txpool_table.go\<close> over the waiting
  queues of \<open>Tx_Queue\<close>. The parts the two pools share (taking a transaction in, dropping those of a
  received block, counting the ready ones, taking a batch) are over a transaction type with a time
  stamp \<open>ts\<close> and an identity \<open>ident\<close>; the two book-keeper loops put them together with the chains,
  the cache, the hand-over queues and, for the data chain, the consensus.
\<close>

section \<open>Shared by the two pools\<close>

record 'a pool =
  pqueue_of :: "'a pqueue"
  packNumber :: int

text \<open>The data pool holds at most 1000000 transactions, the table pool at most 10.\<close>

definition pool_init :: "'a \<Rightarrow> int \<Rightarrow> 'a pool" where
  "pool_init zero mx = \<lparr>pqueue_of = queue_init zero mx, packNumber = 1\<rparr>"

text \<open>\<open>Inr (True, _)\<close> is the error \<open>FULL\<close>.\<close>

definition TxIn :: "('a \<Rightarrow> int) \<Rightarrow> ('a \<Rightarrow> bytes) \<Rightarrow> 'a \<Rightarrow> 'a pool \<Rightarrow> (bool \<times> 'a pool) go" where
  "TxIn ts ident tx p =
     (if curSize (pqueue_of p) = maxSize (pqueue_of p) then Inr (True, p)
      else bind_go (deref (queue_in ts ident tx (pqueue_of p))) (\<lambda>q. Inr (False, p\<lparr>pqueue_of := q\<rparr>)))"

definition OrdinaryRun :: "('a \<Rightarrow> bytes) \<Rightarrow> 'a list \<Rightarrow> 'a pool \<Rightarrow> 'a pool go" where
  "OrdinaryRun ident txs p =
     bind_go (fold_go (\<lambda>q tx. deref (queue_out ident tx q)) (pqueue_of p) txs) (\<lambda>q. Inr (p\<lparr>pqueue_of := q\<rparr>))"

text \<open>
  The counting loop: \<open>cp\<close> is \<open>countPointer\<close>. It stops at the tail sentinel, whose \<open>next\<close> is nil, or
  at the first node that is not old enough; a broken list may make it dereference nil or run on.
\<close>

partial_function (option) count_ready :: "('a \<Rightarrow> int) \<Rightarrow> int \<Rightarrow> 'a pqueue \<Rightarrow> ptr \<Rightarrow> int \<Rightarrow> int go option" where
  "count_ready ts stand q cp n =
     (case cp of
        None \<Rightarrow> Some (Inl NilDeref)
      | Some a \<Rightarrow>
          (case nx q a of
             None \<Rightarrow> Some (Inr n)
           | Some b \<Rightarrow> if ts (dat q a) < stand then count_ready ts stand q (Some b) (n + 1) else Some (Inr n)))"

text \<open>
  The packing loop: it appends \<open>k\<close> transactions from \<open>p\<close> on, deleting their map entries, and leaves
  the node after them.
\<close>

fun pack :: "('a \<Rightarrow> bytes) \<Rightarrow> nat \<Rightarrow> ptr \<Rightarrow> 'a pqueue \<Rightarrow> ('a list \<times> ptr \<times> 'a pqueue) go" where
  "pack ident 0 p q = Inr ([], p, q)"
| "pack ident (Suc k) p q =
     (case p of
        None \<Rightarrow> Inl NilDeref
      | Some a \<Rightarrow>
          bind_go (pack ident k (nx q a)
              (q\<lparr>qmap := (qmap q)(ident (dat q a) := None), curSize := curSize q - 1\<rparr>))
            (\<lambda>(txs, p', q'). Inr (dat q a # txs, p', q')))"

text \<open>\<open>head.next = p\<close>, \<open>p.pre = head\<close>.\<close>

definition cut_front :: "ptr \<Rightarrow> 'a pqueue \<Rightarrow> 'a pqueue go" where
  "cut_front p q =
     (let q1 = q\<lparr>nx := (nx q)(qhead q := p)\<rparr>
      in case p of None \<Rightarrow> Inl NilDeref | Some a \<Rightarrow> Inr (q1\<lparr>pv := (pv q1)(a := Some (qhead q1))\<rparr>))"

section \<open>The table pool\<close>

record 'db table_keeper =
  tk_pool :: "table_tx pool"
  tk_chain :: "'db table_chain"
  tk_cache :: cache
  tk_blocks :: "table_block bqueue"

text \<open>
  One round of the packing loop of \<open>bookKeeperRun\<close>. The cache writes to the same file as the chain.
\<close>

definition table_round :: "'db bolt \<Rightarrow> crypto \<Rightarrow> table_block codec \<Rightarrow> uint64 \<Rightarrow> 'db table_keeper \<Rightarrow>
    'db table_keeper go" where
  "table_round B cr cd now k =
     bind_go (pack tTxID (nat (packNumber (tk_pool k))) (nx (pqueue_of (tk_pool k)) (qhead (pqueue_of (tk_pool k))))
                (pqueue_of (tk_pool k))) (\<lambda>(txs, p, q).
     bind_go (table_InitBlock now cr cd txs (TailHash (tk_chain k)) (LastID (tk_chain k)) table_NewBlock) (\<lambda>b.
     bind_go (table_AddBlockToChain B cd b ((tk_chain k)\<lparr>LastID := LastID (tk_chain k) + 1\<rparr>)) (\<lambda>ch.
     bind_go (UpdateByTableBlock B b (tk_cache k, Db ch)) (\<lambda>(c, db).
     bind_go (cut_front p q) (\<lambda>q'.
       Inr \<lparr>tk_pool = (tk_pool k)\<lparr>pqueue_of := q'\<rparr>, tk_chain = ch\<lparr>Db := db\<rparr>, tk_cache = c,
            tk_blocks = Put b (tk_blocks k)\<rparr>)))))"

partial_function (option) table_rounds :: "'db bolt \<Rightarrow> crypto \<Rightarrow> table_block codec \<Rightarrow> uint64 \<Rightarrow> int \<Rightarrow>
    'db table_keeper \<Rightarrow> 'db table_keeper go option" where
  "table_rounds B cr cd now n k =
     (if packNumber (tk_pool k) \<le> n
      then (case table_round B cr cd now k of
              Inl e \<Rightarrow> Some (Inl e)
            | Inr k' \<Rightarrow> table_rounds B cr cd now (n - packNumber (tk_pool k)) k')
      else Some (Inr k))"

definition table_bookKeeperRun :: "'db bolt \<Rightarrow> crypto \<Rightarrow> table_block codec \<Rightarrow> uint64 \<Rightarrow> 'db table_keeper \<Rightarrow>
    'db table_keeper go option" where
  "table_bookKeeperRun B cr cd now k =
     (let q = pqueue_of (tk_pool k) in
      case count_ready tTimeStamp (sint now - 2) q (nx q (qhead q)) 0 of
        None \<Rightarrow> None
      | Some (Inl e) \<Rightarrow> Some (Inl e)
      | Some (Inr n) \<Rightarrow> table_rounds B cr cd now n k)"

section \<open>The data pool\<close>

text \<open>
  \<open>dk_spins\<close>: for each round that another node's block wins, how often the waiting loop runs before
  it sees \<open>util.IsDone\<close>; it never does if there is no value.
\<close>

record 'db data_keeper =
  dk_pool :: "transaction pool"
  dk_alg :: "'db alg_state"
  dk_cache :: cache
  dk_tables :: 'db
  dk_blocks :: "block bqueue"
  dk_count :: int
  dk_spins :: "nat option list"
  dk_SubUser :: int

text \<open>\<open>n\<close> runs of the waiting loop: every one of them cuts the queue and lowers the count.\<close>

fun wait_done :: "ptr \<Rightarrow> nat \<Rightarrow> 'db data_keeper \<Rightarrow> 'db data_keeper go" where
  "wait_done p 0 k = Inr k"
| "wait_done p (Suc n) k =
     bind_go (cut_front p (pqueue_of (dk_pool k))) (\<lambda>q.
       wait_done p n (k\<lparr>dk_pool := (dk_pool k)\<lparr>pqueue_of := q\<rparr>, dk_count := dk_count k - packNumber (dk_pool k)\<rparr>))"

definition own_block :: "'db alg_env \<Rightarrow> block \<Rightarrow> ptr \<Rightarrow> 'db data_keeper \<Rightarrow> 'db data_keeper go" where
  "own_block E b p k =
     (let ch0 = a_chain (dk_alg k) in
      bind_go (AddBlockToChain (e_bolt E) (e_block E) b (ch0\<lparr>LastID := LastID ch0 + 1\<rparr>)) (\<lambda>ch.
      bind_go (UpdateByDataBlock (e_bolt E) b (dk_cache k, dk_tables k)) (\<lambda>(c, db).
      bind_go (cut_front p (pqueue_of (dk_pool k))) (\<lambda>q.
        Inr (k\<lparr>dk_pool := (dk_pool k)\<lparr>pqueue_of := q\<rparr>, dk_alg := (dk_alg k)\<lparr>a_chain := ch\<rparr>, dk_cache := c,
               dk_tables := db, dk_blocks := Put b (dk_blocks k),
               dk_count := dk_count k - packNumber (dk_pool k)\<rparr>)))))"

definition lost_block :: "ptr \<Rightarrow> 'db data_keeper \<Rightarrow> 'db data_keeper run" where
  "lost_block p k =
     (case dk_spins k of
        [] \<Rightarrow> None
      | None # _ \<Rightarrow> None
      | Some n # r \<Rightarrow> Some (wait_done p n (k\<lparr>dk_spins := r\<rparr>)))"

text \<open>One round of the packing loop: sortition, batch, consensus, and what becomes of the batch.\<close>

definition data_round :: "'db alg_env \<Rightarrow> 'db data_keeper \<Rightarrow> 'db data_keeper run" where
  "data_round E k =
     bind_run (alg_Round E (dk_alg k)) (\<lambda>last.
     let rnd = last + 1 in
     bind_run (SortitionSeed E (dk_alg k) rnd) (\<lambda>seed.
     let (weight, s) = TokenOwn E (dk_alg k);
         (vrf, pf, users) = Sortition E seed (Role Proposer rnd PROPOSE) ExpectedBlockProposers weight;
         k1 = k\<lparr>dk_alg := s, dk_SubUser := users\<rparr>
     in if 0 < users then
          bind_run (lift_go (pack TxID (nat (packNumber (dk_pool k)))
              (nx (pqueue_of (dk_pool k)) (qhead (pqueue_of (dk_pool k)))) (pqueue_of (dk_pool k)))) (\<lambda>(txs, p, q).
          bind_run (ProcessMain E txs rnd vrf pf users s) (\<lambda>(b, s').
            let k2 = k1\<lparr>dk_pool := (dk_pool k)\<lparr>pqueue_of := q\<rparr>, dk_alg := s'\<rparr>
            in if Author b = BytesToAddress (Pubkey E) then lift_go (own_block E b p k2) else lost_block p k2))
        else return_run k1))"

partial_function (option) data_rounds :: "'db alg_env \<Rightarrow> 'db data_keeper \<Rightarrow> 'db data_keeper run" where
  "data_rounds E k =
     (if packNumber (dk_pool k) \<le> dk_count k
      then (case data_round E k of
              None \<Rightarrow> None
            | Some (Inl e) \<Rightarrow> Some (Inl e)
            | Some (Inr k') \<Rightarrow> data_rounds E k')
      else Some (Inr k))"

definition data_bookKeeperRun :: "'db alg_env \<Rightarrow> int \<Rightarrow> 'db data_keeper \<Rightarrow> 'db data_keeper run" where
  "data_bookKeeperRun E now k =
     (let q = pqueue_of (dk_pool k) in
      case count_ready TimeStamp (now - 2) q (nx q (qhead q)) 0 of
        None \<Rightarrow> None
      | Some (Inl e) \<Rightarrow> Some (Inl e)
      | Some (Inr n) \<Rightarrow> data_rounds E (k\<lparr>dk_count := n\<rparr>))"

section \<open>The queue and the operations of the table pool\<close>

text \<open>
  \<open>txpool_table.go\<close> repeats the queue and the two operations for table transactions. Each is the
  shared one at their time stamp and identity.
\<close>

definition tableQueue_init :: "table_tx pqueue" where
  "tableQueue_init = queue_init zero_table_tx 10"

definition tableQueue_in :: "table_tx \<Rightarrow> table_tx pqueue \<Rightarrow> table_tx pqueue option" where
  "tableQueue_in = queue_in tTimeStamp tTxID"

definition tableQueue_out :: "table_tx \<Rightarrow> table_tx pqueue \<Rightarrow> table_tx pqueue option" where
  "tableQueue_out = queue_out tTxID"

definition TxPoolTable_init :: "table_tx pool" where
  "TxPoolTable_init = \<lparr>pqueue_of = tableQueue_init, packNumber = 1\<rparr>"

definition TxPoolTable_TxIn :: "table_tx \<Rightarrow> table_tx pool \<Rightarrow> (bool \<times> table_tx pool) go" where
  "TxPoolTable_TxIn tx p =
     (if curSize (pqueue_of p) = maxSize (pqueue_of p) then Inr (True, p)
      else bind_go (deref (tableQueue_in tx (pqueue_of p))) (\<lambda>q. Inr (False, p\<lparr>pqueue_of := q\<rparr>)))"

definition TxPoolTable_OrdinaryRun :: "table_tx list \<Rightarrow> table_tx pool \<Rightarrow> table_tx pool go" where
  "TxPoolTable_OrdinaryRun txs p =
     bind_go (fold_go (\<lambda>q tx. deref (tableQueue_out tx q)) (pqueue_of p) txs) (\<lambda>q. Inr (p\<lparr>pqueue_of := q\<rparr>))"

lemma table_pool_shared [simp]:
  "TxPoolTable_init = pool_init zero_table_tx 10" "TxPoolTable_TxIn = TxIn tTimeStamp tTxID"
  "TxPoolTable_OrdinaryRun = OrdinaryRun tTxID"
  by (simp_all add: fun_eq_iff TxPoolTable_init_def TxPoolTable_TxIn_def TxPoolTable_OrdinaryRun_def pool_init_def TxIn_def
      OrdinaryRun_def tableQueue_init_def tableQueue_in_def tableQueue_out_def)

section \<open>The pool of a node\<close>

record tx_pool =
  bookKeeper :: bool
  txPoolData :: "transaction pool"
  txPoolTable :: "table_tx pool"

definition pool_Init :: tx_pool where
  "pool_Init = \<lparr>bookKeeper = False, txPoolData = pool_init zero_tx 1000000,
     txPoolTable = TxPoolTable_init\<rparr>"

definition SetMod :: "bool \<Rightarrow> tx_pool \<Rightarrow> tx_pool" where
  "SetMod isAccount t = (if bookKeeper t = isAccount then t else t\<lparr>bookKeeper := \<not> bookKeeper t\<rparr>)"

definition SetMod1 :: "tx_pool \<Rightarrow> tx_pool" where
  "SetMod1 t = t\<lparr>bookKeeper := \<not> bookKeeper t\<rparr>"

definition SetPackNumber :: "int \<Rightarrow> tx_pool \<Rightarrow> tx_pool" where
  "SetPackNumber num t = t\<lparr>txPoolData := (txPoolData t)\<lparr>packNumber := num\<rparr>\<rparr>"

definition TxDataIN :: "transaction \<Rightarrow> tx_pool \<Rightarrow> (bool \<times> tx_pool) go" where
  "TxDataIN tx t =
     bind_go (TxIn TimeStamp TxID tx (txPoolData t)) (\<lambda>(full, p). Inr (full, t\<lparr>txPoolData := p\<rparr>))"

definition TxTableIN :: "table_tx \<Rightarrow> tx_pool \<Rightarrow> (bool \<times> tx_pool) go" where
  "TxTableIN tx t =
     bind_go (TxPoolTable_TxIn tx (txPoolTable t)) (\<lambda>(full, p). Inr (full, t\<lparr>txPoolTable := p\<rparr>))"

definition UpdateByData :: "block \<Rightarrow> tx_pool \<Rightarrow> tx_pool go" where
  "UpdateByData b t =
     bind_go (OrdinaryRun TxID (Transactions b) (txPoolData t)) (\<lambda>p. Inr (t\<lparr>txPoolData := p\<rparr>))"

definition UpdateByTable :: "table_block \<Rightarrow> tx_pool \<Rightarrow> tx_pool go" where
  "UpdateByTable b t =
     bind_go (TxPoolTable_OrdinaryRun (tTransactions b) (txPoolTable t)) (\<lambda>p. Inr (t\<lparr>txPoolTable := p\<rparr>))"

section \<open>Counting and taking a batch\<close>

lemma links_cong_path:
  "links n p xs \<Longrightarrow> \<forall>a \<in> set xs. n' a = n a \<and> p' a = p a \<Longrightarrow> links n' p' xs"
  by (induction n p xs rule: links.induct) auto

lemma count_ready_walk:
  assumes "wf_links q (us @ as)"
  shows "count_ready ts stand q (Some (hd (as @ [qtail q]))) n =
    Some (Inr (n + int (length (takeWhile (\<lambda>a. ts (dat q a) < stand) as))))"
  using assms
proof (induction as arbitrary: us n)
  case Nil
  then show ?case by (simp add: count_ready.simps wf_links_def)
next
  case (Cons a as)
  have path: "qpath q (us @ a # as) = (qhead q # us) @ a # hd (as @ [qtail q]) # tl (as @ [qtail q])"
    by (cases as) (simp_all add: qpath_def)
  have nx: "nx q a = Some (hd (as @ [qtail q]))" by (rule wf_links_neighbours(1) [OF Cons.prems path])
  have "count_ready ts stand q (Some (hd (as @ [qtail q]))) (n + 1) =
      Some (Inr (n + 1 + int (length (takeWhile (\<lambda>a. ts (dat q a) < stand) as))))"
    using Cons.IH [of "us @ [a]"] Cons.prems by simp
  then show ?case using nx by (simp add: count_ready.simps [of _ _ _ "Some a"])
qed

definition drop_entries :: "('a \<Rightarrow> bytes) \<Rightarrow> addr list \<Rightarrow> 'a pqueue \<Rightarrow> 'a pqueue" where
  "drop_entries ident as q =
     foldl (\<lambda>q a. q\<lparr>qmap := (qmap q)(ident (dat q a) := None), curSize := curSize q - 1\<rparr>) q as"

lemma drop_entries_fields [simp]:
  "nx (drop_entries ident as q) = nx q" "pv (drop_entries ident as q) = pv q" "dat (drop_entries ident as q) = dat q"
  "brk (drop_entries ident as q) = brk q" "qhead (drop_entries ident as q) = qhead q"
  "qtail (drop_entries ident as q) = qtail q" "maxSize (drop_entries ident as q) = maxSize q"
  "curSize (drop_entries ident as q) = curSize q - int (length as)"
  by (induction as arbitrary: q; simp add: drop_entries_def)+

lemma drop_entries_qmap:
  "qmap (drop_entries ident as q) k = (if k \<in> (\<lambda>a. ident (dat q a)) ` set as then None else qmap q k)"
  by (induction as arbitrary: q) (auto simp: drop_entries_def)

lemma pack_walk:
  assumes "wf_links q (us @ as)" and "k \<le> length as" and "nx q' = nx q" and "dat q' = dat q"
  shows "pack ident k (Some (hd (as @ [qtail q]))) q' =
    Inr (map (dat q) (take k as), Some (hd (drop k as @ [qtail q])), drop_entries ident (take k as) q')"
  using assms
proof (induction k arbitrary: as us q')
  case 0
  then show ?case by (simp add: drop_entries_def)
next
  case (Suc k)
  then obtain a bs where as: "as = a # bs" by (cases as) auto
  have path: "qpath q (us @ a # bs) = (qhead q # us) @ a # hd (bs @ [qtail q]) # tl (bs @ [qtail q])"
    by (cases bs) (simp_all add: qpath_def)
  have nx: "nx q a = Some (hd (bs @ [qtail q]))"
    using wf_links_neighbours(1) [OF _ path] Suc.prems(1) by (simp add: as)
  let ?q = "q'\<lparr>qmap := (qmap q')(ident (dat q' a) := None), curSize := curSize q' - 1\<rparr>"
  have "pack ident k (Some (hd (bs @ [qtail q]))) ?q =
      Inr (map (dat q) (take k bs), Some (hd (drop k bs @ [qtail q])), drop_entries ident (take k bs) ?q)"
    using Suc.IH [of "us @ [a]" bs ?q] Suc.prems by (simp add: as)
  then show ?case using nx Suc.prems(3,4) by (simp add: as drop_entries_def)
qed

lemma cut_front_addrs:
  assumes "tq_addrs ident q (us @ vs)" and "q1 = drop_entries ident us q"
  shows "\<exists>q2. cut_front (Some (hd (vs @ [qtail q]))) q1 = Inr q2 \<and> tq_addrs ident q2 vs \<and> dat q2 = dat q
    \<and> maxSize q2 = maxSize q \<and> qhead q2 = qhead q \<and> qtail q2 = qtail q
    \<and> cut_front (Some (hd (vs @ [qtail q]))) q2 = Inr q2"
proof -
  let ?b = "hd (vs @ [qtail q])"
  let ?q2 = "q1\<lparr>nx := (nx q1)(qhead q1 := Some ?b), pv := (pv q1)(?b := Some (qhead q1))\<rparr>"
  have wf: "wf_links q (us @ vs)" using assms(1) by (simp add: tq_addrs_def)
  have b: "?b # tl (vs @ [qtail q]) = vs @ [qtail q]" by simp
  have d: "distinct (qhead q # us @ vs @ [qtail q])" using wf by (simp add: wf_links_def qpath_def)
  have hb: "?b \<noteq> qhead q" using d b by (cases vs) auto
  have l: "links (nx q) (pv q) ((qhead q # us) @ ?b # tl (vs @ [qtail q]))"
    using wf b by (simp add: wf_links_def qpath_def)
  then have l2: "links (nx q) (pv q) (?b # tl (vs @ [qtail q]))" using links_append by blast
  have "links (nx ?q2) (pv ?q2) (?b # tl (vs @ [qtail q]))"
  proof -
    have "links (nx ?q2) (pv ?q2) (?b # tl (vs @ [qtail q])) = links (nx q) (pv q) (?b # tl (vs @ [qtail q]))"
    proof (rule links_cong)
      fix a assume "a \<in> set (butlast (?b # tl (vs @ [qtail q])))"
      then have "a \<noteq> qhead q" using d b by (metis distinct.simps(2) in_set_butlastD Un_iff set_append)
      then show "nx ?q2 a = nx q a" by (simp add: assms(2))
    next
      fix a assume a: "a \<in> set (tl (?b # tl (vs @ [qtail q])))"
      have "distinct (?b # tl (vs @ [qtail q]))" unfolding b using d by simp
      then have "a \<noteq> ?b" using a by (simp only: distinct.simps list.sel) blast
      then show "pv ?q2 a = pv q a" by (simp add: assms(2))
    qed
    then show ?thesis using l2 by simp
  qed
  then have l3: "links (nx ?q2) (pv ?q2) (qpath ?q2 vs)"
    by (cases vs) (simp_all add: qpath_def assms(2))
  have wf2: "wf_links ?q2 vs"
    using wf l3 hb d by (auto simp: wf_links_def qpath_def assms(2))
  have ids: "distinct (map (\<lambda>a. ident (dat q a)) (us @ vs))" using assms(1) by (simp add: tq_addrs_def)
  have m: "qmap ?q2 k = Some a \<longleftrightarrow> a \<in> set vs \<and> ident (dat q a) = k" for k a
    using assms(1) ids by (auto simp: assms(2) drop_entries_qmap tq_addrs_def)
  have "tq_addrs ident ?q2 vs" using wf2 ids m assms(1) by (simp add: tq_addrs_def assms(2))
  moreover have "cut_front (Some ?b) q1 = Inr ?q2" by (simp add: cut_front_def assms(2))
  moreover have "cut_front (Some ?b) ?q2 = Inr ?q2" by (simp add: cut_front_def assms(2))
  ultimately show ?thesis by (intro exI [of _ ?q2]) (simp add: assms(2))
qed

lemma pack_cut:
  assumes "tq_addrs ident q as" and "k \<le> length as"
  shows "\<exists>q1 q2. pack ident k (nx q (qhead q)) q = Inr (take k (map (dat q) as), Some (hd (drop k as @ [qtail q])), q1)
    \<and> cut_front (Some (hd (drop k as @ [qtail q]))) q1 = Inr q2 \<and> tq_addrs ident q2 (drop k as) \<and> dat q2 = dat q
    \<and> maxSize q2 = maxSize q \<and> cut_front (Some (hd (drop k as @ [qtail q]))) q2 = Inr q2"
proof -
  have wf: "wf_links q as" using assms(1) by (simp add: tq_addrs_def)
  have "pack ident k (nx q (qhead q)) q = Inr (map (dat q) (take k as), Some (hd (drop k as @ [qtail q])),
      drop_entries ident (take k as) q)"
    using pack_walk [of q "[]" as k q ident] wf assms(2) wf_links_ends(3) [OF wf] by simp
  moreover have "tq_addrs ident q (take k as @ drop k as)" using assms(1) by simp
  from cut_front_addrs [OF this refl] obtain q2 where
    "cut_front (Some (hd (drop k as @ [qtail q]))) (drop_entries ident (take k as) q) = Inr q2"
    "tq_addrs ident q2 (drop k as)" "dat q2 = dat q" "maxSize q2 = maxSize q"
    "cut_front (Some (hd (drop k as @ [qtail q]))) q2 = Inr q2" by blast
  ultimately show ?thesis by (simp add: take_map)
qed

section \<open>Properties\<close>

text \<open>The pool holds the transactions \<open>xs\<close>.\<close>

definition pool_rep :: "('a \<Rightarrow> bytes) \<Rightarrow> 'a pool \<Rightarrow> 'a list \<Rightarrow> bool" where
  "pool_rep ident p xs \<longleftrightarrow> tq_rep ident (pqueue_of p) xs"

lemma sorted_takeWhile_filter:
  "sorted (map ts xs) \<Longrightarrow> takeWhile (\<lambda>x. ts x < (stand :: int)) xs = filter (\<lambda>x. ts x < stand) xs"
  by (induction xs) (auto simp: empty_filter_conv)

lemma ready_counted:
  assumes "tq_rep ident q xs" and "sorted (map ts xs)"
  shows "count_ready ts stand q (nx q (qhead q)) 0 = Some (Inr (int (length (filter (\<lambda>x. ts x < stand) xs))))"
proof -
  obtain as where as: "tq_addrs ident q as" "xs = map (dat q) as" using assms(1) by (auto simp: tq_rep_def)
  have wf: "wf_links q as" using as(1) by (simp add: tq_addrs_def)
  have "length (takeWhile (\<lambda>a. ts (dat q a) < stand) as) = length (takeWhile (\<lambda>x. ts x < stand) xs)"
    by (simp add: as(2) takeWhile_map comp_def)
  also have "\<dots> = length (filter (\<lambda>x. ts x < stand) xs)"
    by (simp add: sorted_takeWhile_filter [OF assms(2)])
  finally show ?thesis using count_ready_walk [of q "[]" as ts stand 0] wf wf_links_ends(3) [OF wf] by simp
qed

lemma batch_packed:
  assumes "tq_rep ident q xs" and "k \<le> length xs"
  shows "\<exists>p q1 q2. pack ident k (nx q (qhead q)) q = Inr (take k xs, p, q1) \<and> cut_front p q1 = Inr q2
    \<and> tq_rep ident q2 (drop k xs)"
proof -
  obtain as where as: "tq_addrs ident q as" "xs = map (dat q) as" using assms(1) by (auto simp: tq_rep_def)
  obtain q1 q2 where "pack ident k (nx q (qhead q)) q = Inr (take k xs, Some (hd (drop k as @ [qtail q])), q1)"
    "cut_front (Some (hd (drop k as @ [qtail q]))) q1 = Inr q2" "tq_addrs ident q2 (drop k as)" "dat q2 = dat q"
    using pack_cut [OF as(1), of k] assms(2) as(2) by auto
  moreover from this have "tq_rep ident q2 (drop k xs)" unfolding tq_rep_def by (metis as(2) drop_map)
  ultimately show ?thesis by blast
qed

text \<open>
  What the book-keeper packs: if the pool is in order of time, the counting loop counts exactly
  the transactions that are older than the given time, and packing \<open>k\<close> of them takes the \<open>k\<close> oldest
  in order and leaves the pool with the others.
\<close>

theorem batch_of_oldest:
  assumes "tq_rep ident q xs" and "sorted (map ts xs)" and "k \<le> length xs"
  shows "count_ready ts stand q (nx q (qhead q)) 0 = Some (Inr (int (length (filter (\<lambda>x. ts x < stand) xs))))
    \<and> (\<exists>p q1 q2. pack ident k (nx q (qhead q)) q = Inr (take k xs, p, q1) \<and> cut_front p q1 = Inr q2
         \<and> tq_rep ident q2 (drop k xs))"
  using ready_counted [OF assms(1,2)] batch_packed [OF assms(1,3)] by blast

lemma queue_in_maxSize: "queue_in ts ident x q = Some q' \<Longrightarrow> maxSize q' = maxSize q"
  by (auto simp: queue_in_def new_node_def link_after_def Let_def split: Option.bind_splits)

lemma TxIn_cases:
  assumes "pool_rep ident p xs" and "ident x \<notin> ident ` set xs"
  shows "if int (length xs) = maxSize (pqueue_of p) then TxIn ts ident x p = Inr (True, p)
    else \<exists>p'. TxIn ts ident x p = Inr (False, p') \<and> pool_rep ident p' (back_insert ts x xs)"
proof -
  obtain q where q: "queue_in ts ident x (pqueue_of p) = Some q" "tq_rep ident q (back_insert ts x xs)"
    using tx_queue.enq_insert [of ident "pqueue_of p" xs x ts] assms unfolding pool_rep_def by blast
  then show ?thesis using assms(1) by (simp add: TxIn_def pool_rep_def tq_rep_curSize deref_def)
qed

text \<open>
  C33. Taking a transaction in: a full pool answers \<open>FULL\<close> and stays as it is; otherwise a
  transaction with a new identity is put behind those that are not later, so a pool in order of
  time stays in order and holds one more.
\<close>

theorem tx_in_ordered:
  assumes "pool_rep ident p xs" and "sorted (map ts xs)" and "ident x \<notin> ident ` set xs"
  shows "if int (length xs) = maxSize (pqueue_of p) then TxIn ts ident x p = Inr (True, p)
    else \<exists>p' ys. TxIn ts ident x p = Inr (False, p') \<and> pool_rep ident p' ys \<and> sorted (map ts ys)
         \<and> set ys = insert x (set xs) \<and> length ys = Suc (length xs)"
  using TxIn_cases [OF assms(1,3), of ts] sorted_back_insert [OF assms(2), of x]
    set_back_insert [of ts x xs]
  by (simp split: if_splits) (metis length_back_insert)

lemma deref_simps [simp]: "deref None = Inl NilDeref" "deref (Some x) = Inr x"
  by (simp_all add: deref_def)

lemma fold_out_deq_all:
  "fold_go (\<lambda>q tx. deref (queue_out ident tx q)) q txs = deref (tx_queue.deq_all ident txs q)"
proof (induction txs arbitrary: q)
  case Nil
  then show ?case by (simp add: deref_def)
next
  case (Cons x txs)
  then show ?case by (cases "queue_out ident x q") (simp_all add: deref_def)
qed

lemma OrdinaryRun_cases:
  assumes "pool_rep ident p xs" and "distinct (map ident txs)"
  shows "if ident ` set txs \<subseteq> ident ` set xs
    then \<exists>p'. OrdinaryRun ident txs p = Inr p' \<and> pool_rep ident p' (filter (\<lambda>x. ident x \<notin> ident ` set txs) xs)
    else OrdinaryRun ident txs p = Inl NilDeref"
proof (cases "ident ` set txs \<subseteq> ident ` set xs")
  case True
  then obtain q where "tx_queue.deq_all ident txs (pqueue_of p) = Some q"
    "tq_rep ident q (filter (\<lambda>x. ident x \<notin> ident ` set txs) xs)"
    using tx_queue.deq_all_remove [OF _ assms(2)] assms(1) unfolding pool_rep_def by blast
  then have "OrdinaryRun ident txs p = Inr (p\<lparr>pqueue_of := q\<rparr>)
      \<and> pool_rep ident (p\<lparr>pqueue_of := q\<rparr>) (filter (\<lambda>x. ident x \<notin> ident ` set txs) xs)"
    unfolding OrdinaryRun_def fold_out_deq_all pool_rep_def by simp
  with True show ?thesis by auto
next
  case False
  then obtain y where "y \<in> set txs" "ident y \<notin> ident ` set xs" by blast
  then have "tx_queue.deq_all ident txs (pqueue_of p) = None"
    by (rule tx_queue.deq_all_absent [OF assms(1) [unfolded pool_rep_def]])
  then have "OrdinaryRun ident txs p = Inl NilDeref"
    unfolding OrdinaryRun_def fold_out_deq_all by simp
  then show ?thesis unfolding if_not_P [OF False] .
qed

text \<open>
  A block from another node: the pool drops exactly the block's transactions, if it holds all of
  them; a block with a transaction the pool does not hold makes the node panic on a nil pointer.
\<close>

theorem ordinary_run:
  assumes "pool_rep ident p xs" and "distinct (map ident txs)"
  shows "if ident ` set txs \<subseteq> ident ` set xs
    then \<exists>p'. OrdinaryRun ident txs p = Inr p' \<and> pool_rep ident p' (filter (\<lambda>x. ident x \<notin> ident ` set txs) xs)
    else OrdinaryRun ident txs p = Inl NilDeref"
  using assms by (rule OrdinaryRun_cases)

text \<open>A pool with one transaction, for the witnesses.\<close>

definition one_tx :: "bytes \<Rightarrow> int \<Rightarrow> transaction" where
  "one_tx i t = zero_tx\<lparr>TxID := i, TimeStamp := t\<rparr>"

lemma one_tx_simps [simp]: "TxID (one_tx i t) = i" "TimeStamp (one_tx i t) = t"
  by (simp_all add: one_tx_def)

lemma empty_pool_rep: "pool_rep TxID (pool_init zero_tx 1000000) []"
  by (simp add: pool_rep_def pool_init_def tq_rep_init)

lemma small_pool: "\<exists>p. TxIn TimeStamp TxID (one_tx ''a'' 5) (pool_init zero_tx 1000000) = Inr (False, p)
    \<and> pool_rep TxID p [one_tx ''a'' 5]"
proof -
  obtain q where q: "queue_in TimeStamp TxID (one_tx ''a'' 5) (queue_init zero_tx 1000000) = Some q"
    "tq_rep TxID q (back_insert TimeStamp (one_tx ''a'' 5) [])"
    using tx_queue.enq_insert [OF tq_rep_init, where x = "one_tx ''a'' 5" and ident = TxID and ts = TimeStamp] by auto
  have "back_insert TimeStamp (one_tx ''a'' 5) [] = [one_tx ''a'' 5]"
    by (simp add: back_insert_def later_def not_later_def)
  then show ?thesis using q by (simp add: TxIn_def pool_init_def deref_def pool_rep_def) (simp add: queue_init_def)
qed

theorem batch_of_oldest_witness:
  "\<exists>q :: transaction pqueue. count_ready TimeStamp 9 q (nx q (qhead q)) 0 = Some (Inr 1) \<and> curSize q = 1"
proof -
  obtain p where p: "pool_rep TxID p [one_tx ''a'' 5]" using small_pool by blast
  then have r: "tq_rep TxID (pqueue_of p) [one_tx ''a'' 5]" by (simp add: pool_rep_def)
  have "count_ready TimeStamp 9 (pqueue_of p) (nx (pqueue_of p) (qhead (pqueue_of p))) 0 = Some (Inr 1)"
    using batch_of_oldest [OF r, of TimeStamp 1 9] by simp
  then show ?thesis using tq_rep_curSize [OF r] by - (rule exI [of _ "pqueue_of p"], simp)
qed

theorem tx_in_ordered_witness:
  "\<exists>p' ys. TxIn TimeStamp TxID (one_tx ''a'' 5) (pool_init zero_tx 1000000) = Inr (False, p')
     \<and> pool_rep TxID p' ys \<and> set ys = {one_tx ''a'' 5}"
  using tx_in_ordered [OF empty_pool_rep, of TimeStamp "one_tx ''a'' 5"]
  by (auto simp: pool_init_def queue_init_def)

theorem ordinary_run_witness:
  "OrdinaryRun TxID [one_tx ''a'' 5] (pool_init zero_tx 1000000) = Inl NilDeref"
  using ordinary_run [OF empty_pool_rep, of "[one_tx ''a'' 5]"] by simp

text \<open>
  C34. A round lost to another node's block: if the agreed block has another author and the node waits
  for the block at least once, the batch it took from the pool is gone (the pool holds the rest)
  although no block was added and nothing was handed over, so its transactions are in no chain
  unless the other node had them as well.
\<close>

theorem lost_round_drops_batch:
  assumes "alg_Round E (dk_alg k) = return_run lastr"
    and "SortitionSeed E (dk_alg k) (lastr + 1) = return_run seed"
    and "TokenOwn E (dk_alg k) = (weight, s)"
    and "Sortition E seed (Role Proposer (lastr + 1) PROPOSE) ExpectedBlockProposers weight = (vrf, pf, users)"
    and "0 < users" and "pool_rep TxID (dk_pool k) xs" and "packNumber (dk_pool k) = int m" and "m \<le> length xs"
    and "ProcessMain E (take m xs) (lastr + 1) vrf pf users s = return_run (b, s')"
    and "Author b \<noteq> BytesToAddress (Pubkey E)" and "dk_spins k = Some (Suc n) # r"
  shows "\<exists>k'. data_round E k = return_run k' \<and> pool_rep TxID (dk_pool k') (drop m xs)
    \<and> dk_alg k' = s' \<and> dk_blocks k' = dk_blocks k \<and> dk_cache k' = dk_cache k"
proof -
  let ?q = "pqueue_of (dk_pool k)"
  obtain as where as: "tq_addrs TxID ?q as" "xs = map (dat ?q) as"
    using assms(6) by (auto simp: pool_rep_def tq_rep_def)
  let ?p = "Some (hd (drop m as @ [qtail ?q]))"
  obtain q1 q2 where q: "pack TxID m (nx ?q (qhead ?q)) ?q = Inr (take m xs, ?p, q1)" "cut_front ?p q1 = Inr q2"
    "tq_addrs TxID q2 (drop m as)" "dat q2 = dat ?q" "cut_front ?p q2 = Inr q2"
    using pack_cut [OF as(1), of m] assms(8) as(2) by auto
  have rep: "tq_rep TxID q2 (drop m xs)" using q(3,4) unfolding tq_rep_def by (metis as(2) drop_map)
  have w: "pqueue_of (dk_pool k0) = q2 \<Longrightarrow> \<exists>k'. wait_done ?p n k0 = Inr k' \<and> pqueue_of (dk_pool k') = q2
      \<and> dk_alg k' = dk_alg k0 \<and> dk_blocks k' = dk_blocks k0 \<and> dk_cache k' = dk_cache k0" for n k0
  proof (induction n arbitrary: k0)
    case (Suc n)
    let ?k1 = "k0\<lparr>dk_pool := (dk_pool k0)\<lparr>pqueue_of := q2\<rparr>, dk_count := dk_count k0 - packNumber (dk_pool k0)\<rparr>"
    obtain k' where "wait_done ?p n ?k1 = Inr k'" "pqueue_of (dk_pool k') = q2" "dk_alg k' = dk_alg ?k1"
      "dk_blocks k' = dk_blocks ?k1" "dk_cache k' = dk_cache ?k1" using Suc.IH [of ?k1] by auto
    then show ?case using Suc.prems q(5) by simp
  qed simp
  let ?k2 = "(k\<lparr>dk_alg := s, dk_SubUser := users\<rparr>)\<lparr>dk_pool := (dk_pool k)\<lparr>pqueue_of := q1\<rparr>, dk_alg := s'\<rparr>"
  let ?k3 = "?k2\<lparr>dk_spins := r, dk_pool := (dk_pool k)\<lparr>pqueue_of := q2\<rparr>, dk_count := dk_count k - int m\<rparr>"
  obtain k' where k': "wait_done ?p n ?k3 = Inr k'" "pqueue_of (dk_pool k') = q2" "dk_alg k' = s'"
    "dk_blocks k' = dk_blocks k" "dk_cache k' = dk_cache k" using w [of ?k3 n] by auto
  have "lost_block ?p ?k2 = return_run k'"
    using assms(7,11) q(2) k'(1) by (simp add: lost_block_def)
  then have "data_round E k = return_run k'"
    using assms(1-5,7,9,10) q(1) by (simp add: data_round_def Let_def)
  then show ?thesis using k' rep by (simp add: pool_rep_def)
qed

text \<open>A node whose peers agree on another node's block, for the witness.\<close>

lemma toy_votes_any:
  assumes "a_chain s = toy_chain" and "\<And>key. InVotes (a_peer s) key = [toy_vote CHR ''x'', toy_vote CHR ''y'']"
  shows "unanimous toy_env 3 ''hash'' s step n 2"
proof -
  have "supports toy_env s ''hash'' n v = supports toy_env (toy_state\<lparr>a_peer := toy_peer\<rparr>) ''hash'' n v" for v
    using SortitionSeed_chain [of s "toy_state\<lparr>a_peer := toy_peer\<rparr>" toy_env "v_Round v"] assms(1)
    by (simp add: supports_def valid_vote_def toy_state_def)
  moreover have "filed 3 step s = filed 3 step (toy_state\<lparr>a_peer := toy_peer\<rparr>)"
    using assms(2) by (simp add: filed_def toy_state_def toy_peer_def)
  ultimately show ?thesis using toy_unanimous [of step n] by (simp add: unanimous_def)
qed

lemma toy_other_block:
  assumes "a_chain s = toy_chain" and "a_peer s = toy_peer" and "a_arrive s = []" and "0 < users"
  shows "\<exists>s'. ProcessMain toy_env [toy_tx] 3 vrf pf users s = return_run (toy_block 3 ''hash'' ''c'', s')"
proof -
  obtain b where b: "proposeBlock toy_env [toy_tx] s = return_run b" "Round b = 3" "length (CurrentBlockHash b) = 32"
    using toy_propose [OF assms(1)] by blast
  define pr where "pr = \<lparr>p_Round = Round b, p_Hash = CurrentBlockHash b,
    p_Prior = maxPriority (sha256 (e_hashes toy_env)) vrf users, p_VRF = vrf, p_Proof = pf, p_Pubkey = Pubkey toy_env\<rparr>"
  define s2 where "s2 = gossip BlockProposal (encode (e_proposal toy_env) pr) (gossip BLOCK (encode (e_block toy_env) b)
    (s\<lparr>a_peer := AddBlock b (AddProposal 3 pr (a_peer s))\<rparr>))"
  have peer: "a_peer s2 = AddBlock b (AddProposal 3 pr toy_peer)" "a_chain s2 = toy_chain" "a_arrive s2 = []"
    using assms by (simp_all add: s2_def gossip_def)
  have mx: "getMaxProposal 3 (a_peer s2) = Inr pr"
    by (simp add: peer getMaxProposal_def AddBlock_def AddProposal_def toy_peer_def NewPeer_def better_def)
  have gb: "getBlock 3 (p_Hash pr) (a_peer s2) = Some b"
    using b(2) by (simp add: peer getBlock_def AddBlock_def AddProposal_def toy_peer_def pr_def)
  have "poll_block toy_env 3 (e_ticks toy_env) s2 = return_run (b, s2)"
    by (simp add: toy_env_def sleep_idle [OF peer(3)] mx gb flip: One_nat_def)
       (simp add: sleep_idle [OF peer(3)] mx gb)
  then have bp: "blockProposal toy_env [toy_tx] 3 vrf pf users s = return_run (b, s2)"
    using b(1) assms(4) sleep_idle [OF peer(3)]
    by (simp add: blockProposal_def Let_def pr_def [symmetric] s2_def [symmetric])
  have lb: "lastBlock toy_env s2 = return_run (toy_block 2 ''c'' ''b'')"
    using toy_open_tail [of NewPeer] by (simp add: open_tail_def lastBlock_def peer toy_state_def)
  have sd: "SortitionSeed toy_env s2 3 = return_run (sha256 toy_crypto [])"
    using SortitionSeed_chain [of s2 "toy_state\<lparr>a_peer := NewPeer\<rparr>" toy_env 3] toy_seed [of NewPeer] peer(2)
    by (simp add: toy_state_def)
  have l: "length (emptyHash (sha256 (e_hashes toy_env)) r h) = 32" for r h
    by (simp add: emptyHash_def toy_env_def toy_crypto_def)
  have ne: "''hash'' \<noteq> emptyHash (sha256 (e_hashes toy_env)) r h" for r h
  proof
    assume eq: "''hash'' = emptyHash (sha256 (e_hashes toy_env)) r h"
    from l [of r h] show False unfolding eq [symmetric] by simp
  qed
  have u: "unanimous toy_env 3 ''hash'' s2 step n 2" for step n
    by (rule toy_votes_any) (simp_all add: peer AddBlock_def AddProposal_def toy_peer_def)
  have "CurrentBlockHash b \<noteq> ''hash''" using b(3) by auto
  then have blk: "getBlock 3 ''hash'' (a_peer s2) = Some (toy_block 3 ''hash'' ''c'')"
    using b(2) by (simp add: peer getBlock_def AddBlock_def AddProposal_def toy_peer_def)
  obtain s' where "BA toy_env 3 b s2 = return_run ((FinalConsensus, (toy_block 3 ''hash'' ''c'')\<lparr>BType := FinalConsensus\<rparr>), s')"
    using BA_unanimous [OF sd peer(3) lb _ ne ne _ u blk, of b] u by auto
  moreover have "(toy_block 3 ''hash'' ''c'')\<lparr>BType := FinalConsensus\<rparr> = toy_block 3 ''hash'' ''c''"
    by (simp add: toy_block_def NewBlock_def FinalConsensus_def)
  moreover have "alg_Round toy_env s = return_run 2"
    using toy_open_tail [of NewPeer] assms(1) by (simp add: alg_Round_def lastBlock_def open_tail_def toy_state_def)
  ultimately show ?thesis using bp by (simp add: ProcessMain_def)
qed

theorem lost_round_drops_batch_witness:
  "\<exists>k k'. data_round toy_env k = return_run k' \<and> pool_rep TxID (dk_pool k) [toy_tx] \<and> pool_rep TxID (dk_pool k') []"
proof -
  obtain q where q: "queue_in TimeStamp TxID toy_tx (queue_init zero_tx 1000000) = Some q"
    "tq_rep TxID q (back_insert TimeStamp toy_tx [])"
    using tx_queue.enq_insert [OF tq_rep_init, where x = toy_tx and ident = TxID and ts = TimeStamp] by auto
  have bi: "back_insert TimeStamp toy_tx [] = [toy_tx]"
    by (simp add: back_insert_def later_def not_later_def)
  define k where "k = \<lparr>dk_pool = \<lparr>pqueue_of = q, packNumber = int 1\<rparr>, dk_alg = toy_state\<lparr>a_peer := toy_peer\<rparr>,
    dk_cache = \<lparr>lru3Query = lru_init, tableInfo = Map.empty\<rparr>, dk_tables = Map.empty, dk_blocks = bq_Init NewBlock,
    dk_count = 1, dk_spins = [Some (Suc 0)], dk_SubUser = 0\<rparr>"
  have f: "pool_rep TxID (dk_pool k) [toy_tx]" "packNumber (dk_pool k) = int 1" "1 \<le> length [toy_tx]"
    "dk_alg k = toy_state\<lparr>a_peer := toy_peer\<rparr>" "dk_spins k = Some (Suc 0) # []"
    using q(2) by (simp_all add: k_def pool_rep_def bi)
  let ?s = "(toy_state\<lparr>a_peer := toy_peer\<rparr>)\<lparr>a_drawn := 1\<rparr>"
  have rnd: "alg_Round toy_env (dk_alg k) = return_run 2"
    using toy_open_tail [of toy_peer] by (simp add: f(4) alg_Round_def lastBlock_def open_tail_def)
  have seed: "SortitionSeed toy_env (dk_alg k) (2 + 1) = return_run (sha256 toy_crypto [])"
    using toy_seed [of toy_peer] by (simp add: f(4))
  have own: "TokenOwn toy_env (dk_alg k) = (50, ?s)"
    by (simp add: f(4) TokenOwn_def alg_weight_def toy_env_def toy_state_def)
  obtain pf where st: "Sortition toy_env (sha256 toy_crypto []) (Role Proposer (2 + 1) PROPOSE) ExpectedBlockProposers 50
      = ([], pf, subUsers (\<lambda>_. 0) ExpectedBlockProposers 50 [])"
    by (auto simp: Sortition_def Evaluate_def toy_env_def toy_keys_def)
  have users: "0 < subUsers (\<lambda>_. 0) ExpectedBlockProposers 50 []"
    using toy_sub_users [of ExpectedBlockProposers] by simp
  obtain s' where pm: "ProcessMain toy_env (take 1 [toy_tx]) (2 + 1) [] pf
      (subUsers (\<lambda>_. 0) ExpectedBlockProposers 50 []) ?s = return_run (toy_block 3 ''hash'' ''c'', s')"
    using toy_other_block [of ?s "subUsers (\<lambda>_. 0) ExpectedBlockProposers 50 []" "[]" pf] users
    by (auto simp: toy_state_def)
  have "Author (toy_block 3 ''hash'' ''c'') \<noteq> BytesToAddress (Pubkey toy_env)"
    by (simp add: toy_block_def NewBlock_def Pubkey_def toy_env_def toy_keys_def BytesToAddress_def Let_def
        numeral_eq_Suc)
  from lost_round_drops_batch [OF rnd seed own st users f(1,2,3) pm this f(5)] f(1) show ?thesis by auto
qed

section \<open>Batch sizes that are not positive\<close>

lemma count_ready_grows:
  fixes q :: "'a pqueue"
  assumes "count_ready ts stand q cp n = Some (Inr m)"
  shows "n \<le> m"
proof -
  let ?P = "\<lambda>(ts :: 'a \<Rightarrow> int) (stand :: int) (q :: 'a pqueue) (cp :: ptr) (n :: int) (r :: int go). \<forall>m. r = Inr m \<longrightarrow> n \<le> m"
  have "?P ts stand q cp n (Inr m)"
  proof (rule count_ready.raw_induct [where P = ?P, OF _ assms])
    fix f ts stand q cp n r
    assume IH: "\<And>ts stand q cp n r. f ts stand q cp n = Some r \<Longrightarrow> ?P ts stand q cp n r"
      and eq: "(case cp of
        None \<Rightarrow> Some (Inl NilDeref)
      | Some a \<Rightarrow>
          (case nx q a of
             None \<Rightarrow> Some (Inr n)
           | Some b \<Rightarrow> if ts (dat q a) < stand then f ts stand q (Some b) (n + 1) else Some (Inr n))) = Some r"
    show "?P ts stand q cp n r"
      using eq IH [of ts stand q _ "n + 1" r] by (force split: option.splits if_splits)
  qed
  then show ?thesis by simp
qed

lemma wait_done_keeps:
  "wait_done p n k = Inr k' \<Longrightarrow> packNumber (dk_pool k') = packNumber (dk_pool k)
     \<and> dk_count k' = dk_count k - int n * packNumber (dk_pool k)"
proof (induction p n k rule: wait_done.induct)
  case (2 p n k)
  then show ?case by (auto simp: bind_go_Inr_iff algebra_simps)
qed simp

lemma data_round_keeps:
  assumes "data_round E k = return_run k'"
  shows "\<exists>n. packNumber (dk_pool k') = packNumber (dk_pool k)
    \<and> dk_count k' = dk_count k - int n * packNumber (dk_pool k)"
proof -
  have own: "\<exists>n. packNumber (dk_pool k') = packNumber (dk_pool k) \<and> dk_count k' = dk_count k - int n * packNumber (dk_pool k)"
    if "own_block E b p k = Inr k'" for b p and k :: "'a data_keeper"
    by (rule exI [of _ 1]) (use that in \<open>auto simp: own_block_def bind_go_Inr_iff Let_def\<close>)
  have lost: "\<exists>n. packNumber (dk_pool k') = packNumber (dk_pool k) \<and> dk_count k' = dk_count k - int n * packNumber (dk_pool k)"
    if "lost_block p k = return_run k'" for p and k :: "'a data_keeper"
    using that wait_done_keeps by (fastforce simp: lost_block_def split: list.splits option.splits)
  obtain last where last: "alg_Round E (dk_alg k) = return_run last"
    using assms by (auto simp: data_round_def bind_run_return_iff)
  obtain seed where seed: "SortitionSeed E (dk_alg k) (last + 1) = return_run seed"
    using assms by (auto simp: data_round_def last Let_def bind_run_return_iff)
  obtain weight s where tok: "TokenOwn E (dk_alg k) = (weight, s)" by (cases "TokenOwn E (dk_alg k)")
  obtain vrf pf users where srt: "Sortition E seed (Role Proposer (last + 1) PROPOSE) ExpectedBlockProposers weight = (vrf, pf, users)"
    by (cases "Sortition E seed (Role Proposer (last + 1) PROPOSE) ExpectedBlockProposers weight") auto
  note run = assms [unfolded data_round_def last bind_run_simps Let_def seed tok srt prod.case]
  show ?thesis
  proof (cases "0 < users")
    case True
    then show ?thesis using run
      by (auto simp: bind_run_return_iff lift_go_def split: if_splits dest!: own lost)
  next
    case False
    then show ?thesis using run by (intro exI [of _ 0]) auto
  qed
qed

text \<open>
  With a batch size that is not positive the packing loop has no end: no round brings the count
  below the size. The run of the book-keeper, which holds the lock of the pool, does not return.
\<close>

lemma data_rounds_stuck:
  fixes k :: "'db data_keeper"
  assumes "packNumber (dk_pool k) \<le> 0" and "packNumber (dk_pool k) \<le> dk_count k"
  shows "data_rounds E k \<noteq> return_run k'"
proof
  let ?P = "\<lambda>(E :: 'db alg_env) (k :: 'db data_keeper) (r :: 'db data_keeper go). packNumber (dk_pool k) \<le> 0 \<longrightarrow> packNumber (dk_pool k) \<le> dk_count k \<longrightarrow> (\<exists>e. r = Inl e)"
  assume run: "data_rounds E k = return_run k'"
  have "?P E k (Inr k')"
  proof (rule data_rounds.raw_induct [where P = ?P, OF _ run])
    fix f E k r
    assume IH: "\<And>E k r. f E k = Some r \<Longrightarrow> ?P E k r"
      and eq: "(if packNumber (dk_pool k) \<le> dk_count k
        then (case data_round E k of None \<Rightarrow> None | Some (Inl e) \<Rightarrow> Some (Inl e) | Some (Inr k') \<Rightarrow> f E k')
        else Some (Inr k)) = Some r"
    show "?P E k r"
    proof (intro impI)
      assume le: "packNumber (dk_pool k) \<le> 0" "packNumber (dk_pool k) \<le> dk_count k"
      show "\<exists>e. r = Inl e"
      proof (cases "\<exists>k1. data_round E k = return_run k1")
        case True
        then obtain k1 where k1: "data_round E k = return_run k1" by blast
        obtain n where "packNumber (dk_pool k1) = packNumber (dk_pool k)"
          "dk_count k1 = dk_count k - int n * packNumber (dk_pool k)" using data_round_keeps [OF k1] by blast
        moreover have "int n * packNumber (dk_pool k) \<le> 0" using le(1) by (simp add: mult_nonneg_nonpos)
        moreover have "f E k1 = Some r" using eq k1 le(2) by simp
        ultimately show ?thesis using IH [of E k1 r] le by auto
      next
        case False
        then show ?thesis using eq le(2) by (auto split: option.splits sum.splits)
      qed
    qed
  qed
  then show False using assms by simp
qed

lemma data_bookKeeperRun_stuck:
  assumes "packNumber (dk_pool k) \<le> 0"
  shows "data_bookKeeperRun E now k \<noteq> return_run k'"
proof
  assume "data_bookKeeperRun E now k = return_run k'"
  then obtain n where n: "count_ready TimeStamp (now - 2) (pqueue_of (dk_pool k))
      (nx (pqueue_of (dk_pool k)) (qhead (pqueue_of (dk_pool k)))) 0 = Some (Inr n)"
    "data_rounds E (k\<lparr>dk_count := n\<rparr>) = return_run k'"
    by (auto simp: data_bookKeeperRun_def Let_def split: option.splits sum.splits)
  show False using data_rounds_stuck [of "k\<lparr>dk_count := n\<rparr>" E k'] count_ready_grows [OF n(1)] n(2) assms by simp
qed

end
