(* ===== verification/Grpc_Convert.thy ===== *)
theory Grpc_Convert
  imports Table_Chain
begin

text \<open>
  \<open>GRPC/util.go\<close>, first part: the messages that carry blocks and transactions between nodes
  (the fields of the generated types in \<open>Proto/blockchain\<close>) and the conversions to and from the
  types of the two chains. Fields of messages start with \<open>g\<close>, of table messages with \<open>gt\<close>.
\<close>

section \<open>Messages\<close>

record data_tx_msg =
  gTxID :: bytes
  gDataID :: bytes
  gTable :: string
  gKey :: string
  gValue :: string
  gPossessor :: string
  gTimeStamp :: int
  gPublicKey :: bytes
  gSignature :: bytes

record data_block_msg =
  gID :: int
  gCurrentBlockHash :: bytes
  gPreviousBlockHash :: bytes
  gMerKelRoot :: bytes
  gTxInfo :: "data_tx_msg list"
  gTimeTamp :: uint64

record table_tx_msg =
  gtTxID :: bytes
  gtTable :: string
  gtPermissionTables :: "string list"
  gtPossessor :: string
  gtTimeStamp :: int
  gtPublicKey :: bytes
  gtSignature :: bytes

record table_block_msg =
  gtID :: int
  gtCurrentBlockHash :: bytes
  gtPreviousBlockHash :: bytes
  gtMerKelRoot :: bytes
  gtTxInfo :: "table_tx_msg list"
  gtTimeTamp :: uint64

section \<open>Conversions\<close>

definition data_tx_to_msg :: "transaction \<Rightarrow> data_tx_msg" where
  "data_tx_to_msg tx = \<lparr>gTxID = TxID tx, gDataID = DataID tx, gTable = Table tx, gKey = Key tx,
     gValue = Value tx, gPossessor = Possessor tx, gTimeStamp = TimeStamp tx,
     gPublicKey = PublicKey tx, gSignature = Signature tx\<rparr>"

definition GrpcDataTxToDataTx :: "data_tx_msg \<Rightarrow> transaction" where
  "GrpcDataTxToDataTx m = \<lparr>TxID = gTxID m, DataID = gDataID m, Table = gTable m, Key = gKey m,
     Value = gValue m, Possessor = gPossessor m, TimeStamp = gTimeStamp m,
     PublicKey = gPublicKey m, Signature = gSignature m\<rparr>"

definition table_tx_to_msg :: "table_tx \<Rightarrow> table_tx_msg" where
  "table_tx_to_msg tx = \<lparr>gtTxID = tTxID tx, gtTable = tTable tx, gtPermissionTables = PermissionTable tx,
     gtPossessor = tPossessor tx, gtTimeStamp = tTimeStamp tx, gtPublicKey = tPublicKey tx,
     gtSignature = tSignature tx\<rparr>"

definition GrpcTableTxToTableTx :: "table_tx_msg \<Rightarrow> table_tx" where
  "GrpcTableTxToTableTx m = \<lparr>tTxID = gtTxID m, tTable = gtTable m, PermissionTable = gtPermissionTables m,
     tPossessor = gtPossessor m, tTimeStamp = gtTimeStamp m, tPublicKey = gtPublicKey m,
     tSignature = gtSignature m\<rparr>"

text \<open>The round is an unsigned and the message's number a signed 64-bit integer.\<close>

definition BlockToGrpcDataBlock :: "block \<Rightarrow> data_block_msg" where
  "BlockToGrpcDataBlock b = \<lparr>gID = sint (Round b), gCurrentBlockHash = CurrentBlockHash b,
     gPreviousBlockHash = PreviousBlockHash b, gMerKelRoot = MerKelRoot b,
     gTxInfo = map data_tx_to_msg (Transactions b), gTimeTamp = BTimeStamp b\<rparr>"

definition GrpcDataBlockToBlock :: "data_block_msg \<Rightarrow> block" where
  "GrpcDataBlockToBlock m = \<lparr>Round = word_of_int (gID m), CurrentBlockHash = gCurrentBlockHash m,
     PreviousBlockHash = gPreviousBlockHash m, MerKelRoot = gMerKelRoot m,
     Transactions = map GrpcDataTxToDataTx (gTxInfo m), BTimeStamp = gTimeTamp m,
     Author = replicate AddressLength zero_byte, Seed = [], Proof = [], BType = 0, BSignature = []\<rparr>"

definition BlockToGrpcTableBlock :: "table_block \<Rightarrow> table_block_msg" where
  "BlockToGrpcTableBlock b = \<lparr>gtID = tID b, gtCurrentBlockHash = tCurrentBlockHash b,
     gtPreviousBlockHash = tPreviousBlockHash b, gtMerKelRoot = tMerKelRoot b,
     gtTxInfo = map table_tx_to_msg (tTransactions b), gtTimeTamp = tBTimeStamp b\<rparr>"

definition GrpcTableBlockToBlock :: "table_block_msg \<Rightarrow> table_block" where
  "GrpcTableBlockToBlock m = \<lparr>tID = gtID m, tCurrentBlockHash = gtCurrentBlockHash m,
     tPreviousBlockHash = gtPreviousBlockHash m, tMerKelRoot = gtMerKelRoot m,
     tTransactions = map GrpcTableTxToTableTx (gtTxInfo m), tBTimeStamp = gtTimeTamp m\<rparr>"

section \<open>Round trips\<close>

lemma data_tx_roundtrip [simp]:
  "GrpcDataTxToDataTx (data_tx_to_msg tx) = tx" "data_tx_to_msg (GrpcDataTxToDataTx m) = m"
  by (simp_all add: GrpcDataTxToDataTx_def data_tx_to_msg_def)

lemma table_tx_roundtrip [simp]:
  "GrpcTableTxToTableTx (table_tx_to_msg tx) = tx" "table_tx_to_msg (GrpcTableTxToTableTx m) = m"
  by (simp_all add: GrpcTableTxToTableTx_def table_tx_to_msg_def)

lemma table_block_roundtrip [simp]:
  "GrpcTableBlockToBlock (BlockToGrpcTableBlock b) = b" "BlockToGrpcTableBlock (GrpcTableBlockToBlock m) = m"
  by (simp_all add: GrpcTableBlockToBlock_def BlockToGrpcTableBlock_def comp_def)

text \<open>What is left of a data block after it was sent.\<close>

definition stripped :: "block \<Rightarrow> block" where
  "stripped b = b\<lparr>Author := replicate AddressLength zero_byte, Seed := [], Proof := [], BType := 0, BSignature := []\<rparr>"

lemma stripped_fields [simp]:
  "Round (stripped b) = Round b" "CurrentBlockHash (stripped b) = CurrentBlockHash b"
  "PreviousBlockHash (stripped b) = PreviousBlockHash b" "MerKelRoot (stripped b) = MerKelRoot b"
  "Transactions (stripped b) = Transactions b" "BTimeStamp (stripped b) = BTimeStamp b"
  "Seed (stripped b) = []" "stripped (stripped b) = stripped b"
  by (simp_all add: stripped_def)

lemma data_block_stripped [simp]: "GrpcDataBlockToBlock (BlockToGrpcDataBlock b) = stripped b"
  by (simp add: GrpcDataBlockToBlock_def BlockToGrpcDataBlock_def stripped_def comp_def)

text \<open>
  Sending a data block: whatever its round, a block arrives with the same round, hashes, Merkle
  root, transactions and time, but without its author, seed, proof, type and signature; it arrives
  unchanged exactly if these had their zero values. The message itself survives the way back and
  forth exactly if its number is a signed 64-bit integer.
\<close>

theorem data_block_transfer:
  "GrpcDataBlockToBlock (BlockToGrpcDataBlock b) = stripped b
   \<and> (GrpcDataBlockToBlock (BlockToGrpcDataBlock b) = b \<longleftrightarrow>
        Author b = replicate AddressLength zero_byte \<and> Seed b = [] \<and> Proof b = [] \<and> BType b = 0 \<and> BSignature b = [])
   \<and> (BlockToGrpcDataBlock (GrpcDataBlockToBlock m) = m \<longleftrightarrow> - (2 ^ 63) \<le> gID m \<and> gID m < 2 ^ 63)"
proof -
  have s: "sint (word_of_int i :: uint64) = i \<longleftrightarrow> - (2 ^ 63) \<le> i \<and> i < 2 ^ 63" for i
  proof
    assume "sint (word_of_int i :: uint64) = i"
    then show "- (2 ^ 63) \<le> i \<and> i < 2 ^ 63"
      using sint_ge [of "word_of_int i :: uint64"] sint_lt [of "word_of_int i :: uint64"] by simp
  next
    assume "- (2 ^ 63) \<le> i \<and> i < 2 ^ 63"
    then show "sint (word_of_int i :: uint64) = i"
      by (simp add: sint_sbintrunc' signed_take_bit_int_eq_self)
  qed
  have "stripped b = b \<longleftrightarrow>
      Author b = replicate AddressLength zero_byte \<and> Seed b = [] \<and> Proof b = [] \<and> BType b = 0 \<and> BSignature b = []"
    by (cases b) (auto simp: stripped_def)
  moreover have "BlockToGrpcDataBlock (GrpcDataBlockToBlock m) = m \<longleftrightarrow> - (2 ^ 63) \<le> gID m \<and> gID m < 2 ^ 63"
    unfolding s [symmetric] by (cases m) (simp add: BlockToGrpcDataBlock_def GrpcDataBlockToBlock_def comp_def)
  ultimately show ?thesis by simp
qed

end
