(* ===== verification/Grpc_Service.thy ===== *)
theory Grpc_Service
  imports Grpc_Convert Pools
begin

text \<open>
  \<open>GRPC/service.go\<close>: what a node does when another one calls it. The handlers for blocks and
  transactions work on the node's chains, pool and cache; those for the cluster are in
  \<open>Cluster_Files\<close>, and consensus messages go to \<open>Handle\<close> of \<open>Consensus\<close>.
  The texts of the replies are constructors of \<open>reply_text\<close>.
\<close>

section \<open>The node\<close>

text \<open>
  The data chain is the one of the consensus state, and the logs of the tables are in the file of
  the table chain. \<open>nd_SubUser\<close> and \<open>nd_IsDone\<close> are the two global variables of \<open>util\<close>.
\<close>

record 'db node_state =
  nd_alg :: "'db alg_state"
  nd_tables :: "'db table_chain"
  nd_pool :: tx_pool
  nd_cache :: cache
  nd_SubUser :: int
  nd_IsDone :: bool

datatype reply_text = BlockVerified | BlockRejected | TxReceived | TxRejected | PoolRefused

record verify_info =
  Info :: reply_text
  Status :: bool

section \<open>Handlers for blocks\<close>

definition DistributeDataBlock :: "'db alg_env \<Rightarrow> data_block_msg \<Rightarrow> 'db node_state \<Rightarrow>
    (verify_info \<times> 'db node_state) go" where
  "DistributeDataBlock E req st =
     (let blk = GrpcDataBlockToBlock req in
      bind_go (CheckDataBlock (e_hashes E) blk) (\<lambda>flag.
      let info = (if flag then \<lparr>Info = BlockVerified, Status = True\<rparr> else \<lparr>Info = BlockRejected, Status = False\<rparr>) in
      bind_go (AddBlockToChain (e_bolt E) (e_block E) blk (a_chain (nd_alg st))) (\<lambda>ch.
      bind_go (if nd_SubUser st \<le> 0 then UpdateByData blk (nd_pool st) else Inr (nd_pool st)) (\<lambda>pool.
      bind_go (UpdateByDataBlock (e_bolt E) blk (nd_cache st, Db (nd_tables st))) (\<lambda>(c, db).
        Inr (info, st\<lparr>nd_alg := (nd_alg st)\<lparr>a_chain := ch\<rparr>, nd_pool := pool, nd_cache := c,
                      nd_tables := (nd_tables st)\<lparr>Db := db\<rparr>, nd_IsDone := True\<rparr>))))))"

definition DistributeTableBlock :: "'db alg_env \<Rightarrow> table_block codec \<Rightarrow> table_block_msg \<Rightarrow> 'db node_state \<Rightarrow>
    (verify_info \<times> 'db node_state) go" where
  "DistributeTableBlock E tcd req st =
     (let blk = GrpcTableBlockToBlock req in
      bind_go (CheckTableBlock (e_hashes E) blk) (\<lambda>flag.
      let info = (if flag then \<lparr>Info = BlockVerified, Status = True\<rparr> else \<lparr>Info = BlockRejected, Status = False\<rparr>) in
      bind_go (table_AddBlockToChain (e_bolt E) tcd blk (nd_tables st)) (\<lambda>tch.
      bind_go (UpdateByTable blk (nd_pool st)) (\<lambda>pool.
      bind_go (UpdateByTableBlock (e_bolt E) blk (nd_cache st, Db tch)) (\<lambda>(c, db).
        Inr (info, st\<lparr>nd_tables := tch\<lparr>Db := db\<rparr>, nd_pool := pool, nd_cache := c\<rparr>))))))"

text \<open>
  The loop of the two synchronization handlers: from the tail back, convert every block until the
  one with the requested hash.
\<close>

partial_function (option) sync_loop :: "(iterator \<Rightarrow> ('b \<times> iterator) go) \<Rightarrow> ('b \<Rightarrow> bytes) \<Rightarrow> ('b \<Rightarrow> 'm) \<Rightarrow>
    bytes \<Rightarrow> iterator \<Rightarrow> 'm list \<Rightarrow> 'm list run" where
  "sync_loop next hash conv h it out =
     (case next it of
        Inl p \<Rightarrow> Some (Inl p)
      | Inr (b, it') \<Rightarrow> if hash b \<noteq> h then sync_loop next hash conv h it' (out @ [conv b]) else Some (Inr out))"

definition serve_DataBlocks :: "'db alg_env \<Rightarrow> bytes \<Rightarrow> 'db node_state \<Rightarrow> data_block_msg list run" where
  "serve_DataBlocks E h st =
     (let ch = a_chain (nd_alg st) in
      sync_loop (Next (e_bolt E) (e_block E) (Db ch)) CurrentBlockHash BlockToGrpcDataBlock h (CreateIterator ch) [])"

definition serve_TableBlocks :: "'db alg_env \<Rightarrow> table_block codec \<Rightarrow> bytes \<Rightarrow> 'db node_state \<Rightarrow>
    table_block_msg list run" where
  "serve_TableBlocks E tcd h st =
     (let ch = nd_tables st in
      sync_loop (table_Next (e_bolt E) tcd (Db ch)) tCurrentBlockHash BlockToGrpcTableBlock h (table_CreateIterator ch) [])"

section \<open>Handlers for transactions and consensus messages\<close>

text \<open>The boolean tells whether the call returns an error beside its reply.\<close>

definition DataTradingPool :: "crypto \<Rightarrow> data_tx_msg \<Rightarrow> tx_pool \<Rightarrow> ((verify_info \<times> bool) \<times> tx_pool) go" where
  "DataTradingPool cr req pool =
     (let tx = GrpcDataTxToDataTx req in
      if \<not> VerifyTransaction cr tx then Inr ((\<lparr>Info = TxRejected, Status = False\<rparr>, True), pool)
      else bind_go (TxDataIN tx pool) (\<lambda>(full, pool').
             if full then Inr ((\<lparr>Info = PoolRefused, Status = False\<rparr>, True), pool')
             else Inr ((\<lparr>Info = TxReceived, Status = True\<rparr>, False), pool')))"

definition TableTradingPool :: "crypto \<Rightarrow> table_tx_msg \<Rightarrow> tx_pool \<Rightarrow> ((verify_info \<times> bool) \<times> tx_pool) go" where
  "TableTradingPool cr req pool =
     (let tx = GrpcTableTxToTableTx req in
      if \<not> table_VerifyTransaction cr tx then Inr ((\<lparr>Info = TxRejected, Status = False\<rparr>, True), pool)
      else bind_go (TxTableIN tx pool) (\<lambda>(full, pool').
             if full then Inr ((\<lparr>Info = PoolRefused, Status = False\<rparr>, True), pool')
             else Inr ((\<lparr>Info = TxReceived, Status = True\<rparr>, False), pool')))"

definition service_Handle :: "'db alg_env \<Rightarrow> int \<Rightarrow> bytes \<Rightarrow> 'db node_state \<Rightarrow>
    (alg_error option \<times> 'db node_state) run" where
  "service_Handle E typ data st =
     bind_run (Handle E typ data (nd_alg st)) (\<lambda>(err, s). return_run (err, st\<lparr>nd_alg := s\<rparr>))"

section \<open>Adding a received block\<close>

text \<open>
  What the node must have for the handler to come through: an open chain that the block continues,
  the block's transactions in the pool unless the node is itself a proposer, and the tables.
\<close>

definition can_receive :: "'db alg_env \<Rightarrow> block \<Rightarrow> 'db node_state \<Rightarrow> block list \<Rightarrow> transaction list \<Rightarrow>
    string set \<Rightarrow> (string \<Rightarrow> bytes list) \<Rightarrow> bool" where
  "can_receive E b st bs xs M hs \<longleftrightarrow>
     data_rep (e_bolt E) (e_block E) (a_chain (nd_alg st)) bs
     \<and> data_ok (e_bolt E) (e_block E) (a_chain (nd_alg st)) (stripped b)
     \<and> pool_rep TxID (txPoolData (nd_pool st)) xs
     \<and> (nd_SubUser st \<le> 0 \<longrightarrow> distinct (map TxID (Transactions b)) \<and> TxID ` set (Transactions b) \<subseteq> TxID ` set xs)
     \<and> (\<forall>m \<in> M. log_rep (e_bolt E) (Db (nd_tables st)) m (hs m) \<and> Suc (length (hs m)) < 2 ^ 64 - 1)
     \<and> Table ` set (Transactions b) \<subseteq> M
     \<and> CurrentBlockHash b \<noteq> ''root'' \<and> length (CurrentBlockHash b) \<le> 2147483646"

definition received :: "'db alg_env \<Rightarrow> block \<Rightarrow> 'db node_state \<Rightarrow> 'db node_state \<Rightarrow> block list \<Rightarrow> transaction list \<Rightarrow>
    string set \<Rightarrow> (string \<Rightarrow> bytes list) \<Rightarrow> bool" where
  "received E b st st' bs xs M hs \<longleftrightarrow>
     data_rep (e_bolt E) (e_block E) (a_chain (nd_alg st')) (stripped b # bs)
     \<and> pool_rep TxID (txPoolData (nd_pool st'))
         (if nd_SubUser st \<le> 0 then filter (\<lambda>x. TxID x \<notin> TxID ` set (Transactions b)) xs else xs)
     \<and> (\<forall>m \<in> M. log_rep (e_bolt E) (Db (nd_tables st')) m
         (if m \<in> Table ` set (Transactions b) then log_append (hs m) (CurrentBlockHash b) else hs m))
     \<and> lru3Query (nd_cache st') = updateDataCache (stripped b) (lru3Query (nd_cache st))
     \<and> tableInfo (nd_cache st') = tableInfo (nd_cache st)
     \<and> nd_IsDone st'"

text \<open>The handler comes through whatever block it is, once the chain has taken it.\<close>

lemma DistributeDataBlock_runs:
  assumes ch: "AddBlockToChain (e_bolt E) (e_block E) (stripped b) (a_chain (nd_alg st)) = Inr ch"
    and pool: "pool_rep TxID (txPoolData (nd_pool st)) xs"
      "nd_SubUser st \<le> 0 \<longrightarrow> distinct (map TxID (Transactions b)) \<and> TxID ` set (Transactions b) \<subseteq> TxID ` set xs"
    and logs: "\<forall>m \<in> M. log_rep (e_bolt E) (Db (nd_tables st)) m (hs m) \<and> Suc (length (hs m)) < 2 ^ 64 - 1"
      "Table ` set (Transactions b) \<subseteq> M" "CurrentBlockHash b \<noteq> ''root''" "length (CurrentBlockHash b) \<le> 2147483646"
    and ok: "CheckDataBlock (e_hashes E) (stripped b) = Inr ok"
  shows "\<exists>st'. DistributeDataBlock E (BlockToGrpcDataBlock b) st
      = Inr (if ok then \<lparr>Info = BlockVerified, Status = True\<rparr> else \<lparr>Info = BlockRejected, Status = False\<rparr>, st')
    \<and> a_chain (nd_alg st') = ch
    \<and> pool_rep TxID (txPoolData (nd_pool st'))
         (if nd_SubUser st \<le> 0 then filter (\<lambda>x. TxID x \<notin> TxID ` set (Transactions b)) xs else xs)
    \<and> (\<forall>m \<in> M. log_rep (e_bolt E) (Db (nd_tables st')) m
         (if m \<in> Table ` set (Transactions b) then log_append (hs m) (CurrentBlockHash b) else hs m))
    \<and> lru3Query (nd_cache st') = updateDataCache (stripped b) (lru3Query (nd_cache st))
    \<and> tableInfo (nd_cache st') = tableInfo (nd_cache st) \<and> nd_IsDone st'"
proof -
  let ?ys = "if nd_SubUser st \<le> 0 then filter (\<lambda>x. TxID x \<notin> TxID ` set (Transactions b)) xs else xs"
  have "\<exists>pool. (if nd_SubUser st \<le> 0 then UpdateByData (stripped b) (nd_pool st) else Inr (nd_pool st)) = Inr pool
      \<and> pool_rep TxID (txPoolData pool) ?ys"
  proof (cases "nd_SubUser st \<le> 0")
    case True
    then obtain p where "OrdinaryRun TxID (Transactions b) (txPoolData (nd_pool st)) = Inr p"
      "pool_rep TxID p (filter (\<lambda>x. TxID x \<notin> TxID ` set (Transactions b)) xs)"
      using OrdinaryRun_cases [of TxID "txPoolData (nd_pool st)" xs "Transactions b"] pool by auto
    then show ?thesis using True by (simp add: UpdateByData_def)
  next
    case False
    then show ?thesis using pool by simp
  qed
  then obtain pool' where pool': "(if nd_SubUser st \<le> 0 then UpdateByData (stripped b) (nd_pool st) else Inr (nd_pool st))
      = Inr pool'" "pool_rep TxID (txPoolData pool') ?ys" by blast
  obtain db where db: "upDateByData (e_bolt E) (stripped b) (Db (nd_tables st)) = Inr db"
    "\<forall>m \<in> M. log_rep (e_bolt E) db m (if m \<in> Table ` set (Transactions b) then log_append (hs m) (CurrentBlockHash b) else hs m)"
    using data_block_logged [of M "e_bolt E" "Db (nd_tables st)" hs "stripped b", unfolded stripped_fields] logs by auto
  show ?thesis
    using ok ch pool' db by (simp add: DistributeDataBlock_def UpdateByDataBlock_def Let_def)
qed

lemma DistributeDataBlock_received:
  assumes "can_receive E b st bs xs M hs" and "CheckDataBlock (e_hashes E) (stripped b) = Inr ok"
  shows "\<exists>st'. DistributeDataBlock E (BlockToGrpcDataBlock b) st
      = Inr (if ok then \<lparr>Info = BlockVerified, Status = True\<rparr> else \<lparr>Info = BlockRejected, Status = False\<rparr>, st')
    \<and> received E b st st' bs xs M hs"
proof -
  note can = assms(1) [unfolded can_receive_def]
  have rep: "data_rep (e_bolt E) (e_block E) (a_chain (nd_alg st)) bs"
    and ok: "data_ok (e_bolt E) (e_block E) (a_chain (nd_alg st)) (stripped b)" using can by simp_all
  obtain ch where ch: "AddBlockToChain (e_bolt E) (e_block E) (stripped b) (a_chain (nd_alg st)) = Inr ch"
    "data_rep (e_bolt E) (e_block E) ch (stripped b # bs)"
    using data_store.add_rep [OF rep ok] by auto
  have pool: "pool_rep TxID (txPoolData (nd_pool st)) xs"
    "nd_SubUser st \<le> 0 \<longrightarrow> distinct (map TxID (Transactions b)) \<and> TxID ` set (Transactions b) \<subseteq> TxID ` set xs"
    using can by blast+
  have logs: "\<forall>m \<in> M. log_rep (e_bolt E) (Db (nd_tables st)) m (hs m) \<and> Suc (length (hs m)) < 2 ^ 64 - 1"
    "Table ` set (Transactions b) \<subseteq> M" "CurrentBlockHash b \<noteq> ''root''" "length (CurrentBlockHash b) \<le> 2147483646"
    using can by blast+
  from DistributeDataBlock_runs [OF ch(1) pool logs assms(2)] show ?thesis
    unfolding received_def using ch(2) by blast
qed

text \<open>
  A block from another node: whether the check accepts it or not, the node appends it to its
  chain (without the fields a message does not carry), takes its transactions out of the pool if
  it is no proposer itself, logs it for the tables it touches, refreshes the cached values and
  reports that the round is done; only the reply tells the sender that the block was rejected. If
  the check panics (a wrong Merkle root), the handler panics.
\<close>

theorem distributed_block:
  assumes "can_receive E b st bs xs M hs"
  shows "case CheckDataBlock (e_hashes E) (stripped b) of
      Inl p \<Rightarrow> DistributeDataBlock E (BlockToGrpcDataBlock b) st = Inl p
    | Inr ok \<Rightarrow> \<exists>st'. DistributeDataBlock E (BlockToGrpcDataBlock b) st
        = Inr (if ok then \<lparr>Info = BlockVerified, Status = True\<rparr> else \<lparr>Info = BlockRejected, Status = False\<rparr>, st')
      \<and> received E b st st' bs xs M hs"
proof (cases "CheckDataBlock (e_hashes E) (stripped b)")
  case (Inl p)
  then show ?thesis by (simp add: DistributeDataBlock_def Let_def)
next
  case (Inr ok)
  then show ?thesis using DistributeDataBlock_received [OF assms Inr] by simp
qed

text \<open>A block with an unsigned transaction, and a node that receives it.\<close>

definition unsigned_block :: block where
  "unsigned_block = (toy_block 3 ''d'' ''c'')\<lparr>Transactions := [wit_tx ''tab'' ''k'' 7]\<rparr>"

definition unsigned_env :: "mapdb alg_env" where
  "unsigned_env = toy_env\<lparr>e_block := toy_codec (unsigned_block # tl toy_blocks)\<rparr>"

definition toy_node :: "mapdb node_state" where
  "toy_node = \<lparr>nd_alg = toy_state, nd_tables = (new_table_chain map_bolt)\<lparr>Db := wit_db\<rparr>, nd_pool = pool_Init,
     nd_cache = \<lparr>lru3Query = lru_init, tableInfo = Map.empty\<rparr>, nd_SubUser = 1, nd_IsDone = False\<rparr>"

lemma unsigned_block_simps [simp]:
  "CurrentBlockHash unsigned_block = ''d''" "PreviousBlockHash unsigned_block = ''c''"
  "Transactions unsigned_block = [wit_tx ''tab'' ''k'' 7]" "stripped unsigned_block = unsigned_block"
  by (simp_all add: unsigned_block_def stripped_def toy_block_def NewBlock_def)

lemma unsigned_env_simps [simp]:
  "e_bolt unsigned_env = map_bolt" "e_hashes unsigned_env = toy_crypto"
  "e_block unsigned_env = toy_codec (unsigned_block # tl toy_blocks)"
  by (simp_all add: unsigned_env_def toy_env_def)

lemma unsigned_chain: "data_rep map_bolt (toy_codec (unsigned_block # tl toy_blocks)) toy_chain (tl toy_blocks)"
  unfolding data_rep_def chain_rep_def
  by (simp add: map_bolt_laws toy_get toy_has toy_blocks_def genesis_mark_def)

lemma unsigned_can_receive:
  "can_receive unsigned_env unsigned_block toy_node (tl toy_blocks) [] {''tab''} (\<lambda>_. [''c''])"
proof -
  have "data_ok map_bolt (toy_codec (unsigned_block # tl toy_blocks)) toy_chain unsigned_block"
    unfolding data_ok_def block_ok_def by (simp add: toy_get storable_def)
  then show ?thesis
    using unsigned_chain wit_rep
    by (simp add: can_receive_def toy_node_def toy_state_def pool_Init_def pool_rep_def pool_init_def tq_rep_init
        wit_tx_def SetDataID_def)
qed

theorem distributed_block_witness:
  "\<exists>st'. DistributeDataBlock unsigned_env (BlockToGrpcDataBlock unsigned_block) toy_node
      = Inr (\<lparr>Info = BlockRejected, Status = False\<rparr>, st')
    \<and> data_rep map_bolt (e_block unsigned_env) (a_chain (nd_alg st')) (unsigned_block # tl toy_blocks)"
proof -
  have "\<not> VerifyTransaction toy_crypto (wit_tx ''tab'' ''k'' 7)"
    by (simp add: VerifyTransaction_def Let_def restore_key_def toy_crypto_def wit_tx_def zero_tx_def SetDataID_def
        numeral_2_eq_2)
  then have "CheckDataBlock (e_hashes unsigned_env) (stripped unsigned_block) = Inr False"
    by (simp add: CheckDataBlock_def genesis_parent_def)
  then show ?thesis using distributed_block [OF unsigned_can_receive] by (auto simp: received_def)
qed

section \<open>Serving blocks\<close>

lemma sync_loop_stored:
  assumes "has_bucket B db bk" and "stored B dec hsh prv db bk t (news @ b # olds)" and "hsh b \<notin> hsh ` set news"
  shows "sync_loop (iterator_next B dec prv db) hsh conv (hsh b) \<lparr>it_BlockBucket = bk, CurrentHash = t\<rparr> out
    = Some (Inr (out @ map conv news))"
  using assms(2,3)
proof (induction news arbitrary: t out)
  case Nil
  then show ?case
    using iterator_next_stored [OF assms(1), of dec hsh prv t b olds] by (simp add: sync_loop.simps)
next
  case (Cons n news)
  have "stored B dec hsh prv db bk (prv n) (news @ b # olds)" using Cons.prems(1) by simp
  from Cons.IH [OF this] have "sync_loop (iterator_next B dec prv db) hsh conv (hsh b)
      \<lparr>it_BlockBucket = bk, CurrentHash = prv n\<rparr> (out @ [conv n]) = Some (Inr (out @ map conv (n # news)))"
    using Cons.prems(2) by simp
  moreover have "hsh n \<noteq> hsh b" using Cons.prems(2) by auto
  ultimately show ?case
    using iterator_next_stored [OF assms(1), of dec hsh prv t n "news @ b # olds"] Cons.prems(1)
    by (simp add: sync_loop.simps [of _ _ _ _ "\<lparr>it_BlockBucket = bk, CurrentHash = t\<rparr>"])
qed

text \<open>A hash that no block has takes the loop past the genesis block.\<close>

lemma sync_loop_unknown:
  assumes "has_bucket B db bk" and "stored B dec hsh prv db bk t bs" and "h \<notin> hsh ` set bs"
    and "dec (bolt_get B db bk genesis_mark) = None"
  shows "sync_loop (iterator_next B dec prv db) hsh conv h \<lparr>it_BlockBucket = bk, CurrentHash = t\<rparr> out
    = Some (Inl LogPanic)"
  using assms(2,3)
proof (induction bs arbitrary: t out)
  case Nil
  then show ?case using assms(1,4) by (simp add: sync_loop.simps iterator_next_def)
next
  case (Cons n bs)
  have "stored B dec hsh prv db bk (prv n) bs" using Cons.prems(1) by simp
  from Cons.IH [OF this] have "sync_loop (iterator_next B dec prv db) hsh conv h
      \<lparr>it_BlockBucket = bk, CurrentHash = prv n\<rparr> (out @ [conv n]) = Some (Inl LogPanic)"
    using Cons.prems(2) by simp
  moreover have "hsh n \<noteq> h" using Cons.prems(2) by auto
  ultimately show ?case
    using iterator_next_stored [OF assms(1), of dec hsh prv t n bs] Cons.prems(1)
    by (simp add: sync_loop.simps [of _ _ _ _ "\<lparr>it_BlockBucket = bk, CurrentHash = t\<rparr>"])
qed

lemma serve_DataBlocks_missing:
  assumes "data_rep (e_bolt E) (e_block E) (a_chain (nd_alg st)) (news @ b # olds)"
  shows "serve_DataBlocks E (CurrentBlockHash b) st = return_run (map BlockToGrpcDataBlock news)"
proof -
  let ?ch = "a_chain (nd_alg st)"
  note c = assms [unfolded data_rep_def chain_rep_def]
  have "sync_loop (iterator_next (e_bolt E) (decode (e_block E)) PreviousBlockHash (Db ?ch)) CurrentBlockHash
      BlockToGrpcDataBlock (CurrentBlockHash b) \<lparr>it_BlockBucket = BlockBucket ?ch, CurrentHash = TailHash ?ch\<rparr> []
      = Some (Inr ([] @ map BlockToGrpcDataBlock news))"
    by (rule sync_loop_stored) (use c in auto)
  then show ?thesis by (simp add: serve_DataBlocks_def Next_def CreateIterator_def create_iterator_def Let_def)
qed

text \<open>
  C24. Serving missing blocks: asked with the hash of one of its blocks, a node answers with exactly
  the blocks above it, newest first. Asked with a hash that no block of its chain has, it panics
  when it reads past the genesis block.
\<close>

theorem serves_missing_blocks:
  assumes "data_rep (e_bolt E) (e_block E) (a_chain (nd_alg st)) (news @ b # olds)"
    and "decode (e_block E) (bolt_get (e_bolt E) (Db (a_chain (nd_alg st))) (BlockBucket (a_chain (nd_alg st))) genesis_mark) = None"
  shows "serve_DataBlocks E (CurrentBlockHash b) st = return_run (map BlockToGrpcDataBlock news)
    \<and> (\<forall>h. h \<notin> CurrentBlockHash ` set (news @ b # olds) \<longrightarrow> serve_DataBlocks E h st = panic_run LogPanic)"
proof -
  let ?ch = "a_chain (nd_alg st)"
  note c = assms(1) [unfolded data_rep_def chain_rep_def]
  have "serve_DataBlocks E h st = panic_run LogPanic" if "h \<notin> CurrentBlockHash ` set (news @ b # olds)" for h
  proof -
    have "sync_loop (iterator_next (e_bolt E) (decode (e_block E)) PreviousBlockHash (Db ?ch)) CurrentBlockHash
        BlockToGrpcDataBlock h \<lparr>it_BlockBucket = BlockBucket ?ch, CurrentHash = TailHash ?ch\<rparr> [] = Some (Inl LogPanic)"
      by (rule sync_loop_unknown [OF _ _ that]) (use c assms(2) in auto)
    then show ?thesis by (simp add: serve_DataBlocks_def Next_def CreateIterator_def create_iterator_def Let_def)
  qed
  then show ?thesis using serve_DataBlocks_missing [OF assms(1)] by blast
qed

theorem serves_missing_blocks_witness:
  "serve_DataBlocks unsigned_env ''a'' toy_node = return_run (map BlockToGrpcDataBlock [toy_block 2 ''c'' ''b'', toy_block 1 ''b'' ''a''])
   \<and> serve_DataBlocks unsigned_env ''x'' toy_node = panic_run LogPanic"
proof -
  have "data_rep (e_bolt unsigned_env) (e_block unsigned_env) (a_chain (nd_alg toy_node))
      ([toy_block 2 ''c'' ''b'', toy_block 1 ''b'' ''a''] @ toy_block 0 ''a'' genesis_mark # [])"
    using unsigned_chain by (simp add: toy_node_def toy_state_def toy_blocks_def)
  from serves_missing_blocks [OF this] show ?thesis
    by (simp add: toy_node_def toy_state_def toy_get genesis_mark_def toy_blocks_def)
qed

end
