(* ===== verification/Cluster_Transfer.thy ===== *)
theory Cluster_Transfer
  imports Cluster_Files
begin

text \<open>
  \<open>Cluster/file.go\<close>, \<open>client.go\<close> and \<open>server.go\<close>: how a joining node gets the cluster file. The serving
  node writes the file to the connection in pieces of at most 4096 bytes and closes it; the joining
  node appends whatever a read returns to a new file until a read reports the end or an error. TCP
  keeps the order of the bytes but not the pieces: what the reads return is a list of its own.
\<close>

section \<open>Sending\<close>

text \<open>What the reads of the file return, up to the one that reports the end of the file.\<close>

function file_reads :: "bytes \<Rightarrow> bytes list" where
  "file_reads content = (if content = [] then [] else take 4096 content # file_reads (drop 4096 content))"
  by auto
termination
  by (relation "measure length") auto

declare file_reads.simps [simp del]

lemma file_reads_simps [simp]:
  "file_reads [] = []"
  "content \<noteq> [] \<Longrightarrow> file_reads content = take 4096 content # file_reads (drop 4096 content)"
  by (simp_all add: file_reads.simps [of content] file_reads.simps [of "[]"])

text \<open>
  \<open>accepted i\<close>: how many bytes of the \<open>i\<close>-th piece the connection takes. An error of \<open>Write\<close> is
  assigned and never looked at, so the loop goes on after a piece that was not taken.
\<close>

fun send_pieces :: "(nat \<Rightarrow> nat) \<Rightarrow> nat \<Rightarrow> bytes list \<Rightarrow> bytes" where
  "send_pieces accepted i [] = []"
| "send_pieces accepted i (b # bs) = take (accepted i) b @ send_pieces accepted (Suc i) bs"

text \<open>A missing file is a panic of the serving node; otherwise the result is what goes on the wire.\<close>

definition SendFile :: "(nat \<Rightarrow> nat) \<Rightarrow> bytes option \<Rightarrow> bytes go" where
  "SendFile accepted contents =
     (case contents of None \<Rightarrow> Inl LogPanic | Some content \<Rightarrow> Inr (send_pieces accepted 0 (file_reads content)))"

definition transfer_Handler :: "(nat \<Rightarrow> nat) \<Rightarrow> cluster_state \<Rightarrow> bytes go" where
  "transfer_Handler accepted st = SendFile accepted (ClusterInfo st)"

text \<open>The accept loop of \<open>Server\<close>, over the connections in the order they come and the state the node has then.\<close>

fun transfer_Server :: "((nat \<Rightarrow> nat) \<times> cluster_state) list \<Rightarrow> bytes list go" where
  "transfer_Server [] = Inr []"
| "transfer_Server ((accepted, st) # conns) =
     bind_go (transfer_Handler accepted st) (\<lambda>wire. bind_go (transfer_Server conns) (\<lambda>wires. Inr (wire # wires)))"

section \<open>Receiving\<close>

datatype net_read = Got bytes | GotLast bytes | GotError bytes

text \<open>Without a read that reports an end or an error the loop blocks: there is no result then.\<close>

fun recv_pieces :: "net_read list \<Rightarrow> bytes \<Rightarrow> bytes option" where
  "recv_pieces [] written = None"
| "recv_pieces (Got b # reads) written = recv_pieces reads (written @ b)"
| "recv_pieces (GotLast b # reads) written = Some (written @ b)"
| "recv_pieces (GotError b # reads) written = Some (written @ b)"

definition RecvFiles :: "bool \<Rightarrow> net_read list \<Rightarrow> cluster_state \<Rightarrow> cluster_state option" where
  "RecvFiles creatable reads st =
     (if \<not> creatable then Some st
      else map_option (\<lambda>content. st\<lparr>ClusterInfo := Some content\<rparr>) (recv_pieces reads []))"

text \<open>\<open>reachable\<close>: the serving node can be dialled. The result is true whatever happened to the file.\<close>

definition transfer_Client :: "bool \<Rightarrow> bool \<Rightarrow> net_read list \<Rightarrow> cluster_state \<Rightarrow> (bool \<times> cluster_state) run" where
  "transfer_Client reachable creatable reads st =
     (if \<not> reachable then panic_run LogPanic
      else case RecvFiles creatable reads st of None \<Rightarrow> None | Some st' \<Rightarrow> return_run (True, st'))"

section \<open>Properties\<close>

lemma concat_file_reads: "concat (file_reads content) = content"
proof (induction content rule: file_reads.induct)
  case (1 content)
  then show ?case by (cases "content = []") simp_all
qed

lemma file_reads_sizes: "b \<in> set (file_reads content) \<Longrightarrow> b \<noteq> [] \<and> length b \<le> 4096"
proof (induction content rule: file_reads.induct)
  case (1 content)
  then show ?case by (cases "content = []") auto
qed

lemma send_pieces_all: "(\<And>i b. b \<in> set bs \<Longrightarrow> length b \<le> accepted i) \<Longrightarrow> send_pieces accepted i bs = concat bs"
  by (induction bs arbitrary: i) simp_all

lemma SendFile_all:
  assumes "\<And>i. 4096 \<le> accepted i"
  shows "SendFile accepted (Some content) = Inr content"
proof -
  have "length b \<le> accepted i" if "b \<in> set (file_reads content)" for b i
    using file_reads_sizes [OF that] assms [of i] by linarith
  then show ?thesis by (simp add: SendFile_def send_pieces_all concat_file_reads)
qed

lemma recv_pieces_all:
  "recv_pieces (map Got bs @ GotLast b # rest) written = Some (written @ concat bs @ b)"
  "recv_pieces (map Got bs @ GotError b # rest) written = Some (written @ concat bs @ b)"
  by (induction bs arbitrary: written) simp_all

text \<open>The joining node ends with the file of the serving node, however the bytes were cut on the way.\<close>

lemma transfer_complete:
  assumes "\<And>i. 4096 \<le> accepted i" and "ClusterInfo entry = Some content"
    and "transfer_Handler accepted entry = Inr (concat bs @ b)"
  shows "transfer_Client True True (map Got bs @ [GotLast b]) own = return_run (True, own\<lparr>ClusterInfo := Some content\<rparr>)"
  using assms SendFile_all [of accepted content, OF assms(1)]
  by (simp add: transfer_Client_def RecvFiles_def recv_pieces_all transfer_Handler_def)

text \<open>
  Both ends together, as the joining node sees it: \<open>pieces\<close> is how the connection cuts the bytes it
  carries. If the serving node has no file it panics and the connection breaks.
\<close>

definition fetch_file :: "(nat \<Rightarrow> nat) \<Rightarrow> (bytes \<Rightarrow> net_read list) \<Rightarrow> cluster_state \<Rightarrow> cluster_state \<Rightarrow>
    (bool \<times> cluster_state) run" where
  "fetch_file accepted pieces entry own =
     transfer_Client True True (case transfer_Handler accepted entry of Inl p \<Rightarrow> [GotError []] | Inr wire \<Rightarrow> pieces wire) own"

lemma fetch_file_exact:
  assumes "\<And>i. 4096 \<le> accepted i" and "\<And>wire. \<exists>bs b. pieces wire = map Got bs @ [GotLast b] \<and> concat bs @ b = wire"
    and "ClusterInfo entry = Some content"
  shows "fetch_file accepted pieces entry own = return_run (True, own\<lparr>ClusterInfo := Some content\<rparr>)"
proof -
  have "transfer_Handler accepted entry = Inr content"
    using assms(3) SendFile_all [of accepted, OF assms(1)] by (simp add: transfer_Handler_def)
  moreover obtain bs b where "pieces content = map Got bs @ [GotLast b]" "concat bs @ b = content" using assms(2) by blast
  ultimately show ?thesis
    using transfer_complete [of accepted entry content bs b own] assms(1,3) by (simp add: fetch_file_def)
qed

text \<open>
  C26. The transfer of the cluster file is exact: if the connection takes every piece, the joining node
  has the serving node's file at the end, whatever the sizes of the reads. If the connection breaks
  after some of the bytes, the joining node keeps the beginning of the file and is told that the
  transfer succeeded all the same.
\<close>

theorem file_transfer:
  assumes "\<And>i. 4096 \<le> accepted i" and "ClusterInfo entry = Some content"
  shows "\<exists>wire. transfer_Handler accepted entry = Inr wire
    \<and> (\<forall>bs b. concat bs @ b = wire \<longrightarrow>
         transfer_Client True True (map Got bs @ [GotLast b]) own = return_run (True, own\<lparr>ClusterInfo := Some content\<rparr>))
    \<and> (\<forall>bs b rest. concat bs @ b @ rest = wire \<longrightarrow>
         transfer_Client True True (map Got bs @ [GotError b]) own
           = return_run (True, own\<lparr>ClusterInfo := Some (take (length wire - length rest) content)\<rparr>))"
proof -
  have wire: "transfer_Handler accepted entry = Inr content"
    using assms(2) SendFile_all [of accepted, OF assms(1)] by (simp add: transfer_Handler_def)
  have broken: "transfer_Client True True (map Got bs @ [GotError b]) own
      = return_run (True, own\<lparr>ClusterInfo := Some (take (length content - length rest) content)\<rparr>)"
    if "concat bs @ b @ rest = content" for bs b rest
  proof -
    have "take (length content - length rest) content = concat bs @ b"
      unfolding that [symmetric] by simp
    then show ?thesis by (simp add: transfer_Client_def RecvFiles_def recv_pieces_all)
  qed
  show ?thesis
    using transfer_complete [OF assms] broken wire by (intro exI [of _ content]) auto
qed

theorem file_transfer_witness:
  "\<exists>wire. transfer_Handler (\<lambda>_. 4096) \<lparr>LocalNode = \<lparr>Nodes = [], JoinKey = []\<rparr>, ClusterInfo = Some ''file''\<rparr> = Inr wire
    \<and> transfer_Client True True (map Got [''fi'', ''l''] @ [GotError []]) \<lparr>LocalNode = \<lparr>Nodes = [], JoinKey = []\<rparr>, ClusterInfo = None\<rparr>
      = return_run (True, \<lparr>LocalNode = \<lparr>Nodes = [], JoinKey = []\<rparr>, ClusterInfo = Some ''fil''\<rparr>)"
proof -
  let ?entry = "\<lparr>LocalNode = \<lparr>Nodes = [], JoinKey = []\<rparr>, ClusterInfo = Some ''file''\<rparr>"
  let ?own = "\<lparr>LocalNode = \<lparr>Nodes = [], JoinKey = []\<rparr>, ClusterInfo = None\<rparr>"
  have a: "4096 \<le> (4096 :: nat)" for i :: nat by simp
  have c: "ClusterInfo ?entry = Some ''file''" by simp
  have "transfer_Handler (\<lambda>_. 4096) ?entry = Inr ''file''"
    using SendFile_all [of "\<lambda>_. 4096" "''file''"] by (simp add: transfer_Handler_def)
  moreover from file_transfer [of "\<lambda>_. 4096", OF a c, of ?own] obtain wire where w: "transfer_Handler (\<lambda>_. 4096) ?entry = Inr wire"
    "\<And>bs b rest. concat bs @ b @ rest = wire \<Longrightarrow> transfer_Client True True (map Got bs @ [GotError b]) ?own
      = return_run (True, ?own\<lparr>ClusterInfo := Some (take (length wire - length rest) ''file'')\<rparr>)" by blast
  ultimately have "wire = ''file''" by simp
  then show ?thesis using w(1) w(2) [of "[''fi'', ''l'']" "[]" "''e''"] by simp
qed

end
