(* ===== verification/Grpc_Client.thy ===== *)
theory Grpc_Client
  imports Grpc_Service Cluster_Transfer
begin

text \<open>
  \<open>GRPC/util.go\<close>, second part: the calls a node makes at the other nodes of its cluster file.
  The other nodes are a map from addresses to their states; a call runs the handler there. A
  handler that panics takes its node down and the caller sees an error, and every caller treats
  an error by \<open>log.Panic\<close>.
\<close>

type_synonym address = "string \<times> int"

definition node_address :: "node \<Rightarrow> address" where
  "node_address n = (IP n, Port n)"

section \<open>A round of calls\<close>

text \<open>
  The loop over \<open>Cluster.LocalNode.Node\<close>: skip oneself, call the next node, panic if the call
  fails. \<open>h\<close> is the handler; its boolean is the returned error.
\<close>

fun call_all :: "(node \<Rightarrow> bool) \<Rightarrow> (node \<Rightarrow> 's \<Rightarrow> (bool \<times> 's) go) \<Rightarrow> node list \<Rightarrow> (address \<Rightarrow> 's) \<Rightarrow>
    panic option \<times> (address \<Rightarrow> 's)" where
  "call_all skip h [] w = (None, w)"
| "call_all skip h (n # ns) w =
     (if skip n then call_all skip h ns w
      else case h n (w (node_address n)) of
             Inl p \<Rightarrow> (Some LogPanic, w)
           | Inr (err, s) \<Rightarrow>
               if err then (Some LogPanic, w(node_address n := s)) else call_all skip h ns (w(node_address n := s)))"

definition is_me :: "address \<Rightarrow> node \<Rightarrow> bool" where
  "is_me me n \<longleftrightarrow> IP n = fst me \<and> Port n = snd me"

definition SubmitDataTransaction :: "crypto \<Rightarrow> address \<Rightarrow> transaction \<Rightarrow> node list \<Rightarrow> (address \<Rightarrow> tx_pool) \<Rightarrow>
    panic option \<times> (address \<Rightarrow> tx_pool)" where
  "SubmitDataTransaction cr me tx nodes w =
     call_all (is_me me) (\<lambda>n pool. bind_go (DataTradingPool cr (data_tx_to_msg tx) pool)
       (\<lambda>((info, err), pool'). Inr (err, pool'))) nodes w"

definition SubmitTableTransaction :: "crypto \<Rightarrow> address \<Rightarrow> table_tx \<Rightarrow> node list \<Rightarrow> (address \<Rightarrow> tx_pool) \<Rightarrow>
    panic option \<times> (address \<Rightarrow> tx_pool)" where
  "SubmitTableTransaction cr me tx nodes w =
     call_all (is_me me) (\<lambda>n pool. bind_go (TableTradingPool cr (table_tx_to_msg tx) pool)
       (\<lambda>((info, err), pool'). Inr (err, pool'))) nodes w"

text \<open>
  One round of the two distribution loops, on the hand-over queue. If the queue has a size but no
  head (two loops may run), \<open>Get\<close> returns nil and the type assertion panics. The handlers never
  return an error, and the reply is ignored.
\<close>

definition DataBlockDistribute_round :: "('db alg_env) \<Rightarrow> address \<Rightarrow> node list \<Rightarrow>
    block bqueue \<times> (address \<Rightarrow> 'db node_state) \<Rightarrow> panic option \<times> block bqueue \<times> (address \<Rightarrow> 'db node_state)" where
  "DataBlockDistribute_round E me nodes s =
     (case s of (q, w) \<Rightarrow>
        if 1 \<le> Size q
        then (case Get q of
                (None, q') \<Rightarrow> (Some NilDeref, q', w)
              | (Some b, q') \<Rightarrow>
                  (let (p, w') = call_all (is_me me) (\<lambda>n st. bind_go (DistributeDataBlock E (BlockToGrpcDataBlock b) st)
                     (\<lambda>(info, st'). Inr (False, st'))) nodes w
                   in (p, q', w')))
        else (None, q, w))"

definition TableBlockDistribute_round :: "('db alg_env) \<Rightarrow> table_block codec \<Rightarrow> address \<Rightarrow> node list \<Rightarrow>
    table_block bqueue \<times> (address \<Rightarrow> 'db node_state) \<Rightarrow>
    panic option \<times> table_block bqueue \<times> (address \<Rightarrow> 'db node_state)" where
  "TableBlockDistribute_round E tcd me nodes s =
     (case s of (q, w) \<Rightarrow>
        if 1 \<le> Size q
        then (case Get q of
                (None, q') \<Rightarrow> (Some NilDeref, q', w)
              | (Some b, q') \<Rightarrow>
                  (let (p, w') = call_all (is_me me) (\<lambda>n st. bind_go (DistributeTableBlock E tcd (BlockToGrpcTableBlock b) st)
                     (\<lambda>(info, st'). Inr (False, st'))) nodes w
                   in (p, q', w')))
        else (None, q, w))"

section \<open>Joining a cluster\<close>

text \<open>\<open>BroadCast\<close> sends every receiver the receiver's own address.\<close>

definition BroadCast :: "cluster_env \<Rightarrow> address \<Rightarrow> address \<Rightarrow> node list \<Rightarrow> (address \<Rightarrow> cluster_state) \<Rightarrow>
    panic option \<times> (address \<Rightarrow> cluster_state)" where
  "BroadCast C me entry nodes w =
     call_all (\<lambda>n. is_me me n \<or> is_me entry n)
       (\<lambda>n st. bind_go (BroadcastNode C (IP n) (Itoa (Port n)) st) (\<lambda>(r, st'). Inr (r \<noteq> Joined, st'))) nodes w"

text \<open>
  \<open>JoinToCluster\<close>: ask the entry node, drop the own cluster file, fetch the entry node's file with
  \<open>client\<close> (see \<open>fetch_file\<close>) and load it. The boolean is the error; no client of this program ever
  reports a failure.
\<close>

definition JoinToCluster :: "cluster_env \<Rightarrow> (cluster_state \<Rightarrow> cluster_state \<Rightarrow> (bool \<times> cluster_state) run) \<Rightarrow> int \<Rightarrow> string \<Rightarrow>
    cluster_state \<Rightarrow> cluster_state \<Rightarrow> ((bool \<times> cluster_state) \<times> cluster_state) run" where
  "JoinToCluster C client port key entry own =
     bind_run (lift_go (JoinCluster C (local_ip C) (Itoa port) (cl_sha256 C key) entry)) (\<lambda>(r, entry').
       if r \<noteq> Joined then panic_run LogPanic
       else bind_run (client entry' (own\<lparr>ClusterInfo := None\<rparr>)) (\<lambda>(flag, own1).
         if \<not> flag then return_run ((True, own1), entry')
         else bind_run (lift_go (LoadClusterFile C own1)) (\<lambda>(clu, own2).
           case clu of
             None \<Rightarrow> panic_run LogPanic
           | Some c \<Rightarrow> return_run ((False, own2\<lparr>LocalNode := c\<rparr>), entry'))))"

section \<open>Catching up\<close>

text \<open>
  The request is made once, before the loop over the nodes; every node marked as book-keeper is
  asked, and its answer is added oldest first. A call that fails leaves a nil answer, which the
  code dereferences.
\<close>

definition add_synced :: "'db alg_env \<Rightarrow> 'db node_state \<Rightarrow> data_block_msg \<Rightarrow> 'db node_state go" where
  "add_synced E st m =
     (let b = GrpcDataBlockToBlock m in
      bind_go (AddBlockToChain (e_bolt E) (e_block E) b (a_chain (nd_alg st))) (\<lambda>ch.
      bind_go (UpdateByDataBlock (e_bolt E) b (nd_cache st, Db (nd_tables st))) (\<lambda>(c, db).
        Inr (st\<lparr>nd_alg := (nd_alg st)\<lparr>a_chain := ch\<rparr>, nd_cache := c, nd_tables := (nd_tables st)\<lparr>Db := db\<rparr>\<rparr>))))"

definition DataBlockSynchronization :: "'db alg_env \<Rightarrow> (node \<Rightarrow> bytes \<Rightarrow> data_block_msg list option) \<Rightarrow> node list \<Rightarrow>
    'db node_state \<Rightarrow> 'db node_state go" where
  "DataBlockSynchronization E ask nodes st =
     bind_go (GetBlockByHash (e_bolt E) (e_block E) (a_chain (nd_alg st)) (TailHash (a_chain (nd_alg st)))) (\<lambda>b.
       fold_go (\<lambda>st n. if Account n
          then (case ask n (CurrentBlockHash b) of
                  None \<Rightarrow> Inl NilDeref
                | Some ms \<Rightarrow> fold_go (add_synced E) st (rev ms))
          else Inr st) st nodes)"

definition add_synced_table :: "'db alg_env \<Rightarrow> table_block codec \<Rightarrow> 'db node_state \<Rightarrow> table_block_msg \<Rightarrow>
    'db node_state go" where
  "add_synced_table E tcd st m =
     (let b = GrpcTableBlockToBlock m in
      bind_go (table_AddBlockToChain (e_bolt E) tcd b (nd_tables st)) (\<lambda>tch.
      bind_go (UpdateByTableBlock (e_bolt E) b (nd_cache st, Db tch)) (\<lambda>(c, db).
        Inr (st\<lparr>nd_tables := tch\<lparr>Db := db\<rparr>, nd_cache := c\<rparr>))))"

definition TableBlockSynchronization :: "'db alg_env \<Rightarrow> table_block codec \<Rightarrow>
    (node \<Rightarrow> bytes \<Rightarrow> table_block_msg list option) \<Rightarrow> node list \<Rightarrow> 'db node_state \<Rightarrow> 'db node_state go" where
  "TableBlockSynchronization E tcd ask nodes st =
     bind_go (table_GetBlockByHash (e_bolt E) tcd (nd_tables st) (TailHash (nd_tables st))) (\<lambda>b.
       fold_go (\<lambda>st n. if Account n
          then (case ask n (tCurrentBlockHash b) of
                  None \<Rightarrow> Inl NilDeref
                | Some ms \<Rightarrow> fold_go (add_synced_table E tcd) st (rev ms))
          else Inr st) st nodes)"

section \<open>Rounds of calls in general\<close>

text \<open>
  If every call to another node succeeds from the state the node starts in, and the addresses are
  distinct, the round ends without a panic and exactly the called nodes have changed.
\<close>

lemma call_all_ok:
  assumes "distinct (map node_address ns)" and "\<And>n. n \<in> set ns \<Longrightarrow> \<not> skip n \<Longrightarrow> h n (w (node_address n)) = Inr (False, f n)"
  shows "\<exists>w'. call_all skip h ns w = (None, w') \<and> (\<forall>n \<in> set ns. \<not> skip n \<longrightarrow> w' (node_address n) = f n)
    \<and> (\<forall>a. a \<notin> node_address ` {n \<in> set ns. \<not> skip n} \<longrightarrow> w' a = w a)"
  using assms
proof (induction ns arbitrary: w)
  case Nil
  then show ?case by simp
next
  case (Cons n ns)
  show ?case
  proof (cases "skip n")
    case True
    from Cons.prems have d: "distinct (map node_address ns)"
      and h: "\<And>m. m \<in> set ns \<Longrightarrow> \<not> skip m \<Longrightarrow> h m (w (node_address m)) = Inr (False, f m)" by simp_all
    obtain w' where "call_all skip h ns w = (None, w')" "\<forall>m \<in> set ns. \<not> skip m \<longrightarrow> w' (node_address m) = f m"
      "\<forall>a. a \<notin> node_address ` {m \<in> set ns. \<not> skip m} \<longrightarrow> w' a = w a" using Cons.IH [OF d h] by blast
    moreover have "{m \<in> set (n # ns). \<not> skip m} = {m \<in> set ns. \<not> skip m}" using True by auto
    ultimately show ?thesis using True by auto
  next
    case False
    let ?w = "w(node_address n := f n)"
    have d: "distinct (map node_address ns)" and n: "node_address n \<notin> node_address ` set ns" using Cons.prems(1) by simp_all
    have "h m (?w (node_address m)) = Inr (False, f m)" if "m \<in> set ns" "\<not> skip m" for m
    proof -
      have "node_address m \<noteq> node_address n" using that(1) n by (metis imageI)
      then show ?thesis using Cons.prems(2) [of m] that by simp
    qed
    from Cons.IH [OF d this] obtain w' where w': "call_all skip h ns ?w = (None, w')"
      "\<forall>m \<in> set ns. \<not> skip m \<longrightarrow> w' (node_address m) = f m" "\<forall>a. a \<notin> node_address ` {m \<in> set ns. \<not> skip m} \<longrightarrow> w' a = ?w a" by blast
    have "node_address n \<notin> node_address ` {m \<in> set ns. \<not> skip m}" using n by auto
    then have "w' (node_address n) = f n" using w'(3) [rule_format, of "node_address n"] by simp
    moreover have "w' a = w a" if "a \<notin> node_address ` {m \<in> set (n # ns). \<not> skip m}" for a
    proof -
      have "a \<notin> node_address ` {m \<in> set ns. \<not> skip m}" "a \<noteq> node_address n" using that False by auto
      then show ?thesis using w'(3) [rule_format, of a] by simp
    qed
    ultimately show ?thesis using w'(1,2) False Cons.prems(2) [of n] by auto
  qed
qed

lemma call_all_each:
  assumes "distinct (map node_address ns)"
    and "\<And>n. n \<in> set ns \<Longrightarrow> \<not> skip n \<Longrightarrow> \<exists>s. h n (w (node_address n)) = Inr (False, s) \<and> Q n s"
  shows "\<exists>w'. call_all skip h ns w = (None, w') \<and> (\<forall>n \<in> set ns. \<not> skip n \<longrightarrow> Q n (w' (node_address n)))
    \<and> (\<forall>a. a \<notin> node_address ` {n \<in> set ns. \<not> skip n} \<longrightarrow> w' a = w a)"
proof -
  obtain f where f: "\<And>n. n \<in> set ns \<Longrightarrow> \<not> skip n \<Longrightarrow> h n (w (node_address n)) = Inr (False, f n) \<and> Q n (f n)"
    using assms(2) by metis
  have h: "h n (w (node_address n)) = Inr (False, f n)" if "n \<in> set ns" "\<not> skip n" for n using f [OF that] by simp
  obtain w' where "call_all skip h ns w = (None, w')" "\<forall>n \<in> set ns. \<not> skip n \<longrightarrow> w' (node_address n) = f n"
    "\<forall>a. a \<notin> node_address ` {n \<in> set ns. \<not> skip n} \<longrightarrow> w' a = w a"
    using call_all_ok [where h = h and w = w and f = f, OF assms(1) h] by blast
  then show ?thesis using f by (intro exI [of _ w']) simp
qed

text \<open>A node that refuses stops the round with a panic of the caller.\<close>

lemma call_all_fail:
  assumes "distinct (map node_address ns)" and "n \<in> set ns" and "\<not> skip n" and "\<forall>s. h n (w (node_address n)) \<noteq> Inr (False, s)"
  shows "fst (call_all skip h ns w) = Some LogPanic"
  using assms
proof (induction ns arbitrary: w)
  case Nil
  then show ?case by simp
next
  case (Cons m ns)
  show ?case
  proof (cases "m = n")
    case True
    then show ?thesis using Cons.prems by (auto split: sum.split prod.split)
  next
    case False
    then have n: "n \<in> set ns" using Cons.prems by simp
    moreover have "node_address m \<notin> node_address ` set ns" using Cons.prems(1) by simp
    ultimately have "node_address n \<noteq> node_address m" by (metis imageI)
    then have w: "(w(node_address m := s)) (node_address n) = w (node_address n)" for s by (rule fun_upd_other)
    have "fst (call_all skip h ns (w(node_address m := s))) = Some LogPanic" for s
      by (rule Cons.IH) (use Cons.prems n in \<open>simp_all only: w list.simps distinct.simps simp_thms\<close>)
    moreover have "fst (call_all skip h ns w) = Some LogPanic" using Cons.IH [of w] Cons.prems n by simp
    ultimately show ?thesis by (auto split: sum.split prod.split)
  qed
qed

section \<open>Submitting a transaction\<close>

text \<open>
  What the sender relies on at the receiving node: the handler takes a valid new transaction into the
  pool, in its place by time, unless the pool is full, and refuses it then.
\<close>

locale trading =
  fixes handler :: "'m \<Rightarrow> tx_pool \<Rightarrow> ((verify_info \<times> bool) \<times> tx_pool) go" and msg :: "'a \<Rightarrow> 'm"
    and part :: "tx_pool \<Rightarrow> 'a pool" and ident :: "'a \<Rightarrow> bytes" and ts :: "'a \<Rightarrow> int" and valid :: "'a \<Rightarrow> bool"
  assumes trade: "valid tx \<Longrightarrow> pool_rep ident (part pool) xs \<Longrightarrow> ident tx \<notin> ident ` set xs \<Longrightarrow>
    if int (length xs) = maxSize (pqueue_of (part pool))
    then handler (msg tx) pool = Inr ((\<lparr>Info = PoolRefused, Status = False\<rparr>, True), pool)
    else \<exists>pool'. handler (msg tx) pool = Inr ((\<lparr>Info = TxReceived, Status = True\<rparr>, False), pool')
      \<and> pool_rep ident (part pool') (back_insert ts tx xs)"
begin

lemma submit_room:
  assumes "distinct (map node_address nodes)" and "valid tx"
    and "\<And>n. n \<in> set nodes \<Longrightarrow> \<not> is_me me n \<Longrightarrow>
      pool_rep ident (part (w (node_address n))) (xs n) \<and> ident tx \<notin> ident ` set (xs n)
      \<and> int (length (xs n)) \<noteq> maxSize (pqueue_of (part (w (node_address n))))"
  shows "\<exists>w'. call_all (is_me me) (\<lambda>n pool. bind_go (handler (msg tx) pool) (\<lambda>((info, err), pool'). Inr (err, pool'))) nodes w
      = (None, w')
      \<and> (\<forall>n \<in> set nodes. \<not> is_me me n \<longrightarrow> pool_rep ident (part (w' (node_address n))) (back_insert ts tx (xs n)))
      \<and> (\<forall>a. a \<notin> node_address ` {n \<in> set nodes. \<not> is_me me n} \<longrightarrow> w' a = w a)"
proof (rule call_all_each [OF assms(1)])
  fix n
  assume "n \<in> set nodes" and "\<not> is_me me n"
  then obtain pool' where "handler (msg tx) (w (node_address n)) = Inr ((\<lparr>Info = TxReceived, Status = True\<rparr>, False), pool')"
    "pool_rep ident (part pool') (back_insert ts tx (xs n))"
    using trade [of tx "w (node_address n)" "xs n"] assms(2,3) by (auto split: if_splits)
  then show "\<exists>s. bind_go (handler (msg tx) (w (node_address n))) (\<lambda>((info, err), pool'). Inr (err, pool')) = Inr (False, s)
      \<and> pool_rep ident (part s) (back_insert ts tx (xs n))" by simp
qed

lemma submit_full:
  assumes "distinct (map node_address nodes)" and "valid tx" and "n \<in> set nodes" and "\<not> is_me me n"
    and "pool_rep ident (part (w (node_address n))) xs" and "ident tx \<notin> ident ` set xs"
    and "int (length xs) = maxSize (pqueue_of (part (w (node_address n))))"
  shows "fst (call_all (is_me me) (\<lambda>n pool. bind_go (handler (msg tx) pool) (\<lambda>((info, err), pool'). Inr (err, pool'))) nodes w)
    = Some LogPanic"
proof (rule call_all_fail [where n = n])
  have "handler (msg tx) (w (node_address n)) = Inr ((\<lparr>Info = PoolRefused, Status = False\<rparr>, True), w (node_address n))"
    using trade [OF assms(2,5,6)] assms(7) by simp
  then show "\<forall>s. bind_go (handler (msg tx) (w (node_address n))) (\<lambda>((info, err), pool'). Inr (err, pool')) \<noteq> Inr (False, s)"
    by simp
qed (use assms in simp_all)

end

interpretation data_trading: trading "DataTradingPool cr" data_tx_to_msg txPoolData TxID TimeStamp "VerifyTransaction cr"
  for cr
proof
  fix tx xs and pool :: tx_pool
  assume "VerifyTransaction cr tx" and "pool_rep TxID (txPoolData pool) xs" and "TxID tx \<notin> TxID ` set xs"
  then show "if int (length xs) = maxSize (pqueue_of (txPoolData pool))
    then DataTradingPool cr (data_tx_to_msg tx) pool = Inr ((\<lparr>Info = PoolRefused, Status = False\<rparr>, True), pool)
    else \<exists>pool'. DataTradingPool cr (data_tx_to_msg tx) pool = Inr ((\<lparr>Info = TxReceived, Status = True\<rparr>, False), pool')
      \<and> pool_rep TxID (txPoolData pool') (back_insert TimeStamp tx xs)"
    using TxIn_cases [of TxID "txPoolData pool" xs tx TimeStamp]
    by (auto simp: DataTradingPool_def TxDataIN_def split: if_splits)
qed

interpretation table_trading: trading "TableTradingPool cr" table_tx_to_msg txPoolTable tTxID tTimeStamp
    "table_VerifyTransaction cr" for cr
proof
  fix tx xs and pool :: tx_pool
  assume "table_VerifyTransaction cr tx" and "pool_rep tTxID (txPoolTable pool) xs" and "tTxID tx \<notin> tTxID ` set xs"
  then show "if int (length xs) = maxSize (pqueue_of (txPoolTable pool))
    then TableTradingPool cr (table_tx_to_msg tx) pool = Inr ((\<lparr>Info = PoolRefused, Status = False\<rparr>, True), pool)
    else \<exists>pool'. TableTradingPool cr (table_tx_to_msg tx) pool = Inr ((\<lparr>Info = TxReceived, Status = True\<rparr>, False), pool')
      \<and> pool_rep tTxID (txPoolTable pool') (back_insert tTimeStamp tx xs)"
    using TxIn_cases [of tTxID "txPoolTable pool" xs tx tTimeStamp]
    by (auto simp: TableTradingPool_def TxTableIN_def split: if_splits)
qed

text \<open>
  Sending a valid, new transaction to the cluster: if every other node has room, all of them
  hold it afterwards, in its place by time, and nobody else has changed; if a single one has a full
  pool, its refusal makes the sender panic.
\<close>

theorem submit_data_transaction:
  assumes "distinct (map node_address nodes)" and "VerifyTransaction cr tx"
    and "\<And>n. n \<in> set nodes \<Longrightarrow> \<not> is_me me n \<Longrightarrow>
      pool_rep TxID (txPoolData (w (node_address n))) (xs n) \<and> TxID tx \<notin> TxID ` set (xs n)"
  shows "if \<exists>n \<in> set nodes. \<not> is_me me n \<and> int (length (xs n)) = maxSize (pqueue_of (txPoolData (w (node_address n))))
    then fst (SubmitDataTransaction cr me tx nodes w) = Some LogPanic
    else \<exists>w'. SubmitDataTransaction cr me tx nodes w = (None, w')
      \<and> (\<forall>n \<in> set nodes. \<not> is_me me n \<longrightarrow> pool_rep TxID (txPoolData (w' (node_address n))) (back_insert TimeStamp tx (xs n)))
      \<and> (\<forall>a. a \<notin> node_address ` {n \<in> set nodes. \<not> is_me me n} \<longrightarrow> w' a = w a)"
proof (cases "\<exists>n \<in> set nodes. \<not> is_me me n \<and> int (length (xs n)) = maxSize (pqueue_of (txPoolData (w (node_address n))))")
  case True
  then obtain n where n: "n \<in> set nodes" "\<not> is_me me n"
    "int (length (xs n)) = maxSize (pqueue_of (txPoolData (w (node_address n))))" by blast
  then have "fst (SubmitDataTransaction cr me tx nodes w) = Some LogPanic"
    unfolding SubmitDataTransaction_def
    by (intro data_trading.submit_full [where n = n and xs = "xs n"]) (use assms n in simp_all)
  with True show ?thesis by simp
next
  case False
  have "\<exists>w'. SubmitDataTransaction cr me tx nodes w = (None, w')
      \<and> (\<forall>n \<in> set nodes. \<not> is_me me n \<longrightarrow> pool_rep TxID (txPoolData (w' (node_address n))) (back_insert TimeStamp tx (xs n)))
      \<and> (\<forall>a. a \<notin> node_address ` {n \<in> set nodes. \<not> is_me me n} \<longrightarrow> w' a = w a)"
    unfolding SubmitDataTransaction_def by (rule data_trading.submit_room [OF assms(1,2)]) (use assms(3) False in auto)
  then show ?thesis unfolding if_not_P [OF False] .
qed

definition two_nodes :: "node list" where
  "two_nodes = [\<lparr>IP = ''a'', Port = 3301, Account = True\<rparr>, \<lparr>IP = ''b'', Port = 3301, Account = False\<rparr>]"

theorem submit_data_transaction_witness:
  "\<exists>w'. SubmitDataTransaction toy_crypto (''a'', 3301) toy_tx two_nodes (\<lambda>_. pool_Init) = (None, w')
      \<and> pool_rep TxID (txPoolData (w' (''b'', 3301))) [toy_tx]"
proof -
  have r: "pool_rep TxID (txPoolData pool_Init) []"
    using empty_pool_rep by (simp add: pool_Init_def)
  have d: "distinct (map node_address two_nodes)" by (simp add: two_nodes_def node_address_def)
  have b: "back_insert TimeStamp toy_tx [] = [toy_tx]" by (simp add: back_insert_def later_def not_later_def)
  from submit_data_transaction [OF d toy_tx_verifies, of "(''a'', 3301)" "\<lambda>_. pool_Init" "\<lambda>_. []"] r
  have "\<exists>w'. SubmitDataTransaction toy_crypto (''a'', 3301) toy_tx two_nodes (\<lambda>_. pool_Init) = (None, w')
      \<and> (\<forall>n \<in> set two_nodes. \<not> is_me (''a'', 3301) n \<longrightarrow> pool_rep TxID (txPoolData (w' (node_address n))) [toy_tx])"
    by (auto simp: b pool_Init_def pool_init_def queue_init_def)
  then show ?thesis by (auto simp: two_nodes_def node_address_def is_me_def)
qed

section \<open>Replication\<close>

lemma distribute_step:
  assumes "bq_rep q (b # bl)" and "distinct (map node_address nodes)"
    and "\<And>n. n \<in> set nodes \<Longrightarrow> \<not> is_me me n \<Longrightarrow>
      \<exists>info s. DistributeDataBlock E (BlockToGrpcDataBlock b) (w (node_address n)) = Inr (info, s) \<and> Q n s"
  shows "\<exists>q' w'. DataBlockDistribute_round E me nodes (q, w) = (None, q', w') \<and> bq_rep q' bl
    \<and> (\<forall>n \<in> set nodes. \<not> is_me me n \<longrightarrow> Q n (w' (node_address n)))
    \<and> (\<forall>a. a \<notin> node_address ` {n \<in> set nodes. \<not> is_me me n} \<longrightarrow> w' a = w a)"
proof -
  obtain q' where q': "Get q = (Some b, q')" "bq_rep q' bl" using block_queue.get_first [OF assms(1)] by auto
  have sz: "1 \<le> Size q" using bq_rep_Size [OF assms(1)] by simp
  let ?h = "\<lambda>n st. bind_go (DistributeDataBlock E (BlockToGrpcDataBlock b) st) (\<lambda>(info, st'). Inr (False, st'))"
  have "\<exists>s. ?h n (w (node_address n)) = Inr (False, s) \<and> Q n s" if "n \<in> set nodes" "\<not> is_me me n" for n
    using assms(3) [OF that] by auto
  from call_all_each [where h = ?h and w = w and Q = Q, OF assms(2) this]
  obtain w' where "call_all (is_me me) ?h nodes w = (None, w')"
    "\<forall>n \<in> set nodes. \<not> is_me me n \<longrightarrow> Q n (w' (node_address n))"
    "\<forall>a. a \<notin> node_address ` {n \<in> set nodes. \<not> is_me me n} \<longrightarrow> w' a = w a" by blast
  then show ?thesis using q' sz
    by (intro exI [of _ q'] exI [of _ w']) (simp add: DataBlockDistribute_round_def)
qed

lemma distribute_reaches_all:
  assumes "bq_rep q (b # bl)" and "distinct (map node_address nodes)"
    and "\<And>n. n \<in> set nodes \<Longrightarrow> \<not> is_me me n \<Longrightarrow> can_receive E b (w (node_address n)) (bs n) (xs n) (M n) (hs n)"
    and "CheckDataBlock (e_hashes E) (stripped b) = Inr ok"
  shows "\<exists>q' w'. DataBlockDistribute_round E me nodes (q, w) = (None, q', w') \<and> bq_rep q' bl
    \<and> (\<forall>n \<in> set nodes. \<not> is_me me n \<longrightarrow>
         received E b (w (node_address n)) (w' (node_address n)) (bs n) (xs n) (M n) (hs n))
    \<and> (\<forall>a. a \<notin> node_address ` {n \<in> set nodes. \<not> is_me me n} \<longrightarrow> w' a = w a)"
proof -
  have "\<exists>info s. DistributeDataBlock E (BlockToGrpcDataBlock b) (w (node_address n)) = Inr (info, s)
      \<and> received E b (w (node_address n)) s (bs n) (xs n) (M n) (hs n)" if "n \<in> set nodes" "\<not> is_me me n" for n
    using DistributeDataBlock_received [OF assms(3) [OF that] assms(4)] by blast
  from distribute_step [where E = E and w = w and me = me, OF assms(1,2) this] show ?thesis .
qed

text \<open>
  One round of the distribution loop takes the oldest block off the hand-over queue and, if every
  other node can receive it and its check does not panic, hands it to all of them: whether the check
  accepts the block or not, each node has it on
  its chain, has its transactions out of the pool and in the logs of its tables; no other node has
  changed.
\<close>

theorem block_reaches_all:
  assumes "bq_rep q (b # bl)" and "distinct (map node_address nodes)"
    and "\<And>n. n \<in> set nodes \<Longrightarrow> \<not> is_me me n \<Longrightarrow> can_receive E b (w (node_address n)) (bs n) (xs n) (M n) (hs n)"
    and "CheckDataBlock (e_hashes E) (stripped b) = Inr ok"
  shows "\<exists>q' w'. DataBlockDistribute_round E me nodes (q, w) = (None, q', w') \<and> bq_rep q' bl
    \<and> (\<forall>n \<in> set nodes. \<not> is_me me n \<longrightarrow>
         received E b (w (node_address n)) (w' (node_address n)) (bs n) (xs n) (M n) (hs n))
    \<and> (\<forall>a. a \<notin> node_address ` {n \<in> set nodes. \<not> is_me me n} \<longrightarrow> w' a = w a)"
  using assms by (rule distribute_reaches_all)

theorem block_reaches_all_witness:
  "\<exists>q' w'. DataBlockDistribute_round unsigned_env (''a'', 3301) two_nodes
      (Put unsigned_block (bq_Init NewBlock), \<lambda>_. toy_node) = (None, q', w')
    \<and> data_rep map_bolt (e_block unsigned_env) (a_chain (nd_alg (w' (''b'', 3301)))) (unsigned_block # tl toy_blocks)"
proof -
  have d: "distinct (map node_address two_nodes)" by (simp add: two_nodes_def node_address_def)
  have q: "bq_rep (Put unsigned_block (bq_Init NewBlock)) [unsigned_block]"
    using block_queue.rep_put [OF bq_rep_Init, of unsigned_block NewBlock] by simp
  have c: "CheckDataBlock (e_hashes unsigned_env) (stripped unsigned_block) = Inr False"
    by (simp add: CheckDataBlock_def genesis_parent_def VerifyTransaction_def Let_def restore_key_def toy_crypto_def
        wit_tx_def zero_tx_def SetDataID_def numeral_2_eq_2)
  from block_reaches_all [OF q d _ c, of "(''a'', 3301)" "\<lambda>_. toy_node" "\<lambda>_. tl toy_blocks" "\<lambda>_. []"
      "\<lambda>_. {''tab''}" "\<lambda>_ _. [''c'']"] unsigned_can_receive
  obtain q' w' where r: "DataBlockDistribute_round unsigned_env (''a'', 3301) two_nodes
      (Put unsigned_block (bq_Init NewBlock), \<lambda>_. toy_node) = (None, q', w')"
    "\<forall>n \<in> set two_nodes. \<not> is_me (''a'', 3301) n \<longrightarrow> received unsigned_env unsigned_block toy_node
      (w' (node_address n)) (tl toy_blocks) [] {''tab''} (\<lambda>_. [''c''])" by blast
  have "received unsigned_env unsigned_block toy_node (w' (''b'', 3301)) (tl toy_blocks) [] {''tab''} (\<lambda>_. [''c''])"
    using r(2) by (simp add: two_nodes_def node_address_def is_me_def)
  then show ?thesis using r(1) by (intro exI [of _ q'] exI [of _ w']) (simp add: received_def)
qed

section \<open>Catching up with the book-keeper\<close>

definition logs_after :: "block list \<Rightarrow> (string \<Rightarrow> bytes list) \<Rightarrow> string \<Rightarrow> bytes list" where
  "logs_after bs hs m =
     foldl (\<lambda>h b. if m \<in> Table ` set (Transactions b) then log_append h (CurrentBlockHash b) else h) (hs m) bs"

lemma logs_after_Cons:
  "logs_after (b # bs) hs =
     logs_after bs (\<lambda>m. if m \<in> Table ` set (Transactions b) then log_append (hs m) (CurrentBlockHash b) else hs m)"
  by (simp add: logs_after_def fun_eq_iff)

lemma length_log_append: "length (log_append hs h) \<le> Suc (length hs)"
  by (simp add: log_append_def)

text \<open>What a chain must satisfy to take over a block that follows later.\<close>

definition can_store :: "'db alg_env \<Rightarrow> 'db data_chain \<Rightarrow> block \<Rightarrow> bool" where
  "can_store E ch b \<longleftrightarrow> decode (e_block E) (encode (e_block E) b) = Some b \<and> encode (e_block E) b \<noteq> []
     \<and> storable (CurrentBlockHash b) (encode (e_block E) b) \<and> storable (LastHashKey ch) (CurrentBlockHash b)
     \<and> CurrentBlockHash b \<noteq> LastHashKey ch \<and> CurrentBlockHash b \<noteq> ''root''
     \<and> length (CurrentBlockHash b) \<le> 2147483646
     \<and> bolt_get (e_bolt E) (Db ch) (BlockBucket ch) (CurrentBlockHash b) = []"

text \<open>Data blocks leave the table chain and the permissions alone; in its file they touch the logs of \<open>M\<close>.\<close>

definition only_logs :: "'db alg_env \<Rightarrow> string set \<Rightarrow> 'db node_state \<Rightarrow> 'db node_state \<Rightarrow> bool" where
  "only_logs E M st st' \<longleftrightarrow> nd_tables st' = (nd_tables st)\<lparr>Db := Db (nd_tables st')\<rparr>
     \<and> tableInfo (nd_cache st') = tableInfo (nd_cache st)
     \<and> has_bucket (e_bolt E) (Db (nd_tables st')) = has_bucket (e_bolt E) (Db (nd_tables st))
     \<and> (\<forall>m. m \<notin> M \<longrightarrow> bolt_get (e_bolt E) (Db (nd_tables st')) m = bolt_get (e_bolt E) (Db (nd_tables st)) m)"

lemma only_logs_trans: "only_logs E M st st1 \<Longrightarrow> only_logs E M st1 st2 \<Longrightarrow> only_logs E M st st2"
  by (auto simp: only_logs_def) (metis chain.surjective chain.update_convs(1))

lemma add_synced_all:
  assumes "data_rep (e_bolt E) (e_block E) (a_chain (nd_alg st)) bs"
    and "linked_up CurrentBlockHash PreviousBlockHash (TailHash (a_chain (nd_alg st))) ns" and "distinct (map CurrentBlockHash ns)"
    and "\<And>n. n \<in> set ns \<Longrightarrow> can_store E (a_chain (nd_alg st)) (stripped n)"
    and "\<And>n. n \<in> set ns \<Longrightarrow> Table ` set (Transactions n) \<subseteq> M"
    and "\<And>m. m \<in> M \<Longrightarrow> log_rep (e_bolt E) (Db (nd_tables st)) m (hs m)"
    and "\<And>m. m \<in> M \<Longrightarrow> length (hs m) + length ns < 2 ^ 64 - 1"
  shows "\<exists>st'. fold_go (add_synced E) st (map BlockToGrpcDataBlock ns) = Inr st'
    \<and> data_rep (e_bolt E) (e_block E) (a_chain (nd_alg st')) (rev (map stripped ns) @ bs)
    \<and> (\<forall>m \<in> M. log_rep (e_bolt E) (Db (nd_tables st')) m (logs_after ns hs m))
    \<and> only_logs E M st st'"
  using assms
proof (induction ns arbitrary: st bs hs)
  case Nil
  then show ?case by (simp add: logs_after_def only_logs_def)
next
  case (Cons n ns)
  let ?B = "e_bolt E" and ?cd = "e_block E" and ?ch = "a_chain (nd_alg st)"
  have laws: "bolt_laws ?B" using Cons.prems(1) by (simp add: data_rep_def chain_rep_def)
  have cs: "can_store E ?ch (stripped n)" using Cons.prems(4) by simp
  then have ok: "data_ok ?B ?cd ?ch (stripped n)"
    using Cons.prems(2) by (simp add: data_ok_def block_ok_def can_store_def)
  obtain ch where ch: "AddBlockToChain ?B ?cd (stripped n) ?ch = Inr ch" "data_rep ?B ?cd ch (stripped n # bs)"
    using data_store.add_rep [OF Cons.prems(1) ok] by auto
  note oth = add_block_other [OF ch(1) [unfolded AddBlockToChain_def] laws]
  let ?hs = "\<lambda>m. if m \<in> Table ` set (Transactions n) then log_append (hs m) (CurrentBlockHash n) else hs m"
  have "\<exists>db'. upDateByData ?B (stripped n) (Db (nd_tables st)) = Inr db' \<and> (\<forall>m \<in> M. log_rep ?B db' m
      (if m \<in> Table ` set (Transactions (stripped n)) then log_append (hs m) (CurrentBlockHash (stripped n)) else hs m))"
  proof (rule data_block_logged)
    show "Suc (length (hs m)) < 2 ^ 64 - 1" if "m \<in> M" for m using Cons.prems(7) [OF that] by simp
  qed (use Cons.prems(5,6) cs in \<open>simp_all add: can_store_def\<close>)
  then obtain db where db: "upDateByData ?B (stripped n) (Db (nd_tables st)) = Inr db" "\<forall>m \<in> M. log_rep ?B db m (?hs m)"
    unfolding stripped_fields by blast
  let ?st = "st\<lparr>nd_alg := (nd_alg st)\<lparr>a_chain := ch\<rparr>, nd_cache := (nd_cache st)\<lparr>lru3Query :=
    updateDataCache (stripped n) (lru3Query (nd_cache st))\<rparr>, nd_tables := (nd_tables st)\<lparr>Db := db\<rparr>\<rparr>"
  have "Table ` set (Transactions (stripped n)) \<subseteq> M" using Cons.prems(5) by simp
  then have "m \<notin> M \<Longrightarrow> m \<notin> Table ` set (Transactions (stripped n))" for m by blast
  with upDateByData_other [OF laws db(1)] have one: "only_logs E M st ?st" by (simp add: only_logs_def)
  have step: "add_synced E st (BlockToGrpcDataBlock n) = Inr ?st"
    using ch(1) db(1) by (simp add: add_synced_def UpdateByDataBlock_def Let_def)
  have "\<exists>st'. fold_go (add_synced E) ?st (map BlockToGrpcDataBlock ns) = Inr st'
    \<and> data_rep ?B ?cd (a_chain (nd_alg st')) (rev (map stripped ns) @ stripped n # bs)
    \<and> (\<forall>m \<in> M. log_rep ?B (Db (nd_tables st')) m (logs_after ns ?hs m))
    \<and> only_logs E M ?st st'"
  proof (rule Cons.IH)
    show "linked_up CurrentBlockHash PreviousBlockHash (TailHash (a_chain (nd_alg ?st))) ns" using Cons.prems(2) oth(3) by simp
    show "can_store E (a_chain (nd_alg ?st)) (stripped k)" if k: "k \<in> set ns" for k
    proof -
      have "can_store E ?ch (stripped k)" using Cons.prems(4) k by simp
      moreover have "CurrentBlockHash n \<notin> CurrentBlockHash ` set ns" using Cons.prems(3) by simp
      then have "CurrentBlockHash k \<noteq> CurrentBlockHash n" using k by (metis imageI)
      ultimately show ?thesis using oth(1,2) oth(5) [of "CurrentBlockHash k"] by (simp add: can_store_def)
    qed
    show "length (?hs m) + length ns < 2 ^ 64 - 1" if "m \<in> M" for m
      using Cons.prems(7) [OF that] length_log_append [of "hs m" "CurrentBlockHash n"] by simp
  qed (use Cons.prems(3,5) ch(2) db(2) in \<open>simp_all\<close>)
  then obtain st' where "fold_go (add_synced E) ?st (map BlockToGrpcDataBlock ns) = Inr st'"
    "data_rep ?B ?cd (a_chain (nd_alg st')) (rev (map stripped ns) @ stripped n # bs)"
    "\<forall>m \<in> M. log_rep ?B (Db (nd_tables st')) m (logs_after (n # ns) hs m)" "only_logs E M ?st st'"
    unfolding logs_after_Cons by blast
  then show ?case using step only_logs_trans [OF one] by (intro exI [of _ st']) simp
qed

lemma data_sync_follows:
  assumes "data_rep (e_bolt E) (e_block E) (a_chain (nd_alg sv)) (news @ b # olds)"
    and "data_rep (e_bolt E) (e_block E) (a_chain (nd_alg st)) (c # cs)" and "CurrentBlockHash c = CurrentBlockHash b"
    and "filter Account nodes = [n]"
    and "ask n (CurrentBlockHash b) = (case serve_DataBlocks E (CurrentBlockHash b) sv of Some (Inr ms) \<Rightarrow> Some ms | _ \<Rightarrow> None)"
    and "\<And>x. x \<in> set news \<Longrightarrow> can_store E (a_chain (nd_alg st)) (stripped x) \<and> Table ` set (Transactions x) \<subseteq> M"
    and "\<And>m. m \<in> M \<Longrightarrow> log_rep (e_bolt E) (Db (nd_tables st)) m (hs m) \<and> length (hs m) + length news < 2 ^ 64 - 1"
  shows "\<exists>st'. DataBlockSynchronization E ask nodes st = Inr st'
    \<and> data_rep (e_bolt E) (e_block E) (a_chain (nd_alg st')) (map stripped news @ c # cs)
    \<and> TailHash (a_chain (nd_alg st')) = TailHash (a_chain (nd_alg sv))
    \<and> (\<forall>m \<in> M. log_rep (e_bolt E) (Db (nd_tables st')) m (logs_after (rev news) hs m))
    \<and> only_logs E M st st'"
proof -
  let ?B = "e_bolt E" and ?cd = "e_block E"
  note srv = assms(1) [unfolded data_rep_def chain_rep_def]
  have tail: "TailHash (a_chain (nd_alg st)) = CurrentBlockHash b"
    using data_store.tail_hd [OF assms(2)] assms(3) by simp
  have "\<exists>st'. fold_go (add_synced E) st (map BlockToGrpcDataBlock (rev news)) = Inr st'
    \<and> data_rep ?B ?cd (a_chain (nd_alg st')) (rev (map stripped (rev news)) @ c # cs)
    \<and> (\<forall>m \<in> M. log_rep ?B (Db (nd_tables st')) m (logs_after (rev news) hs m)) \<and> only_logs E M st st'"
  proof (rule add_synced_all [OF assms(2)])
    show "linked_up CurrentBlockHash PreviousBlockHash (TailHash (a_chain (nd_alg st))) (rev news)"
      unfolding tail by (rule stored_linked_up) (use srv in auto)
    show "distinct (map CurrentBlockHash (rev news))" using srv by (simp flip: rev_map)
  qed (use assms(6,7) in auto)
  then obtain st' where st': "fold_go (add_synced E) st (rev (map BlockToGrpcDataBlock news)) = Inr st'"
    "data_rep ?B ?cd (a_chain (nd_alg st')) (map stripped news @ c # cs)"
    "\<forall>m \<in> M. log_rep ?B (Db (nd_tables st')) m (logs_after (rev news) hs m)" "only_logs E M st st'" by (auto simp: rev_map)
  have a: "ask n (CurrentBlockHash b) = Some (map BlockToGrpcDataBlock news)"
    using assms(5) serve_DataBlocks_missing [OF assms(1)] by simp
  have "DataBlockSynchronization E ask nodes st = Inr st'"
    using data_store.lookup_tail [OF assms(2)] assms(3,4) a st'(1)
    by (simp add: DataBlockSynchronization_def fold_go_filter)
  moreover have "TailHash (a_chain (nd_alg st')) = TailHash (a_chain (nd_alg sv))"
  proof (cases news)
    case Nil
    then show ?thesis using data_store.tail_hd [of ?B ?cd _ c cs] data_store.tail_hd [of ?B ?cd _ b olds] assms(1,3) st'(2)
      by simp
  next
    case (Cons y ys)
    then show ?thesis using data_store.tail_hd [of ?B ?cd _ "stripped y"] data_store.tail_hd [of ?B ?cd _ y] assms(1) st'(2)
      by fastforce
  qed
  ultimately show ?thesis using st'(2-4) by blast
qed

text \<open>
  C14. Catching up: if the cluster file marks one node as book-keeper and that node's chain contains
  the tail of the own chain, synchronization adds exactly the missing blocks, in order (stripped
  of what messages do not carry), so both chains have the same tail hash afterwards, and the logs
  of the tables record every block added.
\<close>

theorem sync_catches_up:
  assumes "data_rep (e_bolt E) (e_block E) (a_chain (nd_alg sv)) (news @ b # olds)"
    and "data_rep (e_bolt E) (e_block E) (a_chain (nd_alg st)) (c # cs)" and "CurrentBlockHash c = CurrentBlockHash b"
    and "filter Account nodes = [n]"
    and "ask n (CurrentBlockHash b) = (case serve_DataBlocks E (CurrentBlockHash b) sv of Some (Inr ms) \<Rightarrow> Some ms | _ \<Rightarrow> None)"
    and "\<And>x. x \<in> set news \<Longrightarrow> can_store E (a_chain (nd_alg st)) (stripped x) \<and> Table ` set (Transactions x) \<subseteq> M"
    and "\<And>m. m \<in> M \<Longrightarrow> log_rep (e_bolt E) (Db (nd_tables st)) m (hs m) \<and> length (hs m) + length news < 2 ^ 64 - 1"
  shows "\<exists>st'. DataBlockSynchronization E ask nodes st = Inr st'
    \<and> data_rep (e_bolt E) (e_block E) (a_chain (nd_alg st')) (map stripped news @ c # cs)
    \<and> TailHash (a_chain (nd_alg st')) = TailHash (a_chain (nd_alg sv))
    \<and> (\<forall>m \<in> M. log_rep (e_bolt E) (Db (nd_tables st')) m (logs_after (rev news) hs m))"
  using data_sync_follows [where ask = ask and hs = hs, OF assms] by blast

text \<open>A node that has only the genesis block, for the witness.\<close>

definition late_chain :: "mapdb data_chain" where
  "late_chain = (new_data_chain map_bolt)\<lparr>TailHash := ''a'',
     Db := [''blockBucket'' \<mapsto> [''a'' \<mapsto> ''a'', ''lastHashKey'' \<mapsto> ''a'']]\<rparr>"

definition late_node :: "mapdb node_state" where
  "late_node = toy_node\<lparr>nd_alg := toy_state\<lparr>a_chain := late_chain\<rparr>\<rparr>"

lemma late_chain_simps: "TailHash late_chain = ''a''" "BlockBucket late_chain = ''blockBucket''"
  "LastHashKey late_chain = ''lastHashKey''" "has_bucket map_bolt (Db late_chain) b \<longleftrightarrow> b = ''blockBucket''"
  "bolt_get map_bolt (Db late_chain) ''blockBucket'' h = (if h = ''lastHashKey'' \<or> h = ''a'' then ''a'' else [])"
  by (simp_all add: late_chain_def new_data_chain_def map_bolt_def)

lemma late_chain_serving:
  "data_rep (e_bolt unsigned_env) (e_block unsigned_env) (a_chain (nd_alg toy_node))
     ([toy_block 2 ''c'' ''b'', toy_block 1 ''b'' ''a''] @ toy_block 0 ''a'' genesis_mark # [])"
  using unsigned_chain by (simp add: toy_node_def toy_state_def toy_blocks_def)

lemma late_chain_rep: "data_rep (e_bolt unsigned_env) (e_block unsigned_env) late_chain (toy_block 0 ''a'' genesis_mark # [])"
  unfolding data_rep_def chain_rep_def
  by (simp add: late_chain_simps map_bolt_laws toy_blocks_def genesis_mark_def)

lemma late_chain_stores:
  assumes "x \<in> set [toy_block 2 ''c'' ''b'', toy_block 1 ''b'' ''a'']"
  shows "can_store unsigned_env late_chain (stripped x) \<and> Table ` set (Transactions x) \<subseteq> M"
proof -
  have s: "stripped (toy_block r h p) = toy_block r h p" for r h p
    by (simp add: stripped_def toy_block_def NewBlock_def)
  show ?thesis
    using assms by (auto simp: s can_store_def late_chain_simps storable_def toy_blocks_def)
qed

theorem sync_catches_up_witness:
  "\<exists>st'. DataBlockSynchronization unsigned_env
      (\<lambda>n h. case serve_DataBlocks unsigned_env h toy_node of Some (Inr ms) \<Rightarrow> Some ms | _ \<Rightarrow> None) two_nodes late_node = Inr st'
    \<and> TailHash (a_chain (nd_alg st')) = ''c''"
proof -
  let ?ask = "\<lambda>(n :: node) h. case serve_DataBlocks unsigned_env h toy_node of Some (Inr ms) \<Rightarrow> Some ms | _ \<Rightarrow> None"
  let ?news = "[toy_block 2 ''c'' ''b'', toy_block 1 ''b'' ''a'']" and ?a = "toy_block 0 ''a'' genesis_mark"
  have ch: "a_chain (nd_alg late_node) = late_chain" by (simp add: late_node_def)
  have f: "filter Account two_nodes = [\<lparr>IP = ''a'', Port = 3301, Account = True\<rparr>]" by (simp add: two_nodes_def)
  have "\<exists>st'. DataBlockSynchronization unsigned_env ?ask two_nodes late_node = Inr st'
    \<and> data_rep (e_bolt unsigned_env) (e_block unsigned_env) (a_chain (nd_alg st')) (map stripped ?news @ ?a # [])
    \<and> TailHash (a_chain (nd_alg st')) = TailHash (a_chain (nd_alg toy_node))
    \<and> (\<forall>m \<in> {}. log_rep (e_bolt unsigned_env) (Db (nd_tables st')) m (logs_after (rev ?news) (\<lambda>_. []) m))"
    by (rule sync_catches_up [where ask = ?ask and news = ?news and b = ?a and olds = "[]" and c = ?a and cs = "[]"])
       (((unfold ch)?, rule late_chain_serving late_chain_rep refl f late_chain_stores; assumption?) | simp)+
  then show ?thesis by (auto simp: toy_node_def toy_state_def)
qed

section \<open>Joining\<close>

text \<open>
  Joining through a node whose cluster file is up to date: with the right key the joining node
  ends with the same cluster as the entry node, itself included, in memory and in its file; with a
  key that hashes to another value it panics.
\<close>

theorem join_to_cluster:
  assumes "SaveClusterFile C st0 = Inr entry" and "LocalNode st0 = clu" and "JoinKey clu = cl_sha256 C key"
    and "dec_cluster C (enc_cluster C clu) = Some clu"
    and "clu' = clu\<lparr>Nodes := Nodes clu @ [\<lparr>IP = local_ip C, Port = port, Account = False\<rparr>]\<rparr>"
    and "dec_cluster C (enc_cluster C clu') = Some clu'"
    and "- (2 ^ 63) \<le> port" and "port < 2 ^ 63" and "Itoa port \<notin> IP ` set (Nodes clu)"
    and "\<And>entry own content. ClusterInfo entry = Some content \<Longrightarrow>
      client entry own = return_run (True, own\<lparr>ClusterInfo := Some content\<rparr>)"
  shows "(\<exists>own' entry'. JoinToCluster C client port key entry own = return_run ((False, own'), entry')
      \<and> LocalNode own' = clu' \<and> LocalNode entry' = clu' \<and> ClusterInfo own' = ClusterInfo entry')
    \<and> (\<forall>k. cl_sha256 C k \<noteq> JoinKey clu \<longrightarrow> JoinToCluster C client port k entry own = panic_run LogPanic)"
proof -
  note m = JoinCluster_member [OF assms(1,2,4-9)]
  from m obtain e where e: "JoinCluster C (local_ip C) (Itoa port) (JoinKey clu) entry = Inr (Joined, e)" "LocalNode e = clu'"
    "LoadClusterFile C e = Inr (Some clu', e)" by auto
  then obtain content where c: "ClusterInfo e = Some content" by (cases "ClusterInfo e") (auto simp: LoadClusterFile_def)
  have "LoadClusterFile C (own\<lparr>ClusterInfo := Some content\<rparr>) = Inr (Some clu', own\<lparr>ClusterInfo := Some content, LocalNode := clu'\<rparr>)"
    using e(3) c by (auto simp: LoadClusterFile_def bind_go_Inr_iff split: option.splits)
  then have "JoinToCluster C client port key entry own = return_run ((False, own\<lparr>ClusterInfo := Some content, LocalNode := clu'\<rparr>), e)"
    using e(1) c assms(3) assms(10) [OF c] by (simp add: JoinToCluster_def)
  moreover have "JoinToCluster C client port k entry own = panic_run LogPanic" if "cl_sha256 C k \<noteq> JoinKey clu" for k
    using m that by (simp add: JoinToCluster_def)
  ultimately show ?thesis using e(2) c by auto
qed

text \<open>
  The broadcast after joining: every node but the joining one and its entry node is sent its own
  address. It appends itself to its cluster a second time, and the address of the joining node is
  in no cluster that did not have it before.
\<close>

theorem broadcast_repeats_receiver:
  assumes "distinct (map node_address nodes)" and "\<And>n. n \<in> set nodes \<Longrightarrow> - (2 ^ 63) \<le> Port n \<and> Port n < 2 ^ 63"
  shows "\<exists>w'. BroadCast C me entry nodes w = (None, w')
    \<and> (\<forall>n \<in> set nodes. \<not> is_me me n \<longrightarrow> \<not> is_me entry n \<longrightarrow>
        Nodes (LocalNode (w' (node_address n))) =
          Nodes (LocalNode (w (node_address n))) @ [\<lparr>IP = IP n, Port = Port n, Account = False\<rparr>])
    \<and> (\<forall>a. me \<notin> node_address ` set (Nodes (LocalNode (w a))) \<longrightarrow> me \<notin> node_address ` set (Nodes (LocalNode (w' a))))"
proof -
  let ?h = "\<lambda>n st. bind_go (BroadcastNode C (IP n) (Itoa (Port n)) st) (\<lambda>(r, st'). Inr (r \<noteq> Joined, st'))"
  let ?skip = "\<lambda>n. is_me me n \<or> is_me entry n"
  let ?new = "\<lambda>n. \<lparr>IP = IP n, Port = Port n, Account = False\<rparr>"
  have "\<exists>st'. ?h n (w (node_address n)) = Inr (False, st')
      \<and> Nodes (LocalNode st') = Nodes (LocalNode (w (node_address n))) @ [?new n]" if "n \<in> set nodes" for n
    using Atoi_Itoa [of "Port n"] assms(2) [OF that]
    by (simp add: BroadcastNode_def AddNodeToClusterFile_def SaveClusterFile_eq)
  from call_all_each [OF assms(1), of ?skip ?h w, OF this] obtain w' where w': "call_all ?skip ?h nodes w = (None, w')"
    "\<forall>n \<in> set nodes. \<not> ?skip n \<longrightarrow>
       Nodes (LocalNode (w' (node_address n))) = Nodes (LocalNode (w (node_address n))) @ [?new n]"
    "\<forall>a. a \<notin> node_address ` {n \<in> set nodes. \<not> ?skip n} \<longrightarrow> w' a = w a"
    by blast
  have "me \<notin> node_address ` set (Nodes (LocalNode (w' a)))" if a: "me \<notin> node_address ` set (Nodes (LocalNode (w a)))" for a
  proof (cases "a \<in> node_address ` {n \<in> set nodes. \<not> ?skip n}")
    case True
    then obtain n where n: "a = node_address n" "n \<in> set nodes" "\<not> ?skip n" by blast
    have "Nodes (LocalNode (w' a)) = Nodes (LocalNode (w a)) @ [?new n]" using w'(2) n by simp
    moreover have "me \<noteq> node_address (?new n)" using n(3) by (auto simp: is_me_def node_address_def)
    ultimately show ?thesis using a by auto
  next
    case False
    then have "w' a = w a" by (rule w'(3) [rule_format])
    then show ?thesis using a by simp
  qed
  then show ?thesis using w'(1,2) by (intro exI [of _ w']) (simp add: BroadCast_def)
qed

text \<open>A transfer whose bytes arrive in one piece.\<close>

definition toy_fetch :: "cluster_state \<Rightarrow> cluster_state \<Rightarrow> (bool \<times> cluster_state) run" where
  "toy_fetch = fetch_file (\<lambda>_. 4096) (\<lambda>wire. [GotLast wire])"

lemma toy_fetch_exact:
  "ClusterInfo entry = Some content \<Longrightarrow> toy_fetch entry own = return_run (True, own\<lparr>ClusterInfo := Some content\<rparr>)"
  unfolding toy_fetch_def by (rule fetch_file_exact) (auto intro!: exI [of _ "[]"])

theorem join_to_cluster_witness:
  "\<exists>entry own' entry'. JoinToCluster (toy_cluster_env\<lparr>local_ip := ''b''\<rparr>) toy_fetch 3301 ''k'' entry
      \<lparr>LocalNode = \<lparr>Nodes = [], JoinKey = []\<rparr>, ClusterInfo = None\<rparr> = return_run ((False, own'), entry')
    \<and> length (Nodes (LocalNode own')) = 2"
proof -
  let ?C = "toy_cluster_env\<lparr>local_ip := ''b''\<rparr>"
  let ?c = "\<lparr>Nodes = [\<lparr>IP = ''a'', Port = 3301, Account = False\<rparr>], JoinKey = ''k''\<rparr>"
  let ?c' = "?c\<lparr>Nodes := Nodes ?c @ [\<lparr>IP = local_ip ?C, Port = 3301, Account = False\<rparr>]\<rparr>"
  let ?own = "\<lparr>LocalNode = \<lparr>Nodes = [], JoinKey = []\<rparr>, ClusterInfo = None\<rparr>"
  obtain st where st: "SaveClusterFile ?C \<lparr>LocalNode = ?c, ClusterInfo = None\<rparr> = Inr st" by (simp add: SaveClusterFile_eq)
  have "(\<exists>own' entry'. JoinToCluster ?C toy_fetch 3301 ''k'' st ?own = return_run ((False, own'), entry')
      \<and> LocalNode own' = ?c' \<and> LocalNode entry' = ?c' \<and> ClusterInfo own' = ClusterInfo entry')
    \<and> (\<forall>k. cl_sha256 ?C k \<noteq> JoinKey ?c \<longrightarrow> JoinToCluster ?C toy_fetch 3301 k st ?own = panic_run LogPanic)"
  proof (rule join_to_cluster [OF st])
    show "Itoa 3301 \<notin> IP ` set (Nodes ?c)" by (simp add: Itoa_def digits.simps)
    show "toy_fetch entry own = return_run (True, own\<lparr>ClusterInfo := Some content\<rparr>)" if "ClusterInfo entry = Some content"
      for entry own content using that by (rule toy_fetch_exact)
  qed (simp_all add: toy_cluster_env_def)
  then obtain own' entry' where "JoinToCluster ?C toy_fetch 3301 ''k'' st ?own = return_run ((False, own'), entry')"
    "LocalNode own' = ?c'" by blast
  then show ?thesis by (intro exI [of _ st] exI [of _ own'] exI [of _ entry']) simp
qed

theorem broadcast_repeats_receiver_witness:
  "\<exists>w'. BroadCast toy_cluster_env (''c'', 3301) (''a'', 3301) two_nodes
      (\<lambda>_. \<lparr>LocalNode = \<lparr>Nodes = two_nodes, JoinKey = []\<rparr>, ClusterInfo = None\<rparr>) = (None, w')
    \<and> map IP (Nodes (LocalNode (w' (''b'', 3301)))) = [''a'', ''b'', ''b'']"
proof -
  have d: "distinct (map node_address two_nodes)" by (simp add: two_nodes_def node_address_def)
  have pt: "- (2 ^ 63) \<le> Port n \<and> Port n < 2 ^ 63" if "n \<in> set two_nodes" for n
    using that by (auto simp: two_nodes_def)
  from broadcast_repeats_receiver [OF d pt, of toy_cluster_env "(''c'', 3301)" "(''a'', 3301)"
      "\<lambda>_. \<lparr>LocalNode = \<lparr>Nodes = two_nodes, JoinKey = []\<rparr>, ClusterInfo = None\<rparr>"]
  obtain w' where w': "BroadCast toy_cluster_env (''c'', 3301) (''a'', 3301) two_nodes
      (\<lambda>_. \<lparr>LocalNode = \<lparr>Nodes = two_nodes, JoinKey = []\<rparr>, ClusterInfo = None\<rparr>) = (None, w')"
    "\<forall>n \<in> set two_nodes. \<not> is_me (''c'', 3301) n \<longrightarrow> \<not> is_me (''a'', 3301) n \<longrightarrow>
      Nodes (LocalNode (w' (node_address n))) = two_nodes @ [\<lparr>IP = IP n, Port = Port n, Account = False\<rparr>]"
    by (simp only: cluster_state.select_convs cluster.select_convs) blast
  have "Nodes (LocalNode (w' (''b'', 3301))) = two_nodes @ [\<lparr>IP = ''b'', Port = 3301, Account = False\<rparr>]"
    using w'(2) by (simp add: two_nodes_def is_me_def node_address_def)
  then show ?thesis using w'(1) by (intro exI [of _ w']) (simp add: two_nodes_def)
qed

end
