(* ===== verification/User_Manage.thy ===== *)
theory User_Manage
  imports Data_Block
begin

text \<open>
  \<open>userManage/userManage.go\<close>: the accounts of a node. Registering writes an account to a file named
  after the user, signing in reads it back and keeps it in a map from session identifiers
  (user name, separator, password) to accounts. The operations run under the module's lock.
  Key generation, SHA-256, RIPEMD-160, base 58 and gob are parameters; decoding takes the value it
  decodes into. Paths where the file system reports another error than "not found" are \<open>odd_path\<close>.
\<close>

section \<open>State\<close>

record account =
  ac_UserName :: string
  ac_Password :: string
  ac_PublicKey :: bytes
  ac_PrivateKey :: nat
  ac_Address :: string

definition zero_account :: account where
  "zero_account = \<lparr>ac_UserName = [], ac_Password = [], ac_PublicKey = [], ac_PrivateKey = 0, ac_Address = []\<rparr>"

record user_env =
  gen_key :: "bytes \<Rightarrow> (nat \<times> nat \<times> nat) option"
  u_sha256 :: "bytes \<Rightarrow> bytes"
  ripemd160 :: "bytes \<Rightarrow> bytes"
  base58 :: "bytes \<Rightarrow> string"
  enc_account :: "account \<Rightarrow> bytes option"
  dec_account :: "account \<Rightarrow> bytes \<Rightarrow> account option"
  odd_path :: "string \<Rightarrow> bool"

record user_state =
  EffectiveUser :: "string \<rightharpoonup> account"
  UserFilesPath :: string
  user_files :: "string \<rightharpoonup> bytes"

datatype user_error = UserRegistered | UserUnknown | PasswordWrong | UserSignedIn | NotSignedIn
  | KeyFailed | EncodeFailed | WriteFailed | ReadFailed | DecodeFailed

definition um_Init :: "user_state \<Rightarrow> user_state" where
  "um_Init st = st\<lparr>EffectiveUser := Map.empty, UserFilesPath := ''userManage/user_files/''\<rparr>"

definition account_file :: "user_state \<Rightarrow> string \<Rightarrow> string" where
  "account_file st username = UserFilesPath st @ username @ ''.act''"

definition IsExistFile :: "user_env \<Rightarrow> string \<Rightarrow> user_state \<Rightarrow> bool" where
  "IsExistFile U path st \<longleftrightarrow> user_files st path \<noteq> None \<or> odd_path U path"

section \<open>Addresses\<close>

definition checkSum :: "user_env \<Rightarrow> bytes \<Rightarrow> bytes" where
  "checkSum U payload = take 4 (u_sha256 U (u_sha256 U payload))"

definition hashPublicKey :: "user_env \<Rightarrow> bytes \<Rightarrow> bytes" where
  "hashPublicKey U publicKey = ripemd160 U (u_sha256 U publicKey)"

definition calculateAddress :: "user_env \<Rightarrow> bytes \<Rightarrow> string" where
  "calculateAddress U publicKey =
     (let payload = CHR 0x00 # hashPublicKey U publicKey in base58 U (payload @ checkSum U payload))"

section \<open>Operations\<close>

definition Check :: "string \<Rightarrow> user_state \<Rightarrow> user_error + account" where
  "Check UID st = (case EffectiveUser st UID of Some a \<Rightarrow> Inr a | None \<Rightarrow> Inl NotSignedIn)"

definition SaveAccount2File :: "user_env \<Rightarrow> account \<Rightarrow> user_state \<Rightarrow> user_error option \<times> user_state" where
  "SaveAccount2File U a st =
     (case enc_account U a of
        None \<Rightarrow> (Some EncodeFailed, st)
      | Some content \<Rightarrow>
          let path = account_file st (ac_UserName a) in
          if odd_path U path then (Some WriteFailed, st)
          else (None, st\<lparr>user_files := (user_files st)(path \<mapsto> content)\<rparr>))"

definition LoadAccount2File :: "user_env \<Rightarrow> account \<Rightarrow> user_state \<Rightarrow> user_error + account" where
  "LoadAccount2File U a st =
     (let path = account_file st (ac_UserName a) in
      if \<not> IsExistFile U path st then Inl UserUnknown
      else case user_files st path of
             None \<Rightarrow> Inl ReadFailed
           | Some content \<Rightarrow> (case dec_account U a content of None \<Rightarrow> Inl DecodeFailed | Some a' \<Rightarrow> Inr a'))"

definition new_account :: "user_env \<Rightarrow> string \<Rightarrow> string \<Rightarrow> nat \<times> nat \<times> nat \<Rightarrow> account" where
  "new_account U username password key =
     (case key of (d, x, y) \<Rightarrow>
        let publicKey = big_bytes x @ big_bytes y in
        \<lparr>ac_UserName = username, ac_Password = password, ac_PublicKey = publicKey, ac_PrivateKey = d,
         ac_Address = calculateAddress U publicKey\<rparr>)"

definition Register :: "user_env \<Rightarrow> bytes \<Rightarrow> string \<Rightarrow> string \<Rightarrow> user_state \<Rightarrow> user_error option \<times> user_state" where
  "Register U rnd username password st =
     (if IsExistFile U (account_file st username) st then (Some UserRegistered, st)
      else case gen_key U rnd of
             None \<Rightarrow> (Some KeyFailed, st)
           | Some key \<Rightarrow> SaveAccount2File U (new_account U username password key) st)"

definition session_id :: "string \<Rightarrow> string \<Rightarrow> string" where
  "session_id username password = username @ ''-QAQ-'' @ password"

definition SignIn :: "user_env \<Rightarrow> string \<Rightarrow> string \<Rightarrow> user_state \<Rightarrow> user_error option \<times> user_state" where
  "SignIn U username password st =
     (if \<not> IsExistFile U (account_file st username) st then (Some UserUnknown, st)
      else case LoadAccount2File U (zero_account\<lparr>ac_UserName := username\<rparr>) st of
             Inl e \<Rightarrow> (Some e, st)
           | Inr a \<Rightarrow>
               if ac_Password a \<noteq> password then (Some PasswordWrong, st)
               else if EffectiveUser st (session_id username password) \<noteq> None then (Some UserSignedIn, st)
               else (None, st\<lparr>EffectiveUser := (EffectiveUser st)(session_id username password \<mapsto> a)\<rparr>))"

definition ViewAccount :: "string \<Rightarrow> user_state \<Rightarrow> user_error + account" where
  "ViewAccount UID st = Check UID st"

text \<open>Signing out never returns an error, also if nobody was signed in.\<close>

definition SignOut :: "string \<Rightarrow> user_state \<Rightarrow> user_error option \<times> user_state" where
  "SignOut ID st =
     (case Check ID st of
        Inl e \<Rightarrow> (None, st)
      | Inr a \<Rightarrow> (None, st\<lparr>EffectiveUser := (EffectiveUser st)(ID := None)\<rparr>))"

section \<open>Sequences of operations\<close>

datatype user_op = OpRegister bytes string string | OpSignIn string string | OpSignOut string

fun user_step :: "user_env \<Rightarrow> user_op \<Rightarrow> user_state \<Rightarrow> user_state" where
  "user_step U (OpRegister rnd u p) st = snd (Register U rnd u p st)"
| "user_step U (OpSignIn u p) st = snd (SignIn U u p st)"
| "user_step U (OpSignOut i) st = snd (SignOut i st)"

definition user_run :: "user_env \<Rightarrow> user_op list \<Rightarrow> user_state \<Rightarrow> user_state" where
  "user_run U ops st = foldl (\<lambda>st op. user_step U op st) st ops"

section \<open>Invariants\<close>

text \<open>What gob gives back: an account decodes to itself over an account with its name.\<close>

definition gob_law :: "user_env \<Rightarrow> bool" where
  "gob_law U \<longleftrightarrow> (\<forall>a content. enc_account U a = Some content \<longrightarrow>
     dec_account U (zero_account\<lparr>ac_UserName := ac_UserName a\<rparr>) content = Some a)"

definition files_ok :: "user_env \<Rightarrow> user_state \<Rightarrow> bool" where
  "files_ok U st \<longleftrightarrow> (\<forall>u content. user_files st (account_file st u) = Some content \<longrightarrow>
     (\<exists>a. dec_account U (zero_account\<lparr>ac_UserName := u\<rparr>) content = Some a \<and> ac_UserName a = u))"

definition sessions_ok :: "user_env \<Rightarrow> user_state \<Rightarrow> bool" where
  "sessions_ok U st \<longleftrightarrow> (\<forall>UID a. EffectiveUser st UID = Some a \<longrightarrow>
     UID = session_id (ac_UserName a) (ac_Password a)
     \<and> (\<exists>content. user_files st (account_file st (ac_UserName a)) = Some content
          \<and> dec_account U (zero_account\<lparr>ac_UserName := ac_UserName a\<rparr>) content = Some a))"

lemma account_file_inject [simp]: "account_file st u = account_file st u' \<longleftrightarrow> u = u'"
  by (simp add: account_file_def)

lemma account_file_cong: "UserFilesPath st' = UserFilesPath st \<Longrightarrow> account_file st' u = account_file st u"
  by (simp add: account_file_def)

lemma new_account_simps [simp]: "ac_UserName (new_account U u p k) = u" "ac_Password (new_account U u p k) = p"
  by (simp_all add: new_account_def Let_def split: prod.split)

lemma SignIn_cases:
  "SignIn U u p st = (e, st') \<Longrightarrow> st' = st \<or>
     (\<exists>a content. user_files st (account_file st u) = Some content
        \<and> dec_account U (zero_account\<lparr>ac_UserName := u\<rparr>) content = Some a \<and> ac_Password a = p
        \<and> st' = st\<lparr>EffectiveUser := (EffectiveUser st)(session_id u p \<mapsto> a)\<rparr>)"
  by (auto simp: SignIn_def LoadAccount2File_def Let_def split: if_splits sum.splits option.splits)

lemma Register_cases:
  "Register U rnd u p st = (e, st') \<Longrightarrow> st' = st \<or>
     (\<exists>key content. enc_account U (new_account U u p key) = Some content \<and> user_files st (account_file st u) = None
        \<and> st' = st\<lparr>user_files := (user_files st)(account_file st u \<mapsto> content)\<rparr>)"
  by (auto simp: Register_def SaveAccount2File_def IsExistFile_def Let_def split: if_splits option.splits)

lemma user_step_files:
  "UserFilesPath (user_step U op st) = UserFilesPath st \<and>
   (user_files st path = Some c \<longrightarrow> user_files (user_step U op st) path = Some c)"
proof (cases op)
  case (OpRegister rnd u p)
  then show ?thesis using Register_cases [of U rnd u p st "fst (Register U rnd u p st)" "snd (Register U rnd u p st)"]
    by (auto simp: account_file_def)
next
  case (OpSignIn u p)
  then show ?thesis using SignIn_cases [of U u p st "fst (SignIn U u p st)" "snd (SignIn U u p st)"] by auto
next
  case (OpSignOut i)
  then show ?thesis by (simp add: SignOut_def split: sum.split)
qed

lemma user_step_ok:
  assumes "gob_law U" and "files_ok U st" and "sessions_ok U st"
  shows "files_ok U (user_step U op st) \<and> sessions_ok U (user_step U op st)"
proof (cases op)
  case (OpRegister rnd u p)
  consider "user_step U op st = st" | key content where "enc_account U (new_account U u p key) = Some content"
    "user_files st (account_file st u) = None"
    "user_step U op st = st\<lparr>user_files := (user_files st)(account_file st u \<mapsto> content)\<rparr>"
    using Register_cases [of U rnd u p st "fst (Register U rnd u p st)" "snd (Register U rnd u p st)"] OpRegister by auto
  then show ?thesis
  proof cases
    case 2
    have f: "account_file (user_step U op st) = account_file st" by (rule ext) (simp add: 2(3) account_file_def)
    have "dec_account U (zero_account\<lparr>ac_UserName := u\<rparr>) content = Some (new_account U u p key)"
      using assms(1) 2(1) by (force simp: gob_law_def)
    then show ?thesis
      using assms(2,3) 2(2) unfolding files_ok_def sessions_ok_def f by (auto simp: 2(3)) fastforce
  qed (use assms in simp)
next
  case (OpSignIn u p)
  consider "user_step U op st = st" | a content where "user_files st (account_file st u) = Some content"
    "dec_account U (zero_account\<lparr>ac_UserName := u\<rparr>) content = Some a" "ac_Password a = p"
    "user_step U op st = st\<lparr>EffectiveUser := (EffectiveUser st)(session_id u p \<mapsto> a)\<rparr>"
    using SignIn_cases [of U u p st "fst (SignIn U u p st)" "snd (SignIn U u p st)"] OpSignIn by auto
  then show ?thesis
  proof cases
    case 2
    have f: "account_file (user_step U op st) = account_file st" by (rule ext) (simp add: 2(4) account_file_def)
    have "ac_UserName a = u" using assms(2) 2(1,2) by (force simp: files_ok_def)
    then show ?thesis
      using assms(2,3) 2(1,2,3) unfolding files_ok_def sessions_ok_def f by (auto simp: 2(4))
  qed (use assms in simp)
next
  case (OpSignOut i)
  then show ?thesis
    using assms by (auto simp: SignOut_def files_ok_def sessions_ok_def account_file_def split: sum.split)
qed

lemma user_run_ok:
  "gob_law U \<Longrightarrow> files_ok U st \<Longrightarrow> sessions_ok U st \<Longrightarrow>
     files_ok U (user_run U ops st) \<and> sessions_ok U (user_run U ops st)
     \<and> UserFilesPath (user_run U ops st) = UserFilesPath st
     \<and> (user_files st path = Some c \<longrightarrow> user_files (user_run U ops st) path = Some c)"
proof (induction ops arbitrary: st)
  case Nil
  then show ?case by (simp add: user_run_def)
next
  case (Cons op ops)
  have "files_ok U (user_step U op st)" "sessions_ok U (user_step U op st)"
    using user_step_ok Cons.prems by simp_all
  from Cons.IH [OF Cons.prems(1) this] user_step_files [of U op st path c]
  show ?case by (simp add: user_run_def)
qed

section \<open>Properties\<close>


lemma SignIn_file:
  assumes "user_files st (account_file st u) = Some content"
    and "dec_account U (zero_account\<lparr>ac_UserName := u\<rparr>) content = Some a"
  shows "SignIn U u p st =
    (if ac_Password a \<noteq> p then (Some PasswordWrong, st)
     else if EffectiveUser st (session_id u p) \<noteq> None then (Some UserSignedIn, st)
     else (None, st\<lparr>EffectiveUser := (EffectiveUser st)(session_id u p \<mapsto> a)\<rparr>))"
  using assms by (simp add: SignIn_def LoadAccount2File_def IsExistFile_def Let_def)

lemma Register_fresh:
  assumes "user_files st (account_file st u) = None" and "\<not> odd_path U (account_file st u)"
    and "gen_key U rnd = Some key" and "enc_account U (new_account U u p key) = Some content"
  shows "Register U rnd u p st = (None, st\<lparr>user_files := (user_files st)(account_file st u \<mapsto> content)\<rparr>)"
  using assms by (simp add: Register_def IsExistFile_def SaveAccount2File_def Let_def)

lemma SignIn_registered:
  assumes "gob_law U" and "enc_account U (new_account U u p key) = Some content"
    and "user_files st (account_file st u) = Some content"
  shows "SignIn U u q st = (if p \<noteq> q then (Some PasswordWrong, st)
      else if EffectiveUser st (session_id u q) \<noteq> None then (Some UserSignedIn, st)
      else (None, st\<lparr>EffectiveUser := (EffectiveUser st)(session_id u q \<mapsto> new_account U u p key)\<rparr>))"
proof -
  have "dec_account U (zero_account\<lparr>ac_UserName := u\<rparr>) content = Some (new_account U u p key)"
    using assms(1,2) by (force simp: gob_law_def)
  from SignIn_file [OF assms(3) this, of q] show ?thesis by simp
qed

text \<open>
  Registering a new name on a path the file system accepts stores an account whose address is
  computed from the public key; registering it again is refused, signing in with another password
  is refused, and signing in with the right one opens the session, in which the account is seen
  until signing out.
\<close>

theorem register_sign_in:
  assumes "gob_law U" and "user_files st (account_file st u) = None" and "\<not> odd_path U (account_file st u)"
    and "gen_key U rnd = Some key" and "enc_account U (new_account U u p key) = Some content"
    and "EffectiveUser st (session_id u p) = None"
  shows "\<exists>st1 st2. Register U rnd u p st = (None, st1)
    \<and> fst (Register U rnd' u p' st1) = Some UserRegistered
    \<and> (\<forall>q. q \<noteq> p \<longrightarrow> SignIn U u q st1 = (Some PasswordWrong, st1))
    \<and> SignIn U u p st1 = (None, st2) \<and> ViewAccount (session_id u p) st2 = Inr (new_account U u p key)
    \<and> ac_Address (new_account U u p key) = calculateAddress U (ac_PublicKey (new_account U u p key))
    \<and> ViewAccount (session_id u p) (snd (SignOut (session_id u p) st2)) = Inl NotSignedIn"
proof -
  let ?a = "new_account U u p key"
  let ?st1 = "st\<lparr>user_files := (user_files st)(account_file st u \<mapsto> content)\<rparr>"
  let ?st2 = "?st1\<lparr>EffectiveUser := (EffectiveUser st)(session_id u p \<mapsto> ?a)\<rparr>"
  have reg: "Register U rnd u p st = (None, ?st1)" by (rule Register_fresh [OF assms(2-5)])
  have sign: "SignIn U u q ?st1 = (if p \<noteq> q then (Some PasswordWrong, ?st1)
      else if EffectiveUser st (session_id u q) \<noteq> None then (Some UserSignedIn, ?st1)
      else (None, ?st1\<lparr>EffectiveUser := (EffectiveUser st)(session_id u q \<mapsto> ?a)\<rparr>))" for q
    using SignIn_registered [OF assms(1,5), of ?st1 q] by (simp add: account_file_def)
  have "fst (Register U rnd' u p' ?st1) = Some UserRegistered"
    by (simp add: Register_def IsExistFile_def account_file_def)
  moreover have "SignIn U u p ?st1 = (None, ?st2)" using sign [of p] assms(6) by simp
  moreover have "ac_Address ?a = calculateAddress U (ac_PublicKey ?a)"
    by (simp add: new_account_def Let_def split: prod.split)
  moreover have "\<forall>q. q \<noteq> p \<longrightarrow> SignIn U u q ?st1 = (Some PasswordWrong, ?st1)" using sign by simp
  ultimately show ?thesis using reg
    by (intro exI [of _ ?st1] exI [of _ ?st2]) (simp add: ViewAccount_def Check_def SignOut_def)
qed

text \<open>
  The session identifier does not keep name and password apart: if two registered users' names
  and passwords join to the same string, then while the first one is signed in the second one is
  refused as already signed in, and whoever uses the second one's identifier acts with the first
  one's account and private key.
\<close>

theorem shared_session:
  assumes "user_files st (account_file st u) = Some c" and "dec_account U (zero_account\<lparr>ac_UserName := u\<rparr>) c = Some a"
    and "user_files st (account_file st u') = Some c'" and "dec_account U (zero_account\<lparr>ac_UserName := u'\<rparr>) c' = Some a'"
    and "session_id u (ac_Password a) = session_id u' (ac_Password a')"
    and "EffectiveUser st (session_id u (ac_Password a)) = None"
  shows "\<exists>st'. SignIn U u (ac_Password a) st = (None, st')
    \<and> SignIn U u' (ac_Password a') st' = (Some UserSignedIn, st')
    \<and> ViewAccount (session_id u' (ac_Password a')) st' = Inr a"
proof -
  let ?st' = "st\<lparr>EffectiveUser := (EffectiveUser st)(session_id u (ac_Password a) \<mapsto> a)\<rparr>"
  have "SignIn U u (ac_Password a) st = (None, ?st')" using SignIn_file [OF assms(1,2)] assms(6) by simp
  moreover have "user_files ?st' (account_file ?st' u') = Some c'" using assms(3) by (simp add: account_file_def)
  then have "SignIn U u' (ac_Password a') ?st' = (Some UserSignedIn, ?st')"
    using SignIn_file [of ?st' u' c' U a' "ac_Password a'"] assms(4,5) by simp
  moreover have "ViewAccount (session_id u' (ac_Password a')) ?st' = Inr a"
    using assms(5) by (simp add: ViewAccount_def Check_def)
  ultimately show ?thesis by blast
qed

text \<open>A node with two accounts whose names and passwords join to the same identifier.\<close>

definition toy_users :: user_env where
  "toy_users = \<lparr>gen_key = (\<lambda>r. Some (3, 1, 2)), u_sha256 = (\<lambda>b. b), ripemd160 = (\<lambda>b. b), base58 = (\<lambda>b. b),
     enc_account = (\<lambda>a. if ac_PublicKey a = [CHR 0x01, CHR 0x02] \<and> ac_PrivateKey a = 3
        \<and> ac_Address a = [CHR 0x00, CHR 0x01, CHR 0x02, CHR 0x00, CHR 0x01, CHR 0x02]
       then Some (ac_Password a) else None),
     dec_account = (\<lambda>a c. Some (a\<lparr>ac_Password := c, ac_PublicKey := [CHR 0x01, CHR 0x02], ac_PrivateKey := 3,
       ac_Address := [CHR 0x00, CHR 0x01, CHR 0x02, CHR 0x00, CHR 0x01, CHR 0x02]\<rparr>)),
     odd_path = (\<lambda>_. False)\<rparr>"

definition no_users :: user_state where
  "no_users = \<lparr>EffectiveUser = Map.empty, UserFilesPath = [], user_files = Map.empty\<rparr>"

lemma toy_gob: "gob_law toy_users"
  by (auto simp: gob_law_def toy_users_def zero_account_def split: if_splits)

lemma toy_big_bytes: "big_bytes 1 = [CHR 0x01]" "big_bytes 2 = [CHR 0x02]"
  by code_simp+


theorem register_sign_in_witness:
  "\<exists>st1 st2. Register toy_users [] ''u'' ''p'' no_users = (None, st1) \<and> SignIn toy_users ''u'' ''p'' st1 = (None, st2)
    \<and> SignIn toy_users ''u'' ''q'' st1 = (Some PasswordWrong, st1)"
proof -
  have enc: "enc_account toy_users (new_account toy_users ''u'' ''p'' (3, 1, 2)) = Some ''p''"
    by (simp add: toy_users_def new_account_def calculateAddress_def hashPublicKey_def checkSum_def toy_big_bytes Let_def del: One_nat_def)
  have "\<exists>st1 st2. Register toy_users [] ''u'' ''p'' no_users = (None, st1)
    \<and> fst (Register toy_users [] ''u'' ''p'' st1) = Some UserRegistered
    \<and> (\<forall>q. q \<noteq> ''p'' \<longrightarrow> SignIn toy_users ''u'' q st1 = (Some PasswordWrong, st1))
    \<and> SignIn toy_users ''u'' ''p'' st1 = (None, st2)
    \<and> ViewAccount (session_id ''u'' ''p'') st2 = Inr (new_account toy_users ''u'' ''p'' (3, 1, 2))
    \<and> ac_Address (new_account toy_users ''u'' ''p'' (3, 1, 2)) =
        calculateAddress toy_users (ac_PublicKey (new_account toy_users ''u'' ''p'' (3, 1, 2)))
    \<and> ViewAccount (session_id ''u'' ''p'') (snd (SignOut (session_id ''u'' ''p'') st2)) = Inl NotSignedIn"
    by (rule register_sign_in [OF toy_gob _ _ _ enc]) (simp_all add: no_users_def toy_users_def)
  then show ?thesis by auto
qed

theorem shared_session_witness:
  "\<exists>st'. SignIn toy_users ''a'' ''b-QAQ-c'' (no_users\<lparr>user_files := [''a.act'' \<mapsto> ''b-QAQ-c'', ''a-QAQ-b.act'' \<mapsto> ''c'']\<rparr>) = (None, st')
    \<and> SignIn toy_users ''a-QAQ-b'' ''c'' st' = (Some UserSignedIn, st')"
proof -
  let ?st = "no_users\<lparr>user_files := [''a.act'' \<mapsto> ''b-QAQ-c'', ''a-QAQ-b.act'' \<mapsto> ''c'']\<rparr>"
  have f: "user_files ?st (account_file ?st ''a'') = Some ''b-QAQ-c''" "user_files ?st (account_file ?st ''a-QAQ-b'') = Some ''c''"
    by (simp_all add: account_file_def no_users_def)
  obtain a a' where d: "dec_account toy_users (zero_account\<lparr>ac_UserName := ''a''\<rparr>) ''b-QAQ-c'' = Some a" "ac_Password a = ''b-QAQ-c''"
    "dec_account toy_users (zero_account\<lparr>ac_UserName := ''a-QAQ-b''\<rparr>) ''c'' = Some a'" "ac_Password a' = ''c''"
    by (simp add: toy_users_def)
  have "session_id ''a'' (ac_Password a) = session_id ''a-QAQ-b'' (ac_Password a')" "EffectiveUser ?st (session_id ''a'' (ac_Password a)) = None"
    by (simp_all add: d session_id_def no_users_def)
  from shared_session [OF f(1) d(1) f(2) d(3) this] show ?thesis unfolding d(2,4) by blast
qed

end
