(* ===== verification/Permissions.thy ===== *)
theory Permissions
  imports Table_Info
begin

text \<open>
  The permissions of the tables, across nodes: a node that was running when the table blocks came in
  merges their entries (\<open>upDateByTables\<close>), a node that starts from the chain file reads them back
  from the chain (\<open>init\<close> of \<open>cache/table-chain.go\<close>). This theory computes both and compares them.
\<close>

section \<open>A running node\<close>

definition run_tables :: "tables \<Rightarrow> table_tx list \<Rightarrow> tables" where
  "run_tables = foldl (\<lambda>ts tx. ts(tTable tx \<mapsto> grants (case ts (tTable tx) of None \<Rightarrow> Map.empty | Some m \<Rightarrow> m) (PermissionTable tx)))"

definition entries_of :: "string \<Rightarrow> table_tx list \<Rightarrow> string list" where
  "entries_of n txs = concat (map PermissionTable (filter (\<lambda>tx. tTable tx = n) txs))"

lemma grants_append [simp]: "grants m (vs @ ws) = grants (grants m vs) ws" "grants m [] = m"
  by (simp_all add: grants_def)

lemma run_tables_eq:
  "run_tables Map.empty txs n =
     (if \<exists>tx \<in> set txs. tTable tx = n then Some (grants Map.empty (entries_of n txs)) else None)"
proof (induction txs rule: rev_induct)
  case Nil
  then show ?case by (simp add: run_tables_def)
next
  case (snoc tx txs)
  then show ?case by (auto simp: run_tables_def entries_of_def)
qed

text \<open>The tables known in memory are those with a log in the file; \<open>hs\<close> is what the logs list.\<close>

definition logged :: "'db bolt \<Rightarrow> 'db \<Rightarrow> tables \<Rightarrow> (string \<Rightarrow> bytes list) \<Rightarrow> bool" where
  "logged B db ts hs \<longleftrightarrow> (\<forall>m. if ts m = None then hs m = [] else log_rep B db m (hs m))"

lemma update_table_tx_step:
  assumes "log_okname B (tTable tx)" and "[] \<notin> set (PermissionTable tx)"
    and "ts (tTable tx) = None \<Longrightarrow> \<not> has_bucket B db (tTable tx)"
  shows "\<exists>db1. update_table_tx B (ts, db) tx
      = Inr (ts(tTable tx \<mapsto> grants (case ts (tTable tx) of None \<Rightarrow> Map.empty | Some m \<Rightarrow> m) (PermissionTable tx)), db1)
    \<and> (\<forall>m. m \<noteq> tTable tx \<longrightarrow> has_bucket B db1 m = has_bucket B db m \<and> bolt_get B db1 m = bolt_get B db m)
    \<and> (\<forall>p hs. logged B db ts hs \<longrightarrow> logged B db1 (ts(tTable tx \<mapsto> p)) hs)"
proof (cases "ts (tTable tx)")
  case None
  from createBucket_rep [OF assms(1) assms(3) [OF this]] obtain d where d: "createBucket B (tTable tx) db = Inr d"
    "log_rep B d (tTable tx) []"
    "\<And>m. m \<noteq> tTable tx \<Longrightarrow> has_bucket B d m = has_bucket B db m \<and> bolt_get B d m = bolt_get B db m" by blast
  have "logged B d (ts(tTable tx \<mapsto> p)) hs" if l: "logged B db ts hs" for p hs
    unfolding logged_def
  proof
    fix m
    show "if (ts(tTable tx \<mapsto> p)) m = None then hs m = [] else log_rep B d m (hs m)"
      using l [unfolded logged_def, rule_format, of m] d(2) log_rep_cong [of B db m "hs m" d] d(3) [of m] None
      by (auto split: if_splits)
  qed
  then show ?thesis using None d assms(2) by (auto simp: update_table_tx_def add_entries_eq)
next
  case (Some m)
  have "logged B db (ts(tTable tx \<mapsto> p)) hs" if "logged B db ts hs" for p hs
    using that [unfolded logged_def] Some by (auto simp: logged_def split: if_splits)
  then show ?thesis using Some assms(2) by (simp add: update_table_tx_def add_entries_eq)
qed

lemma update_table_txs:
  assumes "bolt_laws B" and "\<And>tx. tx \<in> set txs \<Longrightarrow> log_okname B (tTable tx) \<and> [] \<notin> set (PermissionTable tx)"
    and "\<And>n. n \<in> tTable ` set txs \<Longrightarrow> ts n = None \<Longrightarrow> \<not> has_bucket B db n"
  shows "\<exists>db'. fold_go (update_table_tx B) (ts, db) txs = Inr (run_tables ts txs, db')
    \<and> (\<forall>m. m \<notin> tTable ` set txs \<longrightarrow> has_bucket B db' m = has_bucket B db m \<and> bolt_get B db' m = bolt_get B db m)
    \<and> (\<forall>hs. logged B db ts hs \<longrightarrow> logged B db' (run_tables ts txs) hs)"
  using assms
proof (induction txs arbitrary: ts db)
  case Nil
  then show ?case by (simp add: run_tables_def)
next
  case (Cons tx txs)
  let ?n = "tTable tx"
  let ?ts = "ts(?n \<mapsto> grants (case ts ?n of None \<Rightarrow> Map.empty | Some m \<Rightarrow> m) (PermissionTable tx))"
  obtain db1 where db1: "update_table_tx B (ts, db) tx = Inr (?ts, db1)"
    "\<forall>m. m \<noteq> ?n \<longrightarrow> has_bucket B db1 m = has_bucket B db m \<and> bolt_get B db1 m = bolt_get B db m"
    "\<And>hs. logged B db ts hs \<Longrightarrow> logged B db1 ?ts hs"
    using update_table_tx_step [of B tx ts db] Cons.prems(2,3) by auto
  have "\<exists>db'. fold_go (update_table_tx B) (?ts, db1) txs = Inr (run_tables ?ts txs, db')
    \<and> (\<forall>m. m \<notin> tTable ` set txs \<longrightarrow> has_bucket B db' m = has_bucket B db1 m \<and> bolt_get B db' m = bolt_get B db1 m)
    \<and> (\<forall>hs. logged B db1 ?ts hs \<longrightarrow> logged B db' (run_tables ?ts txs) hs)"
  proof (rule Cons.IH [OF Cons.prems(1)])
    show "\<not> has_bucket B db1 n" if "n \<in> tTable ` set txs" "?ts n = None" for n
      using that Cons.prems(3) [of n] db1(2) by (auto split: if_splits)
  qed (use Cons.prems(2) in simp)
  then obtain db' where db': "fold_go (update_table_tx B) (?ts, db1) txs = Inr (run_tables ?ts txs, db')"
    "\<forall>m. m \<notin> tTable ` set txs \<longrightarrow> has_bucket B db' m = has_bucket B db1 m \<and> bolt_get B db' m = bolt_get B db1 m"
    "\<And>hs. logged B db1 ?ts hs \<Longrightarrow> logged B db' (run_tables ?ts txs) hs" by blast
  then show ?case using db1 by (intro exI [of _ db']) (simp add: run_tables_def)
qed

lemma upDateByTables_concat:
  "fold_go (\<lambda>s b. upDateByTables B b s) s bs = fold_go (update_table_tx B) s (concat (map tTransactions bs))"
proof (induction bs arbitrary: s)
  case Nil
  then show ?case by simp
next
  case (Cons b bs)
  then show ?case by (simp add: fold_go_append upDateByTables_def)
qed

section \<open>A restarted node\<close>

definition restart_tables :: "tables \<Rightarrow> table_tx list \<Rightarrow> tables" where
  "restart_tables ts txs n = (case ts n of
     Some m \<Rightarrow> Some m
   | None \<Rightarrow> map_option (\<lambda>tx. grants Map.empty (PermissionTable tx)) (find (\<lambda>tx. tTable tx = n) txs))"

lemma find_append: "find P (us @ vs) = (case find P us of None \<Rightarrow> find P vs | Some x \<Rightarrow> Some x)"
  by (induction us) auto

lemma restart_tables_append: "restart_tables (restart_tables ts us) vs = restart_tables ts (us @ vs)"
  by (rule ext) (simp add: restart_tables_def find_append split: option.split)

lemma init_txs:
  assumes "\<And>tx. tx \<in> set txs \<Longrightarrow> [] \<notin> set (PermissionTable tx)"
  shows "fold_go init_tx ts txs = Inr (restart_tables ts txs)"
  using assms
proof (induction txs arbitrary: ts)
  case Nil
  then show ?case by (auto simp: restart_tables_def fun_eq_iff split: option.split)
next
  case (Cons tx txs)
  let ?ts = "restart_tables ts [tx]"
  have "init_tx ts tx = Inr ?ts"
    using Cons.prems [of tx] by (auto simp: init_tx_def restart_tables_def add_entries_eq fun_eq_iff split: option.split)
  moreover have "fold_go init_tx ?ts txs = Inr (restart_tables ?ts txs)" using Cons by simp
  moreover have "restart_tables ?ts txs = restart_tables ts (tx # txs)"
    by (rule ext) (simp add: restart_tables_def split: option.split)
  ultimately show ?case by simp
qed

lemma tio_init_loop_stored:
  assumes "has_bucket B db bk" and "stored B (decode cd) tCurrentBlockHash tPreviousBlockHash db bk t (bs @ [g])"
    and "genesis_mark \<notin> tCurrentBlockHash ` set (bs @ [g])"
    and "\<And>tx. tx \<in> set (concat (map tTransactions bs)) \<Longrightarrow> [] \<notin> set (PermissionTable tx)"
  shows "tio_init_loop B cd db \<lparr>it_BlockBucket = bk, CurrentHash = t\<rparr> ts
    = Some (Inr (restart_tables ts (concat (map tTransactions bs))))"
  using assms(2-4)
proof (induction bs arbitrary: t ts)
  case Nil
  have "table_Next B cd db \<lparr>it_BlockBucket = bk, CurrentHash = t\<rparr> = Inr (g, \<lparr>it_BlockBucket = bk, CurrentHash = genesis_mark\<rparr>)"
    using iterator_next_stored [OF assms(1), of "decode cd" tCurrentBlockHash tPreviousBlockHash t g "[]"] Nil.prems(1)
    by (simp add: table_Next_def)
  moreover have "restart_tables ts [] = ts" by (auto simp: restart_tables_def fun_eq_iff split: option.split)
  ultimately show ?case by (simp add: tio_init_loop.simps)
next
  case (Cons b bs)
  have next_b: "table_Next B cd db \<lparr>it_BlockBucket = bk, CurrentHash = t\<rparr>
      = Inr (b, \<lparr>it_BlockBucket = bk, CurrentHash = tPreviousBlockHash b\<rparr>)"
    using iterator_next_stored [OF assms(1), of "decode cd" tCurrentBlockHash tPreviousBlockHash t b "bs @ [g]"] Cons.prems(1)
    by (simp add: table_Next_def)
  have "tPreviousBlockHash b = tCurrentBlockHash (hd (bs @ [g]))"
    using stored_linked [of B "decode cd" tCurrentBlockHash tPreviousBlockHash db bk t "[]" b "hd (bs @ [g])" "tl (bs @ [g])"]
      Cons.prems(1) by simp
  moreover have "hd (bs @ [g]) \<in> set (bs @ [g])" by (rule hd_in_set) simp
  ultimately have ng: "tPreviousBlockHash b \<noteq> genesis_mark" using Cons.prems(2) by (metis imageI list.set_intros(2) append_Cons)
  have txs: "fold_go init_tx ts (tTransactions b) = Inr (restart_tables ts (tTransactions b))"
    by (rule init_txs) (use Cons.prems(3) in auto)
  have "tio_init_loop B cd db \<lparr>it_BlockBucket = bk, CurrentHash = tPreviousBlockHash b\<rparr> (restart_tables ts (tTransactions b))
      = Some (Inr (restart_tables (restart_tables ts (tTransactions b)) (concat (map tTransactions bs))))"
    by (rule Cons.IH) (use Cons.prems in auto)
  then show ?case using next_b ng txs
    by (simp add: restart_tables_append tio_init_loop.simps [of B cd db "\<lparr>it_BlockBucket = bk, CurrentHash = t\<rparr>"])
qed

lemma tio_init_restart:
  assumes "table_rep B cd tch (bs @ [g])" and "genesis_mark \<notin> tCurrentBlockHash ` set (bs @ [g])"
    and "\<And>tx. tx \<in> set (concat (map tTransactions bs)) \<Longrightarrow> [] \<notin> set (PermissionTable tx)"
  shows "tio_init B cd tch = Some (Inr (restart_tables Map.empty (concat (map tTransactions bs))))"
  unfolding tio_init_def table_CreateIterator_def create_iterator_def
  by (rule tio_init_loop_stored [of _ _ _ _ _ _ g]) (use assms in \<open>auto simp: table_rep_def chain_rep_def\<close>)

section \<open>The comparison\<close>

text \<open>
  C22. Permissions before and after a restart. A node that received the blocks of the table chain in
  order has, for every table, the entries of all its transactions merged in that order. A node that
  starts from the same chain has, for every table, only the entries of one transaction, the first
  one of the newest block that mentions the table: whoever was granted a permission earlier has
  lost it, and a table whose administrators are not repeated can no longer be administered there.
\<close>

theorem permissions_after_restart:
  assumes "table_rep B cd tch (bs @ [g])" and "genesis_mark \<notin> tCurrentBlockHash ` set (bs @ [g])"
    and "\<And>tx. tx \<in> set (concat (map tTransactions bs)) \<Longrightarrow>
      log_okname B (tTable tx) \<and> [] \<notin> set (PermissionTable tx) \<and> \<not> has_bucket B db (tTable tx)"
  shows "\<exists>db' ts ts'. fold_go (\<lambda>s b. upDateByTables B b s) (Map.empty, db) (rev bs) = Inr (ts, db')
    \<and> tio_init B cd tch = Some (Inr ts')
    \<and> (\<forall>n. let txs = concat (map tTransactions (rev bs)); rts = concat (map tTransactions bs) in
         ts n = (if \<exists>tx \<in> set txs. tTable tx = n then Some (grants Map.empty (entries_of n txs)) else None)
         \<and> ts' n = map_option (\<lambda>tx. grants Map.empty (PermissionTable tx)) (find (\<lambda>tx. tTable tx = n) rts))"
proof -
  let ?txs = "concat (map tTransactions (rev bs))"
  have laws: "bolt_laws B" using assms(1) by (simp add: table_rep_def chain_rep_def)
  have "\<exists>db'. fold_go (update_table_tx B) (Map.empty, db) ?txs = Inr (run_tables Map.empty ?txs, db')"
    using update_table_txs [OF laws, of ?txs "Map.empty :: tables" db] assms(3) by fastforce
  then obtain db' where db': "fold_go (\<lambda>s b. upDateByTables B b s) (Map.empty, db) (rev bs) = Inr (run_tables Map.empty ?txs, db')"
    by (auto simp: upDateByTables_concat)
  have "tio_init B cd tch = Some (Inr (restart_tables Map.empty (concat (map tTransactions bs))))"
    by (rule tio_init_restart [OF assms(1,2)]) (use assms(3) in auto)
  moreover have "restart_tables Map.empty rts n = map_option (\<lambda>tx. grants Map.empty (PermissionTable tx)) (find (\<lambda>tx. tTable tx = n) rts)"
    for rts n by (simp add: restart_tables_def)
  ultimately show ?thesis unfolding Let_def using db'
    by (intro exI [of _ db'] exI [of _ "run_tables Map.empty ?txs"]
        exI [of _ "restart_tables Map.empty (concat (map tTransactions bs))"] conjI allI)
       (simp_all only: run_tables_eq)
qed

text \<open>Two grants on one table in two blocks, for the witness.\<close>

definition grant_tx :: "string list \<Rightarrow> table_tx" where
  "grant_tx vs = zero_table_tx\<lparr>tTable := ''t'', PermissionTable := vs\<rparr>"

definition grant_block :: "bytes \<Rightarrow> bytes \<Rightarrow> table_tx list \<Rightarrow> table_block" where
  "grant_block h p txs = table_NewBlock\<lparr>tCurrentBlockHash := h, tPreviousBlockHash := p, tTransactions := txs\<rparr>"

definition grant_blocks :: "table_block list" where
  "grant_blocks = [grant_block ''c'' ''b'' [grant_tx [''y1'']], grant_block ''b'' ''a'' [grant_tx [''x4'']],
     grant_block ''a'' genesis_mark []]"

definition grant_codec :: "table_block codec" where
  "grant_codec = \<lparr>encode = tCurrentBlockHash, decode = (\<lambda>v. find (\<lambda>b. tCurrentBlockHash b = v) grant_blocks)\<rparr>"

definition grant_chain :: "mapdb table_chain" where
  "grant_chain = (new_table_chain map_bolt)\<lparr>TailHash := ''c'', Db := toy_db\<rparr>"

lemma grant_simps [simp]: "tCurrentBlockHash (grant_block h p txs) = h" "tPreviousBlockHash (grant_block h p txs) = p"
  "tTransactions (grant_block h p txs) = txs" "tTable (grant_tx vs) = ''t''" "PermissionTable (grant_tx vs) = vs"
  by (simp_all add: grant_block_def grant_tx_def)

lemma grant_rep: "table_rep map_bolt grant_codec grant_chain grant_blocks"
  unfolding table_rep_def chain_rep_def
  by (simp add: map_bolt_laws toy_get toy_has grant_blocks_def genesis_mark_def grant_codec_def grant_chain_def new_table_chain_def)

theorem permissions_after_restart_witness:
  "\<exists>db' ts ts' m m'. fold_go (\<lambda>s b. upDateByTables map_bolt b s) (Map.empty, Map.empty) (rev (butlast grant_blocks)) = Inr (ts, db')
    \<and> tio_init map_bolt grant_codec grant_chain = Some (Inr ts')
    \<and> ts ''t'' = Some m \<and> m ''x'' = Some ''4'' \<and> ts' ''t'' = Some m' \<and> m' ''x'' = None \<and> m' ''y'' = Some ''1''"
proof -
  let ?bs = "butlast grant_blocks"
  have bs: "?bs = [grant_block ''c'' ''b'' [grant_tx [''y1'']], grant_block ''b'' ''a'' [grant_tx [''x4'']]]"
    by (simp add: grant_blocks_def)
  have rep: "table_rep map_bolt grant_codec grant_chain (?bs @ [grant_block ''a'' genesis_mark []])"
    using grant_rep by (simp add: grant_blocks_def)
  have g: "genesis_mark \<notin> tCurrentBlockHash ` set (?bs @ [grant_block ''a'' genesis_mark []])"
    by (simp add: bs genesis_mark_def)
  have ok: "log_okname map_bolt (tTable tx) \<and> [] \<notin> set (PermissionTable tx) \<and> \<not> has_bucket map_bolt Map.empty (tTable tx)"
    if "tx \<in> set (concat (map tTransactions ?bs))" for tx
  proof -
    have "\<not> has_bucket map_bolt Map.empty n" for n by (simp add: map_bolt_def)
    then show ?thesis using that by (auto simp: bs log_okname_def map_bolt_laws)
  qed
  from permissions_after_restart [OF rep g ok] obtain db' ts ts' where
    1: "fold_go (\<lambda>s b. upDateByTables map_bolt b s) (Map.empty, Map.empty) (rev ?bs) = Inr (ts, db')"
      "tio_init map_bolt grant_codec grant_chain = Some (Inr ts')"
    and 2: "ts ''t'' = (if \<exists>tx \<in> set (concat (map tTransactions (rev ?bs))). tTable tx = ''t''
        then Some (grants Map.empty (entries_of ''t'' (concat (map tTransactions (rev ?bs))))) else None)"
      "ts' ''t'' = map_option (\<lambda>tx. grants Map.empty (PermissionTable tx))
        (find (\<lambda>tx. tTable tx = ''t'') (concat (map tTransactions ?bs)))"
    unfolding Let_def by blast
  show ?thesis using 1 2 by (intro exI conjI) (assumption | simp add: bs entries_of_def grants_def)+
qed

end
