(* ===== verification/Server_Api.thy ===== *)
theory Server_Api
  imports Grpc_Client User_Manage Permissions
begin

text \<open>
  \<open>server/serverFuncs_cmd_bk1.go\<close> and \<open>serverFuncs_cmdroot_bk2.go\<close>: the requests a user makes at a
  node. Every request names a session; most check the permission of the session's address on the
  table, compared as strings, and then read through the cache or make a transaction, put it into
  the own pool and send it to the other nodes, whose pools are \<open>w\<close>. What a request prints (and does
  not return) is a result here as well. A Go map is iterated in no order, so a list of its keys is
  a set.
\<close>

section \<open>State\<close>

record 'db server =
  manage :: user_state
  sv_node :: "'db node_state"

record 'db server_env =
  sv_alg :: "'db alg_env"
  sv_users :: user_env
  sv_me :: address
  sv_nodes :: "node list"

type_synonym pools = "address \<Rightarrow> tx_pool"

text \<open>
  \<open>Server.Init\<close>, with the contents of the two chain files, if they exist, the account files and the
  state of the consensus before it has a chain. The pool and the gRPC listener only start.
\<close>

definition server_Init :: "'db server_env \<Rightarrow> table_block codec \<Rightarrow> 'db alg_state \<Rightarrow> 'db option \<Rightarrow> 'db option \<Rightarrow>
    user_state \<Rightarrow> 'db server run" where
  "server_Init V tcd alg0 dataFile tableFile users =
     (let B = e_bolt (sv_alg V); cr = e_hashes (sv_alg V) in
      bind_run (lift_go (InitBlockChain B cr (e_block (sv_alg V)) dataFile)) (\<lambda>ch.
      bind_run (lift_go (table_InitBlockChain B cr tcd tableFile)) (\<lambda>tch.
      bind_run (cache_Init B tcd tch) (\<lambda>c.
        return_run \<lparr>manage = um_Init users,
          sv_node = \<lparr>nd_alg = alg0\<lparr>a_chain := ch\<rparr>, nd_tables = tch, nd_pool = pool_Init, nd_cache = c,
                     nd_SubUser = 0, nd_IsDone = True\<rparr>\<rparr>))))"

section \<open>Accounts\<close>

definition RegisterAccount :: "'db server_env \<Rightarrow> bytes \<Rightarrow> string \<Rightarrow> string \<Rightarrow> 'db server \<Rightarrow> bool \<times> 'db server" where
  "RegisterAccount V rnd username password s =
     (let (err, m) = Register (sv_users V) rnd username password (manage s) in (err = None, s\<lparr>manage := m\<rparr>))"

definition SignInAccount :: "'db server_env \<Rightarrow> string \<Rightarrow> string \<Rightarrow> 'db server \<Rightarrow> bool \<times> 'db server" where
  "SignInAccount V username password s =
     (let (err, m) = SignIn (sv_users V) username password (manage s) in (err = None, s\<lparr>manage := m\<rparr>))"

definition CheckAccount :: "string \<Rightarrow> 'db server \<Rightarrow> string" where
  "CheckAccount UID s = (case ViewAccount UID (manage s) of Inl e \<Rightarrow> [] | Inr a \<Rightarrow> ac_Address a)"

definition SignOutAccount :: "string \<Rightarrow> 'db server \<Rightarrow> bool \<times> 'db server" where
  "SignOutAccount ID s = (let (err, m) = SignOut ID (manage s) in (err = None, s\<lparr>manage := m\<rparr>))"

section \<open>Writing\<close>

text \<open>
  The end of \<open>Put\<close>: a verified transaction goes into the own pool (if that is full the error is only
  printed) and out to the other nodes.
\<close>

definition submit_own_data :: "'db server_env \<Rightarrow> transaction \<Rightarrow> 'db server \<Rightarrow> pools \<Rightarrow> (bool \<times> 'db server \<times> pools) go" where
  "submit_own_data V tx s w =
     (let cr = e_hashes (sv_alg V) in
      if VerifyTransaction cr tx
      then bind_go (TxDataIN tx (nd_pool (sv_node s))) (\<lambda>(full, pool).
             case SubmitDataTransaction cr (sv_me V) tx (sv_nodes V) w of
               (Some p, w') \<Rightarrow> Inl p
             | (None, w') \<Rightarrow> Inr (True, s\<lparr>sv_node := (sv_node s)\<lparr>nd_pool := pool\<rparr>\<rparr>, w'))
      else Inr (False, s, w))"

definition server_Put :: "'db server_env \<Rightarrow> bytes \<Rightarrow> int \<Rightarrow> string \<Rightarrow> string \<Rightarrow> string \<Rightarrow> string \<Rightarrow> 'db server \<Rightarrow> pools \<Rightarrow>
    (bool \<times> 'db server \<times> pools) go" where
  "server_Put V rnd now UID key val table s w =
     (case ViewAccount UID (manage s) of
        Inl e \<Rightarrow> Inr (False, s, w)
      | Inr a \<Rightarrow>
          (case CheckPermission (nd_cache (sv_node s)) (ac_Address a) table of
             (permission, Some err) \<Rightarrow> Inr (False, s, w)
           | (permission, None) \<Rightarrow>
               if permission < ''3'' then Inr (False, s, w)
               else bind_go (tx_Init (e_hashes (sv_alg V)) rnd now table key val (ac_UserName a) (ac_PublicKey a)
                               (ac_PrivateKey a) zero_tx)
                      (\<lambda>tx. submit_own_data V tx s w)))"

definition submit_own_table :: "'db server_env \<Rightarrow> table_tx \<Rightarrow> 'db server \<Rightarrow> pools \<Rightarrow> (bool \<times> 'db server \<times> pools) go" where
  "submit_own_table V tx s w =
     (let cr = e_hashes (sv_alg V) in
      if table_VerifyTransaction cr tx
      then bind_go (TxTableIN tx (nd_pool (sv_node s))) (\<lambda>(full, pool).
             case SubmitTableTransaction cr (sv_me V) tx (sv_nodes V) w of
               (Some p, w') \<Rightarrow> Inl p
             | (None, w') \<Rightarrow> Inr (True, s\<lparr>sv_node := (sv_node s)\<lparr>nd_pool := pool\<rparr>\<rparr>, w'))
      else Inr (False, s, w))"

text \<open>A table the cache does not know may be created by every user.\<close>

definition server_Table :: "'db server_env \<Rightarrow> bytes \<Rightarrow> int \<Rightarrow> string \<Rightarrow> string \<Rightarrow> string list \<Rightarrow> 'db server \<Rightarrow> pools \<Rightarrow>
    (bool \<times> 'db server \<times> pools) go" where
  "server_Table V rnd now UID table permissionTable s w =
     (case ViewAccount UID (manage s) of
        Inl e \<Rightarrow> Inr (False, s, w)
      | Inr a \<Rightarrow>
          (case CheckPermission (nd_cache (sv_node s)) (ac_Address a) table of
             (permission, err) \<Rightarrow>
               if err = None \<and> permission < ''4'' then Inr (False, s, w)
               else bind_go (table_tx_Init (e_hashes (sv_alg V)) rnd now table permissionTable (ac_UserName a)
                               (ac_PublicKey a) (ac_PrivateKey a) zero_table_tx)
                      (\<lambda>tx. submit_own_table V tx s w)))"

section \<open>Reading\<close>

text \<open>The login and permission checks of the reading requests; the answer is the account's address.\<close>

definition may_read :: "string \<Rightarrow> string \<Rightarrow> 'db server \<Rightarrow> bool" where
  "may_read UID table s =
     (case ViewAccount UID (manage s) of
        Inl e \<Rightarrow> False
      | Inr a \<Rightarrow>
          (case CheckPermission (nd_cache (sv_node s)) (ac_Address a) table of
             (permission, Some err) \<Rightarrow> False
           | (permission, None) \<Rightarrow> \<not> permission < ''1''))"

definition server_Get :: "'db server_env \<Rightarrow> string \<Rightarrow> string \<Rightarrow> string \<Rightarrow> 'db server \<Rightarrow> (string \<times> 'db server) run" where
  "server_Get V UID key table s =
     (if \<not> may_read UID table s then return_run ([], s)
      else let nd = sv_node s in
           bind_run (GetOneValue (e_bolt (sv_alg V)) (e_block (sv_alg V)) (a_chain (nd_alg nd)) (Db (nd_tables nd))
                       (table @ ''-QAQ-'' @ key) table (nd_cache nd))
             (\<lambda>(tx, c). let s' = s\<lparr>sv_node := nd\<lparr>nd_cache := c\<rparr>\<rparr> in
                return_run (case tx of None \<Rightarrow> ([], s') | Some t \<Rightarrow> (Value t, s'))))"

text \<open>The printed lines of \<open>GetHistory\<close> and \<open>GetTableData\<close>.\<close>

definition server_GetHistory :: "'db server_env \<Rightarrow> string \<Rightarrow> string \<Rightarrow> string \<Rightarrow> 'db server \<Rightarrow> transaction list run" where
  "server_GetHistory V UID key table s =
     (if \<not> may_read UID table s then return_run []
      else let nd = sv_node s in
           bind_run (GetHistoryValue (e_bolt (sv_alg V)) (e_block (sv_alg V)) (a_chain (nd_alg nd)) (Db (nd_tables nd))
                       (table @ ''-QAQ-'' @ key) table)
             (\<lambda>r. return_run (case r of Inl err \<Rightarrow> [] | Inr txs \<Rightarrow> txs)))"

definition server_GetTableData :: "'db server_env \<Rightarrow> string \<Rightarrow> string \<Rightarrow> 'db server \<Rightarrow> (string \<rightharpoonup> transaction) run" where
  "server_GetTableData V UID table s =
     (if \<not> may_read UID table s then return_run Map.empty
      else let nd = sv_node s in
           cache_GetTableData (e_bolt (sv_alg V)) (e_block (sv_alg V)) (a_chain (nd_alg nd)) (Db (nd_tables nd)) table)"

definition MyTable :: "string \<Rightarrow> 'db server \<Rightarrow> string set" where
  "MyTable UID s =
     (case ViewAccount UID (manage s) of
        Inl e \<Rightarrow> {}
      | Inr a \<Rightarrow> (case MyTables (nd_cache (sv_node s)) (ac_Address a) of Inl err \<Rightarrow> {} | Inr m \<Rightarrow> dom m))"

section \<open>Properties\<close>

text \<open>The level a session has on a table, if the session is open and the table known.\<close>

definition level :: "string \<Rightarrow> string \<Rightarrow> 'db server \<Rightarrow> string option" where
  "level UID table s =
     (case EffectiveUser (manage s) UID of
        None \<Rightarrow> None
      | Some a \<Rightarrow> (case tableInfo (nd_cache (sv_node s)) table of
                      None \<Rightarrow> None
                    | Some m \<Rightarrow> Some (case m (ac_Address a) of None \<Rightarrow> ''-1'' | Some p \<Rightarrow> p)))"

lemma minus_less: "''-1'' < ''1''" "''-1'' < ''3''" "''-1'' < ''4''"
  by (simp_all add: less_char_def)

lemma may_read_level: "may_read UID table s \<longleftrightarrow> (\<exists>p. level UID table s = Some p \<and> ''1'' \<le> p)"
  by (auto simp: may_read_def level_def ViewAccount_def Check_def CheckPermission_def checkPermission_def not_less
      split: option.splits)

lemma view_iff: "ViewAccount UID m = Inr a \<longleftrightarrow> EffectiveUser m UID = Some a"
  by (simp add: ViewAccount_def Check_def split: option.split)

lemma level_session: "level UID table s = Some p \<Longrightarrow> \<exists>a. EffectiveUser (manage s) UID = Some a
    \<and> CheckPermission (nd_cache (sv_node s)) (ac_Address a) table = (p, None)"
  by (auto simp: level_def CheckPermission_def checkPermission_def split: option.splits)

lemma server_Put_refused:
  assumes "\<And>p. level UID table s = Some p \<Longrightarrow> p < ''3''"
  shows "server_Put V rnd now UID key val table s w = Inr (False, s, w)"
  using assms
  by (auto simp: server_Put_def level_def ViewAccount_def Check_def CheckPermission_def checkPermission_def split: option.splits)

lemma server_Put_submits:
  assumes "level UID table s = Some p" and "\<not> p < ''3''" and "EffectiveUser (manage s) UID = Some a"
    and "tx_Init (e_hashes (sv_alg V)) rnd now table key val (ac_UserName a) (ac_PublicKey a) (ac_PrivateKey a) zero_tx = Inr tx"
  shows "server_Put V rnd now UID key val table s w = submit_own_data V tx s w"
proof -
  have v: "ViewAccount UID (manage s) = Inr a" using assms(3) by (simp add: view_iff)
  have "CheckPermission (nd_cache (sv_node s)) (ac_Address a) table = (p, None)"
    using level_session [OF assms(1)] assms(3) by auto
  then show ?thesis using v assms(2,4) by (simp add: server_Put_def)
qed

text \<open>What submitting does: the own pool if it has room, and all other nodes.\<close>

lemma submit_own_data_all:
  assumes "VerifyTransaction (e_hashes (sv_alg V)) tx"
    and own: "pool_rep TxID (txPoolData (nd_pool (sv_node s))) xs" "TxID tx \<notin> TxID ` set xs"
    and "distinct (map node_address (sv_nodes V))"
    and "\<And>m. m \<in> set (sv_nodes V) \<Longrightarrow> \<not> is_me (sv_me V) m \<Longrightarrow>
         pool_rep TxID (txPoolData (w (node_address m))) (ys m) \<and> TxID tx \<notin> TxID ` set (ys m)
         \<and> int (length (ys m)) \<noteq> maxSize (pqueue_of (txPoolData (w (node_address m))))"
  shows "\<exists>s' w'. submit_own_data V tx s w = Inr (True, s', w')
      \<and> (if int (length xs) = maxSize (pqueue_of (txPoolData (nd_pool (sv_node s)))) then s' = s
          else pool_rep TxID (txPoolData (nd_pool (sv_node s'))) (back_insert TimeStamp tx xs))
      \<and> (\<forall>m \<in> set (sv_nodes V). \<not> is_me (sv_me V) m \<longrightarrow>
           pool_rep TxID (txPoolData (w' (node_address m))) (back_insert TimeStamp tx (ys m)))"
proof -
  from data_trading.submit_room [OF assms(4,1), of "sv_me V" w ys] assms(5) obtain w' where w':
    "SubmitDataTransaction (e_hashes (sv_alg V)) (sv_me V) tx (sv_nodes V) w = (None, w')"
    "\<forall>m \<in> set (sv_nodes V). \<not> is_me (sv_me V) m \<longrightarrow>
       pool_rep TxID (txPoolData (w' (node_address m))) (back_insert TimeStamp tx (ys m))"
    unfolding SubmitDataTransaction_def by blast
  have "\<exists>full pool. TxDataIN tx (nd_pool (sv_node s)) = Inr (full, pool)
      \<and> (if int (length xs) = maxSize (pqueue_of (txPoolData (nd_pool (sv_node s)))) then pool = nd_pool (sv_node s)
          else pool_rep TxID (txPoolData pool) (back_insert TimeStamp tx xs))"
    using TxIn_cases [OF own, of TimeStamp] by (auto simp: TxDataIN_def split: if_splits)
  then obtain full pool where pool: "TxDataIN tx (nd_pool (sv_node s)) = Inr (full, pool)"
    "if int (length xs) = maxSize (pqueue_of (txPoolData (nd_pool (sv_node s)))) then pool = nd_pool (sv_node s)
     else pool_rep TxID (txPoolData pool) (back_insert TimeStamp tx xs)" by blast
  let ?s = "s\<lparr>sv_node := (sv_node s)\<lparr>nd_pool := pool\<rparr>\<rparr>"
  have "submit_own_data V tx s w = Inr (True, ?s, w')"
    using assms(1) pool(1) w'(1) by (simp add: submit_own_data_def Let_def)
  then show ?thesis using pool(2) w'(2) by (intro exI [of _ ?s] exI [of _ w']) (auto split: if_splits)
qed


lemma submit_own_table_all:
  assumes "table_VerifyTransaction (e_hashes (sv_alg V)) tx"
    and own: "pool_rep tTxID (txPoolTable (nd_pool (sv_node s))) xs" "tTxID tx \<notin> tTxID ` set xs"
    and "distinct (map node_address (sv_nodes V))"
    and "\<And>m. m \<in> set (sv_nodes V) \<Longrightarrow> \<not> is_me (sv_me V) m \<Longrightarrow>
         pool_rep tTxID (txPoolTable (w (node_address m))) (ys m) \<and> tTxID tx \<notin> tTxID ` set (ys m)
         \<and> int (length (ys m)) \<noteq> maxSize (pqueue_of (txPoolTable (w (node_address m))))"
  shows "\<exists>s' w'. submit_own_table V tx s w = Inr (True, s', w')
      \<and> (if int (length xs) = maxSize (pqueue_of (txPoolTable (nd_pool (sv_node s)))) then s' = s
          else pool_rep tTxID (txPoolTable (nd_pool (sv_node s'))) (back_insert tTimeStamp tx xs))
      \<and> (\<forall>m \<in> set (sv_nodes V). \<not> is_me (sv_me V) m \<longrightarrow>
           pool_rep tTxID (txPoolTable (w' (node_address m))) (back_insert tTimeStamp tx (ys m)))"
proof -
  from table_trading.submit_room [OF assms(4,1), of "sv_me V" w ys] assms(5) obtain w' where w':
    "SubmitTableTransaction (e_hashes (sv_alg V)) (sv_me V) tx (sv_nodes V) w = (None, w')"
    "\<forall>m \<in> set (sv_nodes V). \<not> is_me (sv_me V) m \<longrightarrow>
       pool_rep tTxID (txPoolTable (w' (node_address m))) (back_insert tTimeStamp tx (ys m))"
    unfolding SubmitTableTransaction_def by blast
  have "\<exists>full pool. TxTableIN tx (nd_pool (sv_node s)) = Inr (full, pool)
      \<and> (if int (length xs) = maxSize (pqueue_of (txPoolTable (nd_pool (sv_node s)))) then pool = nd_pool (sv_node s)
          else pool_rep tTxID (txPoolTable pool) (back_insert tTimeStamp tx xs))"
    using TxIn_cases [OF own, of tTimeStamp] by (auto simp: TxTableIN_def split: if_splits)
  then obtain full pool where pool: "TxTableIN tx (nd_pool (sv_node s)) = Inr (full, pool)"
    "if int (length xs) = maxSize (pqueue_of (txPoolTable (nd_pool (sv_node s)))) then pool = nd_pool (sv_node s)
     else pool_rep tTxID (txPoolTable pool) (back_insert tTimeStamp tx xs)" by blast
  let ?s = "s\<lparr>sv_node := (sv_node s)\<lparr>nd_pool := pool\<rparr>\<rparr>"
  have "submit_own_table V tx s w = Inr (True, ?s, w')"
    using assms(1) pool(1) w'(1) by (simp add: submit_own_table_def Let_def)
  then show ?thesis using pool(2) w'(2) by (intro exI [of _ ?s] exI [of _ w']) (auto split: if_splits)
qed

definition may_define :: "string \<Rightarrow> string \<Rightarrow> 'db server \<Rightarrow> bool" where
  "may_define UID table s \<longleftrightarrow>
     tableInfo (nd_cache (sv_node s)) table = None \<or> (\<exists>p. level UID table s = Some p \<and> ''4'' \<le> p)"

lemma server_Table_eq:
  assumes "EffectiveUser (manage s) UID = Some a"
    and "table_tx_Init (e_hashes (sv_alg V)) rnd now table perms (ac_UserName a) (ac_PublicKey a) (ac_PrivateKey a)
      zero_table_tx = Inr tx"
  shows "server_Table V rnd now UID table perms s w =
      (if may_define UID table s then submit_own_table V tx s w else Inr (False, s, w))"
  using assms
  by (auto simp: server_Table_def may_define_def level_def ViewAccount_def Check_def CheckPermission_def checkPermission_def
      split: option.splits)

text \<open>
  Creating a table or changing its permissions: the request of a signed-in user is refused, and
  changes nothing, exactly if the table exists and the user's permission on it is below "4";
  otherwise the new table transaction (table, permissions and name as requested, under the user's
  key) goes into the pools of all other nodes and, if that has room, into the own one. Everybody
  signed in may create a table that the cache does not know.
\<close>

theorem table_request:
  assumes "EffectiveUser (manage s) UID = Some a"
    and "ac_PublicKey a = xb @ yb" and "length xb = n" and "length yb = n"
    and "\<And>d sig. ecdsa_sign (e_hashes (sv_alg V)) rnd (ac_PrivateKey a) d = Some sig \<Longrightarrow>
           ecdsa_verify (e_hashes (sv_alg V)) (be_nat xb) (be_nat yb) d sig"
    and tx: "table_tx_Init (e_hashes (sv_alg V)) rnd now table perms (ac_UserName a) (ac_PublicKey a) (ac_PrivateKey a)
      zero_table_tx = Inr tx"
    and own: "pool_rep tTxID (txPoolTable (nd_pool (sv_node s))) xs" "tTxID tx \<notin> tTxID ` set xs"
    and others: "distinct (map node_address (sv_nodes V))"
      "\<And>m. m \<in> set (sv_nodes V) \<Longrightarrow> \<not> is_me (sv_me V) m \<Longrightarrow>
         pool_rep tTxID (txPoolTable (w (node_address m))) (ys m) \<and> tTxID tx \<notin> tTxID ` set (ys m)
         \<and> int (length (ys m)) \<noteq> maxSize (pqueue_of (txPoolTable (w (node_address m))))"
  shows "(tTable tx, PermissionTable tx, tPossessor tx) = (table, perms, ac_UserName a) \<and>
   (if may_define UID table s
    then \<exists>s' w'. server_Table V rnd now UID table perms s w = Inr (True, s', w')
      \<and> (if int (length xs) = maxSize (pqueue_of (txPoolTable (nd_pool (sv_node s)))) then s' = s
          else pool_rep tTxID (txPoolTable (nd_pool (sv_node s'))) (back_insert tTimeStamp tx xs))
      \<and> (\<forall>m \<in> set (sv_nodes V). \<not> is_me (sv_me V) m \<longrightarrow>
           pool_rep tTxID (txPoolTable (w' (node_address m))) (back_insert tTimeStamp tx (ys m)))
    else server_Table V rnd now UID table perms s w = Inr (False, s, w))"
proof
  show "(tTable tx, PermissionTable tx, tPossessor tx) = (table, perms, ac_UserName a)"
    using table_tx_Init_fields [OF tx] by simp
  note run = server_Table_eq [OF assms(1) tx]
  have ver: "table_VerifyTransaction (e_hashes (sv_alg V)) tx"
    using table_tx_Init_verifies [OF assms(3,4,5) tx [unfolded assms(2)]] by simp
  show "if may_define UID table s
    then \<exists>s' w'. server_Table V rnd now UID table perms s w = Inr (True, s', w')
      \<and> (if int (length xs) = maxSize (pqueue_of (txPoolTable (nd_pool (sv_node s)))) then s' = s
          else pool_rep tTxID (txPoolTable (nd_pool (sv_node s'))) (back_insert tTimeStamp tx xs))
      \<and> (\<forall>m \<in> set (sv_nodes V). \<not> is_me (sv_me V) m \<longrightarrow>
           pool_rep tTxID (txPoolTable (w' (node_address m))) (back_insert tTimeStamp tx (ys m)))
    else server_Table V rnd now UID table perms s w = Inr (False, s, w)"
    using run submit_own_table_all [where w = w and ys = ys, OF ver own others] by simp
qed

text \<open>
  C36. Reading crosses tables: the cached values are filed under table, separator and key joined
  together and are returned for any table. A session with permission to read one table gets, by a
  key that contains the separator, the cached value of another table that it may have no
  permission on.
\<close>

theorem get_crosses_tables:
  assumes "level UID t s = Some p" and "''1'' \<le> p"
    and "t @ ''-QAQ-'' @ k = Table tx @ ''-QAQ-'' @ Key tx"
    and "getInTX (Table tx @ ''-QAQ-'' @ Key tx) (lru3Query (nd_cache (sv_node s))) = Some tx"
    and "lruTx_toTail (Table tx @ ''-QAQ-'' @ Key tx) (listTx (lru3Query (nd_cache (sv_node s)))) = Some q"
  shows "\<exists>s'. server_Get V UID k t s = return_run (Value tx, s')"
  using assms by (auto simp: server_Get_def may_read_level GetOneValue_def read_tx_def Let_def deref_def)

text \<open>
  Reading needs a session and a permission of at least "1" on the table: otherwise \<open>Get\<close>
  returns the empty string and leaves the node as it is, and \<open>GetHistory\<close> and \<open>GetTableData\<close> show
  nothing. No reading request changes anything but the node's cache.
\<close>

theorem reads_need_permission:
  "(\<not> (\<exists>p. level UID table s = Some p \<and> ''1'' \<le> p) \<longrightarrow>
      server_Get V UID key table s = return_run ([], s)
      \<and> server_GetHistory V UID key table s = return_run [] \<and> server_GetTableData V UID table s = return_run Map.empty)
   \<and> (\<forall>v s'. server_Get V UID key table s = return_run (v, s') \<longrightarrow>
        (\<exists>c. s' = s\<lparr>sv_node := (sv_node s)\<lparr>nd_cache := c\<rparr>\<rparr>))"
proof
  show "\<not> (\<exists>p. level UID table s = Some p \<and> ''1'' \<le> p) \<longrightarrow>
      server_Get V UID key table s = return_run ([], s)
      \<and> server_GetHistory V UID key table s = return_run [] \<and> server_GetTableData V UID table s = return_run Map.empty"
    by (simp add: server_Get_def server_GetHistory_def server_GetTableData_def may_read_level)
  have "\<exists>c. s = s\<lparr>sv_node := (sv_node s)\<lparr>nd_cache := c\<rparr>\<rparr>"
    by (rule exI [of _ "nd_cache (sv_node s)"]) simp
  then show "\<forall>v s'. server_Get V UID key table s = return_run (v, s') \<longrightarrow>
        (\<exists>c. s' = s\<lparr>sv_node := (sv_node s)\<lparr>nd_cache := c\<rparr>\<rparr>)"
    by (cases "may_read UID table s")
       (auto simp: server_Get_def bind_run_return_iff Let_def split: option.splits)
qed

lemma server_Init_reopens:
  assumes "data_rep (e_bolt (sv_alg V)) (e_block (sv_alg V)) ch bs" and "table_rep (e_bolt (sv_alg V)) tcd tch (tbs @ [g])"
    and "BlockBucket ch = ''blockBucket''" and "LastHashKey ch = ''lastHashKey''"
    and "BlockBucket tch = ''blockBucket''" and "LastHashKey tch = ''lastHashKey''"
    and "genesis_mark \<notin> tCurrentBlockHash ` set (tbs @ [g])"
    and "\<And>tx. tx \<in> set (concat (map tTransactions tbs)) \<Longrightarrow> [] \<notin> set (PermissionTable tx)"
  shows "\<exists>s. server_Init V tcd alg0 (Some (Db ch)) (Some (Db tch)) users = return_run s
    \<and> data_rep (e_bolt (sv_alg V)) (e_block (sv_alg V)) (a_chain (nd_alg (sv_node s))) bs
    \<and> table_rep (e_bolt (sv_alg V)) tcd (nd_tables (sv_node s)) (tbs @ [g])
    \<and> tableInfo (nd_cache (sv_node s)) = restart_tables Map.empty (concat (map tTransactions tbs))
    \<and> lru3Query (nd_cache (sv_node s)) = lru_init \<and> nd_pool (sv_node s) = pool_Init
    \<and> EffectiveUser (manage s) = Map.empty \<and> user_files (manage s) = user_files users
    \<and> LastID (nd_tables (sv_node s)) = 1"
proof -
  let ?B = "e_bolt (sv_alg V)"
  have nd: "BlockBucket (new_data_chain ?B) = BlockBucket ch" "LastHashKey (new_data_chain ?B) = LastHashKey ch"
    and nt: "BlockBucket (new_table_chain ?B) = BlockBucket tch" "LastHashKey (new_table_chain ?B) = LastHashKey tch"
    using assms(3-6) by (simp_all add: new_data_chain_def new_table_chain_def)
  obtain ch' where ch': "open_chain ?B (Db ch) (new_data_chain ?B) = Inr ch'" "data_rep ?B (e_block (sv_alg V)) ch' bs"
    using chain_rep_reopen [OF assms(1) [unfolded data_rep_def] nd] by (auto simp: data_rep_def)
  obtain tch' where tch': "open_chain ?B (Db tch) (new_table_chain ?B) = Inr tch'" "table_rep ?B tcd tch' (tbs @ [g])"
    using chain_rep_reopen [OF assms(2) [unfolded table_rep_def] nt] by (auto simp: table_rep_def)
  have id: "LastID tch' = 1" using tch'(1) by (auto simp: open_chain_def new_table_chain_def split: if_splits)
  have c: "cache_Init ?B tcd tch' = return_run \<lparr>lru3Query = lru_init, tableInfo = restart_tables Map.empty (concat (map tTransactions tbs))\<rparr>"
    using tio_init_restart [OF tch'(2) assms(7,8)] by (simp add: cache_Init_def)
  show ?thesis
    using ch' tch' c id
    by (simp add: server_Init_def InitBlockChain_def table_InitBlockChain_def Let_def um_Init_def lift_go_def)
qed

text \<open>
  A restart: a server that finds the files of two intact chains starts with the same blocks on
  both, with the permissions computed from the table chain, with empty pools and caches and with
  nobody signed in. The number of the last table block is not restored: it is 1 again, so the next
  table blocks repeat numbers that the chain already has.
\<close>

theorem server_restart:
  assumes "data_rep (e_bolt (sv_alg V)) (e_block (sv_alg V)) ch bs" and "table_rep (e_bolt (sv_alg V)) tcd tch (tbs @ [g])"
    and "BlockBucket ch = ''blockBucket''" and "LastHashKey ch = ''lastHashKey''"
    and "BlockBucket tch = ''blockBucket''" and "LastHashKey tch = ''lastHashKey''"
    and "genesis_mark \<notin> tCurrentBlockHash ` set (tbs @ [g])"
    and "\<And>tx. tx \<in> set (concat (map tTransactions tbs)) \<Longrightarrow> [] \<notin> set (PermissionTable tx)"
  shows "\<exists>s. server_Init V tcd alg0 (Some (Db ch)) (Some (Db tch)) users = return_run s
    \<and> data_rep (e_bolt (sv_alg V)) (e_block (sv_alg V)) (a_chain (nd_alg (sv_node s))) bs
    \<and> table_rep (e_bolt (sv_alg V)) tcd (nd_tables (sv_node s)) (tbs @ [g])
    \<and> tableInfo (nd_cache (sv_node s)) = restart_tables Map.empty (concat (map tTransactions tbs))
    \<and> lru3Query (nd_cache (sv_node s)) = lru_init \<and> nd_pool (sv_node s) = pool_Init
    \<and> EffectiveUser (manage s) = Map.empty \<and> user_files (manage s) = user_files users
    \<and> LastID (nd_tables (sv_node s)) = 1"
  using assms by (rule server_Init_reopens)

text \<open>A server with one signed-in user, for the witnesses.\<close>

definition toy_account :: account where
  "toy_account = \<lparr>ac_UserName = ''u'', ac_Password = ''p'', ac_PublicKey = [CHR 0x01, CHR 0x02], ac_PrivateKey = 3,
     ac_Address = ''adr''\<rparr>"

definition toy_server :: "(string \<rightharpoonup> (string \<rightharpoonup> string)) \<Rightarrow> mapdb server" where
  "toy_server tables = \<lparr>manage = no_users\<lparr>EffectiveUser := [''u-QAQ-p'' \<mapsto> toy_account]\<rparr>,
     sv_node = toy_node\<lparr>nd_cache := \<lparr>lru3Query = lru_init, tableInfo = tables\<rparr>\<rparr>\<rparr>"

definition toy_server_env :: "mapdb server_env" where
  "toy_server_env = \<lparr>sv_alg = toy_env, sv_users = toy_users, sv_me = (''a'', 3301), sv_nodes = two_nodes\<rparr>"

lemma toy_server_level:
  "level ''u-QAQ-p'' t (toy_server tables) =
     map_option (\<lambda>m. case m ''adr'' of None \<Rightarrow> ''-1'' | Some p \<Rightarrow> p) (tables t)"
  by (simp add: level_def toy_server_def toy_account_def split: option.split)


theorem table_request_witness:
  "\<exists>s' w' tx. server_Table toy_server_env [] 5 ''u-QAQ-p'' ''n'' [''adr4''] (toy_server [''t'' \<mapsto> [''adr'' \<mapsto> ''3'']]) (\<lambda>_. pool_Init)
       = Inr (True, s', w') \<and> pool_rep tTxID (txPoolTable (w' (''b'', 3301))) [tx] \<and> PermissionTable tx = [''adr4'']
   \<and> server_Table toy_server_env [] 5 ''u-QAQ-p'' ''t'' [''adr4''] (toy_server [''t'' \<mapsto> [''adr'' \<mapsto> ''3'']]) (\<lambda>_. pool_Init)
       = Inr (False, toy_server [''t'' \<mapsto> [''adr'' \<mapsto> ''3'']], \<lambda>_. pool_Init)"
proof -
  let ?s = "toy_server [''t'' \<mapsto> [''adr'' \<mapsto> ''3'']]" and ?V = toy_server_env
  have e: "e_hashes (sv_alg ?V) = toy_crypto" "sv_me ?V = (''a'', 3301)" "sv_nodes ?V = two_nodes"
    by (simp_all add: toy_server_env_def toy_env_def)
  have tx: "\<exists>tx. table_tx_Init (e_hashes (sv_alg ?V)) [] 5 t [''adr4''] (ac_UserName toy_account) (ac_PublicKey toy_account)
      (ac_PrivateKey toy_account) zero_table_tx = Inr tx" for t
    by (simp add: e table_tx_Init_def table_Sign_def toy_crypto_def Let_def)
  have a: "EffectiveUser (manage ?s) ''u-QAQ-p'' = Some toy_account" by (simp add: toy_server_def)
  have k: "ac_PublicKey toy_account = [CHR 0x01] @ [CHR 0x02]" by (simp add: toy_account_def)
  have v: "ecdsa_verify (e_hashes (sv_alg ?V)) (be_nat [CHR 0x01]) (be_nat [CHR 0x02]) d sig"
    if "ecdsa_sign (e_hashes (sv_alg ?V)) [] (ac_PrivateKey toy_account) d = Some sig" for d sig
    using that by (simp add: e toy_crypto_def toy_account_def be_nat_def numeral_3_eq_3)
  have r: "pool_rep tTxID (txPoolTable pool_Init) []" by (simp add: pool_Init_def pool_rep_def pool_init_def tq_rep_init)
  have own: "pool_rep tTxID (txPoolTable (nd_pool (sv_node ?s))) []" using r by (simp add: toy_server_def toy_node_def)
  have d: "distinct (map node_address (sv_nodes ?V))" by (simp add: e two_nodes_def node_address_def)
  have oth: "pool_rep tTxID (txPoolTable ((\<lambda>_ :: address. pool_Init) (node_address m))) [] \<and> tTxID tx \<notin> tTxID ` set []
     \<and> int (length ([] :: table_tx list)) \<noteq> maxSize (pqueue_of (txPoolTable ((\<lambda>_ :: address. pool_Init) (node_address m))))" for m tx
    using r by (simp add: pool_Init_def pool_init_def queue_init_def)
  note req = table_request [where w = "\<lambda>_. pool_Init" and ys = "\<lambda>_. []" and xs = "[]", OF a k _ _ v _ own _ d oth, of 1]
  obtain tx where t: "table_tx_Init (e_hashes (sv_alg ?V)) [] 5 ''n'' [''adr4''] (ac_UserName toy_account) (ac_PublicKey toy_account)
      (ac_PrivateKey toy_account) zero_table_tx = Inr tx" using tx by blast
  obtain tx' where t': "table_tx_Init (e_hashes (sv_alg ?V)) [] 5 ''t'' [''adr4''] (ac_UserName toy_account) (ac_PublicKey toy_account)
      (ac_PrivateKey toy_account) zero_table_tx = Inr tx'" using tx by blast
  have ti: "tableInfo (nd_cache (sv_node ?s)) = [''t'' \<mapsto> [''adr'' \<mapsto> ''3'']]" by (simp add: toy_server_def)
  have l: "may_define ''u-QAQ-p'' ''n'' ?s" "\<not> may_define ''u-QAQ-p'' ''t'' ?s"
    by (simp_all add: may_define_def toy_server_level ti)
  have b: "back_insert tTimeStamp tx [] = [tx]" by (simp add: back_insert_def later_def not_later_def)
  from req [OF _ _ _ t] l(1) obtain s' w' where 1:
    "server_Table ?V [] 5 ''u-QAQ-p'' ''n'' [''adr4''] ?s (\<lambda>_. pool_Init) = Inr (True, s', w')"
    "\<forall>m \<in> set (sv_nodes ?V). \<not> is_me (sv_me ?V) m \<longrightarrow> pool_rep tTxID (txPoolTable (w' (node_address m))) [tx]"
    "PermissionTable tx = [''adr4'']"
    by (auto simp: b)
  have "pool_rep tTxID (txPoolTable (w' (''b'', 3301))) [tx]"
    using 1(2) by (simp add: e two_nodes_def node_address_def is_me_def)
  moreover have "server_Table ?V [] 5 ''u-QAQ-p'' ''t'' [''adr4''] ?s (\<lambda>_. pool_Init) = Inr (False, ?s, \<lambda>_. pool_Init)"
    using req [OF _ _ _ t'] l(2) by simp
  ultimately show ?thesis using 1(1,3) by blast
qed

definition secret_tx :: transaction where
  "secret_tx = zero_tx\<lparr>Table := ''a-QAQ-b'', Key := ''c'', Value := ''secret''\<rparr>"

definition leaky_server :: "mapdb server" where
  "leaky_server = (toy_server Map.empty)\<lparr>sv_node := toy_node\<lparr>nd_cache :=
     \<lparr>lru3Query = lru_init\<lparr>listTx := the (lruTx_queueIn ''a-QAQ-b-QAQ-c'' secret_tx lruTx_init)\<rparr>,
      tableInfo = [''a'' \<mapsto> [''adr'' \<mapsto> ''1'']]\<rparr>\<rparr>\<rparr>"

theorem get_crosses_tables_witness:
  "\<exists>s'. level ''u-QAQ-p'' ''a-QAQ-b'' leaky_server = None
     \<and> server_Get toy_server_env ''u-QAQ-p'' ''b-QAQ-c'' ''a'' leaky_server = return_run (''secret'', s')"
proof -
  have k: "Table secret_tx @ ''-QAQ-'' @ Key secret_tx = ''a-QAQ-b-QAQ-c''" "Value secret_tx = ''secret''"
    by (simp_all add: secret_tx_def)
  have l: "level ''u-QAQ-p'' t leaky_server = (if t = ''a'' then Some ''1'' else None)" for t
    by (simp add: level_def leaky_server_def toy_server_def toy_account_def)
  have c: "getInTX ''a-QAQ-b-QAQ-c'' (lru3Query (nd_cache (sv_node leaky_server))) = Some secret_tx"
    "\<exists>q. lruTx_toTail ''a-QAQ-b-QAQ-c'' (listTx (lru3Query (nd_cache (sv_node leaky_server)))) = Some q"
    by (simp_all add: leaky_server_def lru_eval getInTX_def lru_init_def)
  then obtain q where q: "lruTx_toTail ''a-QAQ-b-QAQ-c'' (listTx (lru3Query (nd_cache (sv_node leaky_server)))) = Some q" by blast
  have "\<exists>s'. server_Get toy_server_env ''u-QAQ-p'' ''b-QAQ-c'' ''a'' leaky_server = return_run (Value secret_tx, s')"
  proof (rule get_crosses_tables [where p = "''1''" and q = q])
    show "level ''u-QAQ-p'' ''a'' leaky_server = Some ''1''" using l [of "''a''"] by simp
    show "getInTX (Table secret_tx @ ''-QAQ-'' @ Key secret_tx) (lru3Query (nd_cache (sv_node leaky_server))) = Some secret_tx"
      unfolding k by (rule c(1))
    show "lruTx_toTail (Table secret_tx @ ''-QAQ-'' @ Key secret_tx) (listTx (lru3Query (nd_cache (sv_node leaky_server)))) = Some q"
      unfolding k by (rule q)
  qed (simp_all add: secret_tx_def)
  then show ?thesis using l [of "''a-QAQ-b''"] k(2) by simp
qed

theorem reads_need_permission_witness:
  "server_Get toy_server_env ''x'' ''k'' ''t'' (toy_server Map.empty) = return_run ([], toy_server Map.empty)"
  using reads_need_permission [of "''x''" "''t''" "toy_server Map.empty" toy_server_env "''k''"]
  by (simp add: level_def toy_server_def split: option.split)

theorem server_restart_witness:
  "\<exists>s. server_Init (toy_server_env\<lparr>sv_alg := unsigned_env\<rparr>) grant_codec toy_state (Some toy_db) (Some toy_db) no_users = return_run s
    \<and> LastID (nd_tables (sv_node s)) = 1 \<and> length grant_blocks = 3"
proof -
  let ?V = "toy_server_env\<lparr>sv_alg := unsigned_env\<rparr>" and ?bs = "butlast grant_blocks"
  have d: "data_rep (e_bolt (sv_alg ?V)) (e_block (sv_alg ?V)) toy_chain (tl toy_blocks)"
    using unsigned_chain by simp
  have t: "table_rep (e_bolt (sv_alg ?V)) grant_codec grant_chain (?bs @ [grant_block ''a'' genesis_mark []])"
    using grant_rep by (simp add: grant_blocks_def)
  have f: "BlockBucket grant_chain = ''blockBucket''" "LastHashKey grant_chain = ''lastHashKey''" "Db grant_chain = toy_db"
    by (simp_all add: grant_chain_def new_table_chain_def)
  have g: "genesis_mark \<notin> tCurrentBlockHash ` set (?bs @ [grant_block ''a'' genesis_mark []])"
    by (simp add: grant_blocks_def genesis_mark_def)
  have e: "[] \<notin> set (PermissionTable tx)" if "tx \<in> set (concat (map tTransactions ?bs))" for tx
    using that by (auto simp: grant_blocks_def)
  from server_restart [OF d t _ _ f(1,2) g e, of toy_state no_users] show ?thesis
    by (auto simp: f(3) grant_blocks_def)
qed

end
