(* ===== verification/Exec.thy ===== *)
theory Exec
  imports Server_Api
begin

text \<open>
  \<open>serverExec/service.go\<close>: the command service for remote clients. \<open>Cmd\<close> looks at the fields of the
  request one after the other; every group of fields that is set runs a request of \<open>Server_Api\<close>, and
  the reply of the last one is returned. The streaming calls only exchange demonstration texts.
\<close>

section \<open>Requests and replies\<close>

record command_request =
  q_ServerPassword :: string
  q_LoginAccount :: string
  q_LoginPassword :: string
  q_RegisterAccount :: string
  q_RegisterPassword :: string
  q_ViewMyinfo :: string
  q_Uid :: string
  q_LogoutIng :: string
  q_TabelName :: string
  q_PermissionTable :: string
  q_Key :: string
  q_Value :: string

text \<open>The fields of the reply that \<open>Cmd\<close> sets; table names come from a Go map and have no order.\<close>

record command_reply =
  r_ServerConnect :: string
  r_Login :: string
  r_Register :: string
  r_Uaddress :: string
  r_LogoutOk :: string
  r_TabelOk :: string
  r_TabelNames :: "string set"
  r_PutOk :: string
  r_GetOk :: string
  r_Value :: string

definition no_reply :: command_reply where
  "no_reply = \<lparr>r_ServerConnect = [], r_Login = [], r_Register = [], r_Uaddress = [], r_LogoutOk = [], r_TabelOk = [],
     r_TabelNames = {}, r_PutOk = [], r_GetOk = [], r_Value = []\<rparr>"

definition truth :: "bool \<Rightarrow> string" where
  "truth b = (if b then ''True'' else ''False'')"

section \<open>Cmd\<close>

text \<open>
  What the call works on: the reply so far (nil at first), the global \<open>UID\<close>, the server and the pools
  of the other nodes. \<open>pause\<close> is what happens at the node during the five seconds after a table was
  requested.
\<close>

record 'db exec_state =
  x_reply :: "command_reply option"
  x_UID :: string
  x_server :: "'db server"
  x_pools :: pools

definition cmd_password :: "command_request \<Rightarrow> 'db exec_state \<Rightarrow> 'db exec_state" where
  "cmd_password q x =
     (if q_ServerPassword q = [] then x
      else x\<lparr>x_reply := Some (no_reply\<lparr>r_ServerConnect := truth (q_ServerPassword q = ''123'')\<rparr>)\<rparr>)"

definition cmd_login :: "'db server_env \<Rightarrow> command_request \<Rightarrow> 'db exec_state \<Rightarrow> 'db exec_state" where
  "cmd_login V q x =
     (if q_LoginAccount q = [] then x
      else let (ok, s) = SignInAccount V (q_LoginAccount q) (q_LoginPassword q) (x_server x) in
           if ok
           then let uid = session_id (q_LoginAccount q) (q_LoginPassword q)
                in x\<lparr>x_server := s, x_UID := uid,
                     x_reply := Some (no_reply\<lparr>r_Login := ''True'', r_TabelNames := MyTable uid s\<rparr>)\<rparr>
           else x\<lparr>x_server := s, x_reply := Some (no_reply\<lparr>r_Login := ''False''\<rparr>)\<rparr>)"

definition cmd_register :: "'db server_env \<Rightarrow> bytes \<Rightarrow> command_request \<Rightarrow> 'db exec_state \<Rightarrow> 'db exec_state" where
  "cmd_register V rnd q x =
     (if q_RegisterAccount q = [] then x
      else let (ok, s) = RegisterAccount V rnd (q_RegisterAccount q) (q_RegisterPassword q) (x_server x)
           in x\<lparr>x_server := s, x_reply := Some (no_reply\<lparr>r_Register := truth ok\<rparr>)\<rparr>)"

definition cmd_view :: "command_request \<Rightarrow> 'db exec_state \<Rightarrow> 'db exec_state" where
  "cmd_view q x =
     (if q_ViewMyinfo q = [] then x
      else let ad = CheckAccount (q_Uid q) (x_server x)
           in x\<lparr>x_reply := Some (no_reply\<lparr>r_Uaddress := (if ad \<noteq> [] then ad else ''False'')\<rparr>)\<rparr>)"

definition cmd_logout :: "command_request \<Rightarrow> 'db exec_state \<Rightarrow> 'db exec_state" where
  "cmd_logout q x =
     (if q_LogoutIng q = [] then x
      else let (ok, s) = SignOutAccount (q_Uid q) (x_server x)
           in x\<lparr>x_server := s, x_reply := Some (no_reply\<lparr>r_LogoutOk := truth ok\<rparr>)\<rparr>)"

definition cmd_table :: "'db server_env \<Rightarrow> bytes \<Rightarrow> int \<Rightarrow> ('db server \<Rightarrow> 'db server) \<Rightarrow> command_request \<Rightarrow>
    'db exec_state \<Rightarrow> 'db exec_state go" where
  "cmd_table V rnd now pause q x =
     (if q_TabelName q = [] \<or> q_PermissionTable q = [] then Inr x
      else bind_go (server_Table V rnd now (q_Uid q) (q_TabelName q) (split_at CHR '','' (q_PermissionTable q))
                      (x_server x) (x_pools x)) (\<lambda>(ok, s, w).
             let s' = pause s in
             Inr (x\<lparr>x_server := s', x_pools := w,
                    x_reply := Some (if ok then no_reply\<lparr>r_TabelOk := ''True'', r_TabelNames := MyTable (q_Uid q) s'\<rparr>
                                     else no_reply\<lparr>r_TabelOk := ''False''\<rparr>)\<rparr>)))"

definition cmd_put :: "'db server_env \<Rightarrow> bytes \<Rightarrow> int \<Rightarrow> command_request \<Rightarrow> 'db exec_state \<Rightarrow> 'db exec_state go" where
  "cmd_put V rnd now q x =
     (if q_Key q = [] \<or> q_Value q = [] \<or> q_TabelName q = [] then Inr x
      else bind_go (server_Put V rnd now (q_Uid q) (q_Key q) (q_Value q) (q_TabelName q) (x_server x) (x_pools x))
             (\<lambda>(ok, s, w). Inr (x\<lparr>x_server := s, x_pools := w, x_reply := Some (no_reply\<lparr>r_PutOk := truth ok\<rparr>)\<rparr>)))"

definition cmd_get :: "'db server_env \<Rightarrow> command_request \<Rightarrow> 'db exec_state \<Rightarrow> 'db exec_state run" where
  "cmd_get V q x =
     (if q_Key q = [] \<or> q_TabelName q = [] \<or> q_Value q \<noteq> [] then return_run x
      else bind_run (server_Get V (q_Uid q) (q_Key q) (q_TabelName q) (x_server x)) (\<lambda>(v, s).
             return_run (x\<lparr>x_server := s, x_reply := Some (if v \<noteq> [] then no_reply\<lparr>r_GetOk := ''True'', r_Value := v\<rparr>
                                                           else no_reply\<lparr>r_GetOk := ''False''\<rparr>)\<rparr>)))"

definition Cmd :: "'db server_env \<Rightarrow> bytes \<Rightarrow> int \<Rightarrow> ('db server \<Rightarrow> 'db server) \<Rightarrow> command_request \<Rightarrow>
    string \<times> 'db server \<times> pools \<Rightarrow> 'db exec_state run" where
  "Cmd V rnd now pause q st =
     (case st of (uid, s, w) \<Rightarrow>
        let x = cmd_logout q (cmd_view q (cmd_register V rnd q (cmd_login V q (cmd_password q
                  \<lparr>x_reply = None, x_UID = uid, x_server = s, x_pools = w\<rparr>)))) in
        bind_run (lift_go (cmd_table V rnd now pause q x)) (\<lambda>x1.
        bind_run (lift_go (cmd_put V rnd now q x1)) (cmd_get V q)))"

section \<open>Properties\<close>

text \<open>Whether a request asks for anything but a password check.\<close>

definition asks :: "command_request \<Rightarrow> bool" where
  "asks q \<longleftrightarrow> q_LoginAccount q \<noteq> [] \<or> q_RegisterAccount q \<noteq> [] \<or> q_ViewMyinfo q \<noteq> [] \<or> q_LogoutIng q \<noteq> []
     \<or> q_TabelName q \<noteq> [] \<and> (q_PermissionTable q \<noteq> [] \<or> q_Key q \<noteq> [])"

lemma cmd_pure_reply:
  "cmd_logout q (cmd_view q (cmd_register V rnd q (cmd_login V q (x\<lparr>x_reply := r\<rparr>)))) =
     (if q_LoginAccount q = [] \<and> q_RegisterAccount q = [] \<and> q_ViewMyinfo q = [] \<and> q_LogoutIng q = []
      then x\<lparr>x_reply := r\<rparr> else cmd_logout q (cmd_view q (cmd_register V rnd q (cmd_login V q x))))"
  by (cases "q_LoginAccount q = []"; cases "q_RegisterAccount q = []"; cases "q_ViewMyinfo q = []"; cases "q_LogoutIng q = []")
     (simp_all add: cmd_login_def cmd_register_def cmd_view_def cmd_logout_def Let_def split: prod.split)

lemma cmd_table_reply:
  "cmd_table V rnd now pause q (x\<lparr>x_reply := r\<rparr>) =
     (if q_TabelName q = [] \<or> q_PermissionTable q = [] then Inr (x\<lparr>x_reply := r\<rparr>) else cmd_table V rnd now pause q x)"
  by (simp add: cmd_table_def Let_def)

lemma cmd_put_reply:
  "cmd_put V rnd now q (x\<lparr>x_reply := r\<rparr>) =
     (if q_Key q = [] \<or> q_Value q = [] \<or> q_TabelName q = [] then Inr (x\<lparr>x_reply := r\<rparr>) else cmd_put V rnd now q x)"
  by (simp add: cmd_put_def)

lemma cmd_get_reply:
  "cmd_get V q (x\<lparr>x_reply := r\<rparr>) =
     (if q_Key q = [] \<or> q_TabelName q = [] \<or> q_Value q \<noteq> [] then return_run (x\<lparr>x_reply := r\<rparr>) else cmd_get V q x)"
  by (simp add: cmd_get_def)

lemma lift_go_Inr [simp]: "lift_go (Inr x) = Some (Inr x)"
  by (simp add: lift_go_def)

text \<open>
  The server password protects nothing: a request that asks for anything else runs and is answered
  in the same way whatever password it carries, and a request that asks for nothing else changes
  nothing, whatever the answer.
\<close>

theorem password_gates_nothing:
  "(asks q \<longrightarrow> Cmd V rnd now pause (q\<lparr>q_ServerPassword := pw\<rparr>) st = Cmd V rnd now pause q st)
   \<and> (\<not> asks q \<longrightarrow> (\<exists>r. Cmd V rnd now pause q (uid, s, w) =
        return_run \<lparr>x_reply = r, x_UID = uid, x_server = s, x_pools = w\<rparr>))"
proof -
  obtain uid0 s0 w0 where st: "st = (uid0, s0, w0)" by (cases st)
  let ?x = "\<lambda>uid s w. \<lparr>x_reply = None, x_UID = uid, x_server = s, x_pools = w\<rparr>"
  let ?q = "q\<lparr>q_ServerPassword := pw\<rparr>"
  let ?rest = "\<lambda>x. bind_run (lift_go (cmd_table V rnd now pause q
      (cmd_logout q (cmd_view q (cmd_register V rnd q (cmd_login V q x))))))
      (\<lambda>x1. bind_run (lift_go (cmd_put V rnd now q x1)) (cmd_get V q))"
  have pw: "cmd_login V ?q = cmd_login V q" "cmd_register V rnd ?q = cmd_register V rnd q" "cmd_view ?q = cmd_view q"
    "cmd_logout ?q = cmd_logout q" "cmd_table V rnd now pause ?q = cmd_table V rnd now pause q"
    "cmd_put V rnd now ?q = cmd_put V rnd now q" "cmd_get V ?q = cmd_get V q"
    by (simp_all add: fun_eq_iff cmd_login_def cmd_register_def cmd_view_def cmd_logout_def cmd_table_def cmd_put_def cmd_get_def
        cong: if_cong)
  have cmd: "Cmd V rnd now pause q (uid, s, w) = ?rest (cmd_password q (?x uid s w))"
    "Cmd V rnd now pause ?q (uid, s, w) = ?rest (cmd_password ?q (?x uid s w))" for uid s w
    by (simp_all add: Cmd_def Let_def pw)
  have rest: "asks q \<Longrightarrow> ?rest (x\<lparr>x_reply := r\<rparr>) = ?rest x" "\<not> asks q \<Longrightarrow> ?rest x = return_run x" for x r
  proof -
    show "?rest (x\<lparr>x_reply := r\<rparr>) = ?rest x" if "asks q"
      using that unfolding asks_def cmd_pure_reply
      by (auto simp: cmd_table_reply cmd_put_reply cmd_get_reply cmd_login_def cmd_register_def cmd_view_def cmd_logout_def
          cmd_table_def cmd_put_def cmd_get_def)
    show "?rest x = return_run x" if "\<not> asks q"
      using that unfolding asks_def
      by (auto simp: cmd_login_def cmd_register_def cmd_view_def cmd_logout_def cmd_table_def cmd_put_def cmd_get_def)
  qed
  have p: "\<exists>r. cmd_password q' (?x uid s w) = (?x uid s w)\<lparr>x_reply := r\<rparr>" for q' uid s w
    by (auto simp: cmd_password_def)
  have "Cmd V rnd now pause ?q st = Cmd V rnd now pause q st" if "asks q"
    using p [of q uid0 s0 w0] p [of ?q uid0 s0 w0] rest(1) [OF that] unfolding st cmd by metis
  moreover have "\<exists>r. Cmd V rnd now pause q (uid, s, w) = return_run \<lparr>x_reply = r, x_UID = uid, x_server = s, x_pools = w\<rparr>"
    if "\<not> asks q"
    using p [of q uid s w] rest(2) [OF that] unfolding cmd by auto
  ultimately show ?thesis by blast
qed

end
