(* ===== verification/Exec_Streams.thy ===== *)
theory Exec_Streams
  imports Strconv
begin

text \<open>
  \<open>serverExec/service.go\<close>, the streaming calls. What a stream delivers is the list of results of
  \<open>Recv\<close>: a text, or no value for an error (the end of the stream included), for which the generated
  code returns a nil message. A list that ends early stands for a client that neither sends nor
  closes, and the call blocks. Errors of \<open>Send\<close> are only printed, so a call's sends are the texts
  it hands to the stream.
\<close>

section \<open>The three calls\<close>

function stream_server_loop :: "(nat \<Rightarrow> string) \<Rightarrow> nat \<Rightarrow> string list" where
  "stream_server_loop clock i = (let i = i + 1 in if 2 < i then [] else clock i # stream_server_loop clock i)"
  by auto
termination
  by (relation "measure (\<lambda>(clock, i). 3 - i)") auto

declare stream_server_loop.simps [simp del]

text \<open>\<open>clock i\<close> is the time of the \<open>i\<close>-th turn as text.\<close>

definition StreamServer :: "(nat \<Rightarrow> string) \<Rightarrow> string list" where
  "StreamServer clock = stream_server_loop clock 0"

fun stream_client_loop :: "nat \<Rightarrow> string option list \<Rightarrow> string list run" where
  "stream_client_loop i rs =
     (if 2 < i then return_run []
      else case rs of
             [] \<Rightarrow> None
           | None # rest \<Rightarrow> return_run []
           | Some d # rest \<Rightarrow> bind_run (stream_client_loop (i + 1) rest) (\<lambda>ds. return_run (d # ds)))"

text \<open>The texts printed; the call then sends its closing text.\<close>

definition StreamClient :: "string option list \<Rightarrow> string list run" where
  "StreamClient rs = stream_client_loop 0 rs"

text \<open>The two goroutines of \<open>StreamTwo\<close>: the first one reads the field of a nil message after an error.\<close>

fun stream_two_recv :: "nat \<Rightarrow> string option list \<Rightarrow> string list run" where
  "stream_two_recv i rs =
     (if 20 < i then return_run []
      else case rs of
             [] \<Rightarrow> None
           | None # rest \<Rightarrow> panic_run NilDeref
           | Some d # rest \<Rightarrow> bind_run (stream_two_recv (i + 1) rest) (\<lambda>ds. return_run (d # ds)))"

text \<open>The text the node sends, in UTF-8, with the number of the turn.\<close>

definition server_text :: string where
  "server_text = map char_of [230, 136, 145, 230, 152, 175, 230, 156, 141, 229, 138, 161, 229, 153, 168, 32 :: nat]"

function stream_two_send :: "nat \<Rightarrow> string list" where
  "stream_two_send i = (if 20 < i then [] else (server_text @ Itoa (int i)) # stream_two_send (i + 1))"
  by auto
termination
  by (relation "measure (\<lambda>i. 21 - i)") auto

declare stream_client_loop.simps [simp del] stream_two_recv.simps [simp del] stream_two_send.simps [simp del]

text \<open>Both goroutines have to end; a panic of the first one is the end of the program.\<close>

definition StreamTwo :: "string option list \<Rightarrow> (string list \<times> string list) run" where
  "StreamTwo rs = bind_run (stream_two_recv 0 rs) (\<lambda>got. return_run (got, stream_two_send 0))"

section \<open>Properties\<close>

lemma stream_two_recv_texts:
  "stream_two_recv i (map Some ds @ rs) =
     (if 21 \<le> i + length ds then return_run (take (21 - i) ds)
      else bind_run (stream_two_recv (i + length ds) rs) (\<lambda>ds'. return_run (ds @ ds')))"
proof (induction ds arbitrary: i)
  case Nil
  then show ?case by (cases "stream_two_recv i rs") (auto simp: stream_two_recv.simps [of i] bind_run_def split: sum.splits)
next
  case (Cons d ds)
  show ?case
  proof (cases "20 < i")
    case True
    then show ?thesis by (simp add: stream_two_recv.simps [of i])
  next
    case False
    then have "21 - i = Suc (21 - Suc i)" by simp
    then show ?thesis using Cons.IH [of "Suc i"] False
      by (cases "stream_two_recv (Suc (i + length ds)) rs") (auto simp: stream_two_recv.simps [of i] bind_run_def split: sum.splits)
  qed
qed

lemma stream_two_send_length: "i \<le> 21 \<Longrightarrow> length (stream_two_send i) = 21 - i"
proof (induction i rule: stream_two_send.induct)
  case (1 i)
  then show ?case by (cases "i = 21") (simp_all add: stream_two_send.simps [of i] stream_two_send.simps [of 21])
qed

text \<open>
  \<open>StreamTwo\<close> serves exactly the client that sends 21 texts: it then prints them and has sent 21
  of its own. A client that ends its stream, or loses its connection, any earlier takes the whole
  node down with it; one that falls silent earlier keeps the call open for ever.
\<close>

theorem stream_two_clients:
  "StreamTwo (map Some ds @ None # rest) =
     (if length ds < 21 then panic_run NilDeref else return_run (take 21 ds, stream_two_send 0))
   \<and> StreamTwo (map Some ds) = (if length ds < 21 then None else return_run (take 21 ds, stream_two_send 0))
   \<and> length (stream_two_send 0) = 21"
  using stream_two_recv_texts [of 0 ds "None # rest"] stream_two_recv_texts [of 0 ds "[]"] stream_two_send_length [of 0]
  by (simp add: StreamTwo_def stream_two_recv.simps [of "length ds"])

lemma stream_calls:
  "StreamServer clock = [clock 1, clock 2]"
  "StreamClient (Some a # Some b # Some c # rest) = return_run [a, b, c]"
  "StreamClient (Some a # None # rest) = return_run [a]"
  by (simp_all add: StreamServer_def stream_server_loop.simps StreamClient_def stream_client_loop.simps numeral_2_eq_2)

end
