(* ===== verification/Cluster_Update.thy ===== *)
theory Cluster_Update
  imports Cluster_Files
begin

text \<open>
  The loop of \<open>UpdateClusterFile\<close> (\<open>Cluster/cluster.go\<close>) over time. The loop is started on the cluster
  value the node had at start-up and keeps that value; \<open>delRepeatElem\<close> deletes in the array behind
  the value's slice, so the slice, whose length stays, has the last element once more for every
  deletion. From the first round on nobody else refers to that value (until then it is also the
  current cluster, and a broadcast adds to it), so \<open>arr\<close> below is its list of nodes when the first
  round begins. Between two rounds other goroutines change the cluster and the file as they like, and
  the marks of the book-keeper in the nodes, which all clusters share.
\<close>

section \<open>Deleting in place\<close>

text \<open>\<open>append(nodes[:i], nodes[i+1:]...)\<close> on the first \<open>n\<close> elements of an array.\<close>

definition shift_left :: "nat \<Rightarrow> nat \<Rightarrow> node list \<Rightarrow> node list" where
  "shift_left i n arr = take i arr @ take (n - Suc i) (drop (Suc i) arr) @ drop (n - 1) arr"

function del_in_place :: "nat \<Rightarrow> nat \<Rightarrow> node list \<Rightarrow> nat \<times> node list" where
  "del_in_place i n arr =
     (if int i < int n - 1
      then (if repeat_cond (take n arr) i then del_in_place i (n - 1) (shift_left i n arr) else del_in_place (Suc i) n arr)
      else (n, arr))"
  by auto
termination
  by (relation "measure (\<lambda>(i, n, arr). n - i)") auto

declare del_in_place.simps [simp del]

section \<open>The loop\<close>

text \<open>What happens in one pause: the marks, and what the other goroutines do to the cluster and the file.\<close>

type_synonym pause = "(node \<Rightarrow> bool) \<times> (cluster_state \<Rightarrow> cluster_state)"

definition remark :: "(node \<Rightarrow> bool) \<Rightarrow> node list \<Rightarrow> node list" where
  "remark marks = map (\<lambda>n. n\<lparr>Account := marks n\<rparr>)"

fun UpdateClusterFile :: "cluster_env \<Rightarrow> pause list \<Rightarrow> node list \<Rightarrow> cluster_state \<Rightarrow> (node list \<times> cluster_state) go" where
  "UpdateClusterFile E [] arr st = Inr (arr, st)"
| "UpdateClusterFile E ((marks, act) # ps) arr st =
     (let (n, arr') = del_in_place 1 (length arr) (remark marks arr)
      in bind_go (SaveClusterFile E ((act st)\<lparr>LocalNode := \<lparr>Nodes = take n arr', JoinKey = []\<rparr>\<rparr>))
           (UpdateClusterFile E ps arr'))"

section \<open>Properties\<close>

lemma shift_left_props:
  assumes "i < n" and "n \<le> length arr"
  shows "take (n - 1) (shift_left i n arr) = take i (take n arr) @ drop (Suc i) (take n arr)"
    and "length (shift_left i n arr) = length arr" and "set (shift_left i n arr) \<subseteq> set arr"
proof -
  have "take (n - 1) (shift_left i n arr) = take i arr @ take (n - Suc i) (drop (Suc i) arr)"
    using assms by (simp add: shift_left_def)
  also have "\<dots> = take i (take n arr) @ drop (Suc i) (take n arr)"
    using assms by (simp add: drop_take min_def)
  finally show "take (n - 1) (shift_left i n arr) = take i (take n arr) @ drop (Suc i) (take n arr)" .
  show "length (shift_left i n arr) = length arr" using assms by (simp add: shift_left_def)
  show "set (shift_left i n arr) \<subseteq> set arr"
    using set_take_subset set_drop_subset by (fastforce simp: shift_left_def)
qed

text \<open>The slice that is returned is what the deletion on values gives.\<close>

lemma del_in_place_props:
  assumes "del_in_place i n arr = (n', arr')" and "n \<le> length arr"
  shows "take n' arr' = del_repeat_from i (take n arr) \<and> n' \<le> length arr' \<and> length arr' = length arr \<and> set arr' \<subseteq> set arr"
  using assms
proof (induction i n arr arbitrary: n' arr' rule: del_in_place.induct)
  case (1 i n arr)
  show ?case
  proof (cases "int i < int n - 1")
    case False
    then show ?thesis using 1(3,4) by (auto simp: del_in_place.simps [of i n arr] del_repeat_from.simps [of i])
  next
    case True
    then have lt: "i < n" "int i < int (length (take n arr)) - 1" using 1(4) by simp_all
    show ?thesis
    proof (cases "repeat_cond (take n arr) i")
      case c: True
      note sh = shift_left_props [OF lt(1) 1(4)]
      have "del_in_place i (n - 1) (shift_left i n arr) = (n', arr')"
        using 1(3) True c by (simp add: del_in_place.simps [of i n arr])
      then have "take n' arr' = del_repeat_from i (take (n - 1) (shift_left i n arr)) \<and> n' \<le> length arr'
          \<and> length arr' = length (shift_left i n arr) \<and> set arr' \<subseteq> set (shift_left i n arr)"
        by (rule 1(1) [OF True c]) (use 1(4) sh(2) in simp)
      moreover have "del_repeat_from i (take n arr) = del_repeat_from i (take i (take n arr) @ drop (Suc i) (take n arr))"
        by (subst del_repeat_from.simps) (simp only: lt(2) c if_True)
      ultimately show ?thesis using sh by auto
    next
      case c: False
      have "del_in_place (Suc i) n arr = (n', arr')" using 1(3) True c by (simp add: del_in_place.simps [of i n arr])
      then have "take n' arr' = del_repeat_from (Suc i) (take n arr) \<and> n' \<le> length arr' \<and> length arr' = length arr
          \<and> set arr' \<subseteq> set arr" by (rule 1(2) [OF True c _ 1(4)])
      moreover have "del_repeat_from i (take n arr) = del_repeat_from (Suc i) (take n arr)"
        by (subst del_repeat_from.simps) (simp only: lt(2) c if_True if_False)
      ultimately show ?thesis by simp
    qed
  qed
qed

lemma delRepeatElem_in_place:
  "del_in_place 1 (length arr) arr = (n, arr') \<Longrightarrow>
     take n arr' = delRepeatElem arr \<and> length arr' = length arr \<and> set arr' \<subseteq> set arr"
  using del_in_place_props [of 1 "length arr" arr n arr'] by (simp add: delRepeatElem_def)

definition places :: "node list \<Rightarrow> (string \<times> int) set" where
  "places ns = (\<lambda>n. (IP n, Port n)) ` set ns"

lemma places_remark [simp]: "places (remark marks ns) = places ns"
  by (simp add: places_def remark_def image_image)

lemma UpdateClusterFile_rounds:
  assumes "ps \<noteq> []"
  shows "\<exists>arr' st'. UpdateClusterFile E ps arr st = Inr (arr', st') \<and> length arr' = length arr
    \<and> places (Nodes (LocalNode st')) \<subseteq> places arr \<and> JoinKey (LocalNode st') = []
    \<and> ClusterInfo st' = Some (xor_stream (key_stream E file_key) 0 (enc_cluster E (LocalNode st')))"
  using assms
proof (induction ps arbitrary: arr st)
  case (Cons p ps)
  obtain marks act where p: "p = (marks, act)" by (cases p)
  obtain n arr' where d: "del_in_place 1 (length arr) (remark marks arr) = (n, arr')"
    by (cases "del_in_place 1 (length arr) (remark marks arr)")
  have len: "length (remark marks arr) = length arr" by (simp add: remark_def)
  note in_place = delRepeatElem_in_place [of "remark marks arr", unfolded len, OF d]
  have sub: "places arr' \<subseteq> places arr"
    using in_place places_remark [of marks arr] unfolding places_def by blast
  have "places (take n arr') \<subseteq> places arr'" unfolding places_def using set_take_subset by fast
  then have now: "places (take n arr') \<subseteq> places arr" using sub by blast
  obtain st1 where st1: "SaveClusterFile E ((act st)\<lparr>LocalNode := \<lparr>Nodes = take n arr', JoinKey = []\<rparr>\<rparr>) = Inr st1"
    by (simp add: SaveClusterFile_eq)
  then have after: "LocalNode st1 = \<lparr>Nodes = take n arr', JoinKey = []\<rparr>"
    "ClusterInfo st1 = Some (xor_stream (key_stream E file_key) 0 (enc_cluster E (LocalNode st1)))"
    by (auto simp: SaveClusterFile_eq)
  have step: "UpdateClusterFile E (p # ps) arr st = UpdateClusterFile E ps arr' st1"
    using d st1 by (simp add: p)
  show ?case
  proof (cases "ps = []")
    case True
    then show ?thesis using step after now in_place len by simp
  next
    case False
    then show ?thesis using Cons.IH [of arr' st1] step sub in_place len by auto
  qed
qed simp


text \<open>A file format for the clusters of one node, for the witness.\<close>

definition lone_node :: "bool \<Rightarrow> node" where
  "lone_node m = \<lparr>IP = ''a'', Port = 3301, Account = m\<rparr>"

definition lone_env :: cluster_env where
  "lone_env = toy_cluster_env\<lparr>enc_cluster := \<lambda>c. map (\<lambda>n. if Account n then CHR ''y'' else CHR ''n'') (Nodes c),
     dec_cluster := \<lambda>b. Some \<lparr>Nodes = map (\<lambda>c. lone_node (c = CHR ''y'')) b, JoinKey = []\<rparr>\<rparr>"

lemma lone_env_decodes:
  assumes "places (Nodes c) \<subseteq> places [lone_node False]" and "JoinKey c = []"
  shows "dec_cluster lone_env (enc_cluster lone_env c) = Some c"
proof -
  have "n = lone_node (Account n)" if "n \<in> set (Nodes c)" for n
    using assms(1) that by (cases n) (auto simp: places_def lone_node_def)
  then have "map (\<lambda>n. lone_node (Account n)) (Nodes c) = Nodes c" by (simp add: list.map_ident_strong)
  moreover have "((if Account (n :: node) then CHR ''y'' else CHR ''n'') = CHR ''y'') = Account n" for n by simp
  ultimately show ?thesis using assms(2) by (cases c) (simp add: lone_env_def comp_def)
qed


end
