(* ===== verification/Terminal.thy ===== *)
theory Terminal
  imports Exec
begin

text \<open>
  \<open>server/cmd.go\<close>: the terminal of a node. \<open>Command\<close> reads a line, splits it at blanks and runs the
  command its first word names on the server, the pool, the chains and the cluster of the node. A
  line is one step here: its state is that of the node, of the pools and the cluster files of the
  other nodes, and the user that is set in the terminal. What a command prints is a result.
\<close>

section \<open>State\<close>

text \<open>
  \<open>t_loops\<close> counts the running loops that distribute data blocks (there are as many for table
  blocks): every turn of the loop starts another one of each. \<open>t_started\<close> counts how often the
  cluster services (file server, Raft, consensus) have been started.
\<close>

record 'db terminal =
  t_username :: string
  t_password :: string
  t_uID :: string
  t_server :: "'db server"
  t_pools :: pools
  t_cluster :: cluster_state
  t_others :: "address \<Rightarrow> cluster_state"
  t_isAccount :: bool
  t_loops :: nat
  t_started :: nat

text \<open>
  \<open>tm_client\<close> is the transfer of a cluster file (\<open>fetch_file\<close>), \<open>tm_tables\<close> and \<open>tm_blocks\<close> what the other nodes
  answer to a request for missing blocks. \<open>tm_marks\<close> is what the heart beats of Raft, which runs beside
  the terminal, make of the marks of the book-keeper in the cluster while \<open>join\<close> sleeps before it asks
  for table blocks (0) and for data blocks (1).
\<close>

record 'db terminal_env =
  tm_server :: "'db server_env"
  tm_cluster :: cluster_env
  tm_client :: "cluster_state \<Rightarrow> cluster_state \<Rightarrow> (bool \<times> cluster_state) run"
  tm_tcd :: "table_block codec"
  tm_tables :: "node \<Rightarrow> bytes \<Rightarrow> table_block_msg list option"
  tm_blocks :: "node \<Rightarrow> bytes \<Rightarrow> data_block_msg list option"
  tm_marks :: "nat \<Rightarrow> node list \<Rightarrow> node list"

datatype printed = NoOutput | Usage | Hint | Told bool | Shown string | Listed "transaction list"
  | Tabled "string \<rightharpoonup> transaction" | Named "string set" | Cluster "(string \<times> int) list" | InRound uint64
  | BlockShown block | Permissions "string \<rightharpoonup> (string \<rightharpoonup> string)" | Sizes "int \<times> int" "int \<times> int"

text \<open>The requests work with the nodes that the cluster file names at the moment.\<close>

definition server_env_now :: "'db terminal_env \<Rightarrow> 'db terminal \<Rightarrow> 'db server_env" where
  "server_env_now T t = (tm_server T)\<lparr>sv_nodes := Nodes (LocalNode (t_cluster t))\<rparr>"

definition terminal_session :: "'db terminal \<Rightarrow> string" where
  "terminal_session t = session_id (t_username t) (t_password t)"

definition words :: "string \<Rightarrow> string list" where
  "words line = filter (\<lambda>w. w \<noteq> []) (split_at CHR '' '' line)"

section \<open>Users\<close>

definition run_u_in :: "string list \<Rightarrow> 'db terminal \<Rightarrow> printed \<times> 'db terminal" where
  "run_u_in args t =
     (if length args = 3
      then (NoOutput, t\<lparr>t_username := args ! 1, t_password := args ! 2, t_uID := args ! 1 @ ''-QAQ-'' @ args ! 2\<rparr>)
      else (Hint, t))"

definition run_register :: "'db terminal_env \<Rightarrow> bytes \<Rightarrow> string list \<Rightarrow> 'db terminal \<Rightarrow> printed \<times> 'db terminal" where
  "run_register T rnd args t =
     (if length args = 3
      then let (ok, s) = RegisterAccount (server_env_now T t) rnd (args ! 1) (args ! 2) (t_server t)
           in (Told ok, t\<lparr>t_server := s\<rparr>)
      else (Hint, t))"

definition run_login :: "'db terminal_env \<Rightarrow> string list \<Rightarrow> 'db terminal \<Rightarrow> printed \<times> 'db terminal" where
  "run_login T args t =
     (if length args = 3
      then let (ok, s) = SignInAccount (server_env_now T t) (args ! 1) (args ! 2) (t_server t)
           in (Told ok, t\<lparr>t_server := s\<rparr>)
      else (Hint, t))"

definition run_address :: "string list \<Rightarrow> 'db terminal \<Rightarrow> printed \<times> 'db terminal" where
  "run_address args t = (if length args = 1 then (Shown (CheckAccount (t_uID t) (t_server t)), t) else (NoOutput, t))"

text \<open>Signing out forgets the name and the password of the terminal, but not \<open>uID\<close>.\<close>

definition run_exit :: "string list \<Rightarrow> 'db terminal \<Rightarrow> (printed \<times> 'db terminal) go" where
  "run_exit args t =
     (if t_username t = [] then Inl OsExit
      else if length args = 1
      then let (ok, s) = SignOutAccount (terminal_session t) (t_server t)
           in Inr (Told ok, t\<lparr>t_server := s, t_username := [], t_password := []\<rparr>)
      else Inr (NoOutput, t))"

section \<open>Tables\<close>

definition run_table :: "'db terminal_env \<Rightarrow> bytes \<Rightarrow> int \<Rightarrow> string list \<Rightarrow> 'db terminal \<Rightarrow> (printed \<times> 'db terminal) go" where
  "run_table T rnd now args t =
     (if 3 \<le> length args
      then bind_go (server_Table (server_env_now T t) rnd now (terminal_session t) (args ! 1) (drop 2 args)
                      (t_server t) (t_pools t))
             (\<lambda>(ok, s, w). Inr (Told ok, t\<lparr>t_server := s, t_pools := w\<rparr>))
      else Inr (Hint, t))"

definition run_put :: "'db terminal_env \<Rightarrow> bytes \<Rightarrow> int \<Rightarrow> string list \<Rightarrow> 'db terminal \<Rightarrow> (printed \<times> 'db terminal) go" where
  "run_put T rnd now args t =
     (if length args = 4
      then bind_go (server_Put (server_env_now T t) rnd now (terminal_session t) (args ! 1) (args ! 2) (args ! 3)
                      (t_server t) (t_pools t))
             (\<lambda>(ok, s, w). Inr (Told ok, t\<lparr>t_server := s, t_pools := w\<rparr>))
      else Inr (NoOutput, t))"

definition run_get :: "'db terminal_env \<Rightarrow> string list \<Rightarrow> 'db terminal \<Rightarrow> (printed \<times> 'db terminal) run" where
  "run_get T args t =
     (if length args = 3
      then bind_run (server_Get (server_env_now T t) (terminal_session t) (args ! 1) (args ! 2) (t_server t))
             (\<lambda>(v, s). return_run (Shown v, t\<lparr>t_server := s\<rparr>))
      else return_run (NoOutput, t))"

definition run_gethistory :: "'db terminal_env \<Rightarrow> string list \<Rightarrow> 'db terminal \<Rightarrow> (printed \<times> 'db terminal) run" where
  "run_gethistory T args t =
     (if length args = 3
      then bind_run (server_GetHistory (server_env_now T t) (terminal_session t) (args ! 1) (args ! 2) (t_server t))
             (\<lambda>txs. return_run (Listed txs, t))
      else return_run (NoOutput, t))"

definition run_gettable :: "'db terminal_env \<Rightarrow> string list \<Rightarrow> 'db terminal \<Rightarrow> (printed \<times> 'db terminal) run" where
  "run_gettable T args t =
     (if length args = 2
      then bind_run (server_GetTableData (server_env_now T t) (terminal_session t) (args ! 1) (t_server t))
             (\<lambda>m. return_run (Tabled m, t))
      else return_run (NoOutput, t))"

definition run_mytables :: "'db terminal \<Rightarrow> printed \<times> 'db terminal" where
  "run_mytables t = (Named (MyTable (t_uID t) (t_server t)), t)"

section \<open>Cluster\<close>

definition run_creat :: "'db terminal_env \<Rightarrow> string list \<Rightarrow> 'db terminal \<Rightarrow> (printed \<times> 'db terminal) go" where
  "run_creat T args t =
     (if length args = 2
      then bind_go (SaveClusterFile (tm_cluster T) (cluster_Init (tm_cluster T) (args ! 1) (t_cluster t)))
             (\<lambda>c. Inr (NoOutput, t\<lparr>t_cluster := c, t_started := t_started t + 1\<rparr>))
      else Inr (NoOutput, t))"

text \<open>What follows once the node is in the cluster: the broadcast, the services, the two chains.\<close>

definition after_joining :: "'db terminal_env \<Rightarrow> address \<Rightarrow> 'db terminal \<Rightarrow> (printed \<times> 'db terminal) go" where
  "after_joining T entry t =
     (let V = tm_server T; nodes = Nodes (LocalNode (t_cluster t)) in
      case BroadCast (tm_cluster T) (sv_me V) entry nodes (t_others t) of
        (Some p, w) \<Rightarrow> Inl p
      | (None, w) \<Rightarrow>
          let nodes1 = tm_marks T 0 nodes; nodes2 = tm_marks T 1 nodes1 in
          bind_go (TableBlockSynchronization (sv_alg V) (tm_tcd T) (tm_tables T) nodes1 (sv_node (t_server t))) (\<lambda>nd1.
          bind_go (DataBlockSynchronization (sv_alg V) (tm_blocks T) nodes2 nd1) (\<lambda>nd2.
            Inr (NoOutput, t\<lparr>t_others := w, t_started := t_started t + 1,
              t_cluster := (t_cluster t)\<lparr>LocalNode := (LocalNode (t_cluster t))\<lparr>Nodes := nodes2\<rparr>\<rparr>,
              t_server := (t_server t)\<lparr>sv_node := nd2\<rparr>\<rparr>))))"

definition run_join :: "'db terminal_env \<Rightarrow> string list \<Rightarrow> 'db terminal \<Rightarrow> (printed \<times> 'db terminal) run" where
  "run_join T args t =
     (if length args \<noteq> 4 then return_run (NoOutput, t)
      else if ClusterInfo (t_cluster t) \<noteq> None then return_run (Hint, t)
      else (case Atoi (args ! 2) of
              None \<Rightarrow> panic_run LogPanic
            | Some port \<Rightarrow>
                bind_run (JoinToCluster (tm_cluster T) (tm_client T) port (args ! 3) (t_others t (args ! 1, port)) (t_cluster t))
                  (\<lambda>((err, own), entry).
                     if err then panic_run LogPanic
                     else lift_go (after_joining T (args ! 1, port)
                            (t\<lparr>t_cluster := own, t_others := (t_others t)((args ! 1, port) := entry)\<rparr>)))))"

definition run_printcluster :: "string list \<Rightarrow> 'db terminal \<Rightarrow> printed \<times> 'db terminal" where
  "run_printcluster args t =
     (if length args = 1
      then (if ClusterInfo (t_cluster t) = None then Hint
            else Cluster (map node_address (Nodes (LocalNode (t_cluster t)))), t)
      else (NoOutput, t))"

section \<open>The node itself\<close>

definition run_isaccount :: "string list \<Rightarrow> 'db terminal \<Rightarrow> printed \<times> 'db terminal" where
  "run_isaccount args t = (if length args = 1 then Told (t_isAccount t) else NoOutput, t)"

definition run_help :: "string list \<Rightarrow> 'db terminal \<Rightarrow> printed \<times> 'db terminal" where
  "run_help args t = (if length args = 1 then Usage else NoOutput, t)"

text \<open>\<open>args[1]\<close> panics if there is no argument; the error of \<open>Atoi\<close> is dropped and the number is 0 then.\<close>

definition first_arg :: "string list \<Rightarrow> string go" where
  "first_arg args = (if 1 < length args then Inr (args ! 1) else Inl IndexRange)"

definition number_or_0 :: "string \<Rightarrow> int" where
  "number_or_0 a = (case Atoi a of None \<Rightarrow> 0 | Some n \<Rightarrow> n)"

definition on_pool :: "(tx_pool \<Rightarrow> tx_pool) \<Rightarrow> 'db terminal \<Rightarrow> 'db terminal" where
  "on_pool f t = t\<lparr>t_server := (t_server t)\<lparr>sv_node := (sv_node (t_server t))\<lparr>nd_pool := f (nd_pool (sv_node (t_server t)))\<rparr>\<rparr>\<rparr>"

definition run_set_pkg_num :: "string list \<Rightarrow> 'db terminal \<Rightarrow> (printed \<times> 'db terminal) go" where
  "run_set_pkg_num args t = bind_go (first_arg args) (\<lambda>a. Inr (NoOutput, on_pool (SetPackNumber (number_or_0 a)) t))"

definition run_root_mod :: "'db terminal \<Rightarrow> printed \<times> 'db terminal" where
  "run_root_mod t = (NoOutput, on_pool SetMod1 t)"

text \<open>\<open>cache/root.go\<close>: the permissions of all tables, and the sizes of the two lists (twice, as list and as map).\<close>

definition ROOT_PooledTables :: "cache \<Rightarrow> printed" where
  "ROOT_PooledTables c = (if tableInfo c = Map.empty then Hint else Permissions (tableInfo c))"

definition ROOT_lruQ :: "cache \<Rightarrow> printed" where
  "ROOT_lruQ c =
     (let l = curSize (listTx (lru3Query c)); i = curSize (listIndex (lru3Query c)) in Sizes (l, i) (l, i))"

definition run_root_tables :: "'db terminal \<Rightarrow> printed \<times> 'db terminal" where
  "run_root_tables t = (ROOT_PooledTables (nd_cache (sv_node (t_server t))), t)"

definition run_root_lru :: "'db terminal \<Rightarrow> printed \<times> 'db terminal" where
  "run_root_lru t = (ROOT_lruQ (nd_cache (sv_node (t_server t))), t)"

text \<open>A round that is not on the chain gives a nil block, whose round is then read.\<close>

definition run_id :: "'db terminal_env \<Rightarrow> string list \<Rightarrow> 'db terminal \<Rightarrow> (printed \<times> 'db terminal) run" where
  "run_id T args t =
     (let E = sv_alg (tm_server T) in
      bind_run (lift_go (first_arg args)) (\<lambda>a.
      bind_run (GetByRound (e_bolt E) (e_block E) (a_chain (nd_alg (sv_node (t_server t)))) (word_of_int (number_or_0 a)))
        (\<lambda>b. case b of None \<Rightarrow> panic_run NilDeref | Some blk \<Rightarrow> return_run (InRound (Round blk), t))))"

definition run_gen :: "'db terminal_env \<Rightarrow> 'db terminal \<Rightarrow> (printed \<times> 'db terminal) go" where
  "run_gen T t =
     (let E = sv_alg (tm_server T) in
      bind_go (GetBlockByHash (e_bolt E) (e_block E) (a_chain (nd_alg (sv_node (t_server t)))) [])
        (\<lambda>b. Inr (BlockShown b, t)))"

section \<open>The loop\<close>

definition run_words :: "'db terminal_env \<Rightarrow> bytes \<Rightarrow> int \<Rightarrow> string list \<Rightarrow> 'db terminal \<Rightarrow> (printed \<times> 'db terminal) run" where
  "run_words T rnd now args t =
     (let c = args ! 0 in
      if args = [] then return_run (NoOutput, t)
      else if c = ''u_in'' then return_run (run_u_in args t)
      else if c = ''register'' then return_run (run_register T rnd args t)
      else if c = ''login'' then return_run (run_login T args t)
      else if c = ''address'' then return_run (run_address args t)
      else if c = ''exit'' then lift_go (run_exit args t)
      else if c = ''table'' then lift_go (run_table T rnd now args t)
      else if c = ''put'' then lift_go (run_put T rnd now args t)
      else if c = ''get'' then run_get T args t
      else if c = ''gethistory'' then run_gethistory T args t
      else if c = ''gettable'' then run_gettable T args t
      else if c = ''mytables'' then return_run (run_mytables t)
      else if c = ''creat'' then lift_go (run_creat T args t)
      else if c = ''join'' then run_join T args t
      else if c = ''isaccount'' then return_run (run_isaccount args t)
      else if c = ''help'' then return_run (run_help args t)
      else if c = ''set-pkg_num'' then lift_go (run_set_pkg_num args t)
      else if c = ''root-tables'' then return_run (run_root_tables t)
      else if c = ''root-lru'' then return_run (run_root_lru t)
      else if c = ''id'' then run_id T args t
      else if c = ''gen'' then lift_go (run_gen T t)
      else if c = ''root-mod'' then return_run (run_root_mod t)
      else if c = ''printcluster'' then return_run (run_printcluster args t)
      else return_run (Usage, t))"

definition Command_turn :: "'db terminal_env \<Rightarrow> bytes \<times> int \<times> string \<Rightarrow> 'db terminal \<Rightarrow> (printed \<times> 'db terminal) run" where
  "Command_turn T inp t =
     (case inp of (rnd, now, line) \<Rightarrow> run_words T rnd now (words line) (t\<lparr>t_loops := t_loops t + 1\<rparr>))"

fun Command :: "'db terminal_env \<Rightarrow> (bytes \<times> int \<times> string) list \<Rightarrow> 'db terminal \<Rightarrow> (printed list \<times> 'db terminal) run" where
  "Command T [] t = return_run ([], t)"
| "Command T (inp # inps) t =
     bind_run (Command_turn T inp t) (\<lambda>(out, t1).
     bind_run (Command T inps t1) (\<lambda>(outs, t2). return_run (out # outs, t2)))"

section \<open>Lines\<close>

definition proper :: "string \<Rightarrow> bool" where
  "proper w \<longleftrightarrow> w \<noteq> [] \<and> CHR '' '' \<notin> set w"

definition line_of :: "string list \<Rightarrow> string" where
  "line_of ws = join_with CHR '' '' ws"

lemma words_proper: "w \<in> set (words line) \<Longrightarrow> proper w"
  using split_join [of "CHR '' ''" line "[]"] by (auto simp: words_def proper_def)

lemma words_line_of [simp]: "ws \<noteq> [] \<Longrightarrow> list_all proper ws \<Longrightarrow> words (line_of ws) = ws"
  using split_join [of "CHR '' ''" "[]" ws]
  by (auto simp: words_def line_of_def proper_def list_all_iff intro!: filter_True)

lemma server_env_now_simps [simp]:
  "sv_alg (server_env_now T t) = sv_alg (tm_server T)" "sv_users (server_env_now T t) = sv_users (tm_server T)"
  "sv_me (server_env_now T t) = sv_me (tm_server T)" "sv_nodes (server_env_now T t) = Nodes (LocalNode (t_cluster t))"
  by (simp_all add: server_env_now_def)

lemma Command_turn_words:
  "words line = ws \<Longrightarrow> Command_turn T (rnd, now, line) t = run_words T rnd now ws (t\<lparr>t_loops := t_loops t + 1\<rparr>)"
  by (simp add: Command_turn_def)

end
