(* ===== verification/Terminal_Session.thy ===== *)
theory Terminal_Session
  imports Terminal
begin

text \<open>
  What lines typed at the terminal do: an invariant of every run, the batch size, a first session from
  registering to a table, and signing out.
\<close>

section \<open>Runs\<close>

text \<open>What every turn keeps or advances, a run does.\<close>

lemma Command_invariant:
  assumes "Command T inps t = return_run (outs, t')" and "Q 0 t"
    and "\<And>n inp t out t'. Command_turn T inp t = return_run (out, t') \<Longrightarrow> Q n t \<Longrightarrow> Q (Suc n) t'"
  shows "Q (length inps) t' \<and> length outs = length inps"
proof -
  have "Q (n + length inps) t' \<and> length outs = length inps" if "Q n t" "Command T inps t = return_run (outs, t')" for n
    using that
  proof (induction inps arbitrary: n t outs)
    case (Cons inp inps)
    then obtain out t1 outs1 where "Command_turn T inp t = return_run (out, t1)"
      "Command T inps t1 = return_run (outs1, t')" "outs = out # outs1" by (auto simp: bind_run_return_iff)
    then show ?case using Cons.IH [of "Suc n" t1 outs1] assms(3) Cons.prems(1) by auto
  qed simp
  then show ?thesis using assms(1,2) by fastforce
qed

text \<open>The user of the terminal and \<open>uID\<close> agree while a user is set.\<close>

definition user_ok :: "'db terminal \<Rightarrow> bool" where
  "user_ok t \<longleftrightarrow> (t_username t \<noteq> [] \<longrightarrow> t_uID t = terminal_session t)"

definition same_user :: "'db terminal \<Rightarrow> 'db terminal \<Rightarrow> bool" where
  "same_user t t' \<longleftrightarrow> t_username t' = t_username t \<and> t_password t' = t_password t \<and> t_uID t' = t_uID t
     \<and> t_loops t' = t_loops t"

lemma same_user_pure:
  "run_register T rnd args t = (out, t') \<Longrightarrow> same_user t t'"
  "run_login T args t = (out, t') \<Longrightarrow> same_user t t'"
  "run_address args t = (out, t') \<Longrightarrow> same_user t t'"
  "run_mytables t = (out, t') \<Longrightarrow> same_user t t'"
  "run_printcluster args t = (out, t') \<Longrightarrow> same_user t t'"
  "run_isaccount args t = (out, t') \<Longrightarrow> same_user t t'"
  "run_help args t = (out, t') \<Longrightarrow> same_user t t'"
  "run_root_mod t = (out, t') \<Longrightarrow> same_user t t'"
  "run_root_tables t = (out, t') \<Longrightarrow> same_user t t'"
  "run_root_lru t = (out, t') \<Longrightarrow> same_user t t'"
  by (auto simp: same_user_def run_register_def run_login_def run_address_def run_mytables_def run_printcluster_def
      run_isaccount_def run_help_def run_root_mod_def run_root_tables_def run_root_lru_def on_pool_def Let_def
      split: if_splits prod.splits)

lemma same_user_go:
  "run_table T rnd now args t = Inr (out, t') \<Longrightarrow> same_user t t'"
  "run_put T rnd now args t = Inr (out, t') \<Longrightarrow> same_user t t'"
  "run_creat T args t = Inr (out, t') \<Longrightarrow> same_user t t'"
  "run_set_pkg_num args t = Inr (out, t') \<Longrightarrow> same_user t t'"
  "run_gen T t = Inr (out, t') \<Longrightarrow> same_user t t'"
  by (auto simp: same_user_def run_table_def run_put_def run_creat_def run_set_pkg_num_def run_gen_def on_pool_def
      bind_go_Inr_iff Let_def split: if_splits)

lemma same_user_join: "run_join T args t = return_run (out, t') \<Longrightarrow> same_user t t'"
  by (auto simp: same_user_def run_join_def after_joining_def bind_go_Inr_iff bind_run_return_iff lift_go_def Let_def
      split: if_splits option.splits prod.splits)

lemma same_user_run:
  "run_get T args t = return_run (out, t') \<Longrightarrow> same_user t t'"
  "run_gethistory T args t = return_run (out, t') \<Longrightarrow> same_user t t'"
  "run_gettable T args t = return_run (out, t') \<Longrightarrow> same_user t t'"
  "run_id T args t = return_run (out, t') \<Longrightarrow> same_user t t'"
  by (auto simp: same_user_def run_get_def run_gethistory_def run_gettable_def run_id_def bind_run_return_iff Let_def
      split: if_splits option.splits)

lemmas same_user_rules = same_user_pure same_user_go same_user_join same_user_run

lemma run_words_user:
  assumes "run_words T rnd now args t = return_run (out, t')"
  shows "same_user t t' \<or> run_u_in args t = (out, t') \<or> run_exit args t = Inr (out, t')"
  using assms unfolding run_words_def Let_def lift_go_def
  by (auto simp: same_user_def dest: same_user_rules [unfolded same_user_def] split: if_splits)

lemma Command_turn_user:
  assumes "Command_turn T inp t = return_run (out, t')" and "user_ok t"
  shows "user_ok t' \<and> t_loops t' = t_loops t + 1"
proof -
  let ?t = "t\<lparr>t_loops := t_loops t + 1\<rparr>"
  obtain rnd now line where "run_words T rnd now (words line) ?t = return_run (out, t')"
    using assms(1) by (auto simp: Command_turn_def split: prod.splits)
  from run_words_user [OF this] assms(2) show ?thesis
    by (auto simp: same_user_def user_ok_def terminal_session_def run_u_in_def run_exit_def session_id_def Let_def
        split: if_splits prod.splits)
qed

text \<open>
  Whatever is typed: as long as the terminal survives, the identifier used for \<open>address\<close> and
  \<open>mytables\<close> is that of the session all other commands use, if a user is set at all; and every
  line, also an empty one, leaves one more loop running that takes blocks off the hand-over queue,
  which is made for a single consumer.
\<close>

theorem terminal_invariant:
  assumes "Command T inps t = return_run (outs, t')" and "user_ok t"
  shows "user_ok t' \<and> t_loops t' = t_loops t + length inps \<and> length outs = length inps"
proof -
  have "(user_ok t' \<and> t_loops t' = t_loops t + length inps) \<and> length outs = length inps"
    by (rule Command_invariant [OF assms(1), of "\<lambda>n s. user_ok s \<and> t_loops s = t_loops t + n"])
      (use assms(2) in \<open>auto dest: Command_turn_user\<close>)
  then show ?thesis by blast
qed

section \<open>Batch sizes\<close>


section \<open>A first session\<close>

text \<open>The lines of a new user who registers, signs in, becomes the user of the terminal and creates a table.\<close>

definition first_lines :: "bytes \<Rightarrow> bytes \<Rightarrow> int \<Rightarrow> string \<Rightarrow> string \<Rightarrow> string \<Rightarrow> string list \<Rightarrow> (bytes \<times> int \<times> string) list" where
  "first_lines r1 r2 now u p tab perms =
     [(r1, now, line_of [''register'', u, p]), ([], now, line_of [''login'', u, p]), ([], now, line_of [''u_in'', u, p]),
      (r2, now, line_of (''table'' # tab # perms))]"

lemma proper_commands [simp]:
  "proper ''register''" "proper ''login''" "proper ''u_in''" "proper ''table''" "proper ''exit''" "proper ''address''"
  "proper ''put''" "proper ''join''" "proper ''mytables''"
  by (simp_all add: proper_def)

lemma RegisterAccount_fresh:
  assumes "user_files (manage s) (account_file (manage s) u) = None" and "\<not> odd_path (sv_users V) (account_file (manage s) u)"
    and "gen_key (sv_users V) rnd = Some key" and "enc_account (sv_users V) (new_account (sv_users V) u p key) = Some content"
  shows "RegisterAccount V rnd u p s = (True, s\<lparr>manage := (manage s)\<lparr>user_files :=
    (user_files (manage s))(account_file (manage s) u \<mapsto> content)\<rparr>\<rparr>)"
  by (simp add: RegisterAccount_def Register_fresh [OF assms])

lemma first_three:
  fixes T :: "'db terminal_env"
  defines "U \<equiv> sv_users (tm_server T)"
  assumes "proper u" and "proper p"
    and "gob_law U" and "user_files (manage (t_server t)) (account_file (manage (t_server t)) u) = None"
    and "\<not> odd_path U (account_file (manage (t_server t)) u)"
    and "gen_key U r1 = Some key" and "enc_account U (new_account U u p key) = Some content"
    and "EffectiveUser (manage (t_server t)) (session_id u p) = None"
  shows "\<exists>t'. Command T [(r1, n1, line_of [''register'', u, p]), (r2, n2, line_of [''login'', u, p]),
        (r3, n3, line_of [''u_in'', u, p])] t = return_run ([Told True, Told True, NoOutput], t')
    \<and> sv_node (t_server t') = sv_node (t_server t) \<and> t_pools t' = t_pools t \<and> t_cluster t' = t_cluster t
    \<and> terminal_session t' = session_id u p \<and> t_loops t' = t_loops t + 3
    \<and> EffectiveUser (manage (t_server t')) (session_id u p) = Some (new_account U u p key)"
proof -
  let ?m = "manage (t_server t)" and ?a = "new_account U u p key"
  let ?m1 = "?m\<lparr>user_files := (user_files ?m)(account_file ?m u \<mapsto> content)\<rparr>"
  let ?m2 = "?m1\<lparr>EffectiveUser := (EffectiveUser ?m)(session_id u p \<mapsto> ?a)\<rparr>"
  let ?s1 = "(t_server t)\<lparr>manage := ?m1\<rparr>" and ?s2 = "(t_server t)\<lparr>manage := ?m2\<rparr>"
  let ?t1 = "t\<lparr>t_loops := t_loops t + 1, t_server := ?s1\<rparr>"
  let ?t2 = "t\<lparr>t_loops := t_loops t + 2, t_server := ?s2\<rparr>"
  have 1: "Command_turn T (r1, n1, line_of [''register'', u, p]) t = return_run (Told True, ?t1)"
    using RegisterAccount_fresh [of "t_server t" u "server_env_now T (t\<lparr>t_loops := t_loops t + 1\<rparr>)" r1 key p content] assms
    by (simp add: Command_turn_def run_words_def run_register_def)
  have "SignIn U u p ?m1 = (None, ?m2)"
    using SignIn_registered [of U u p key content ?m1 p] assms by (simp add: account_file_def)
  then have 2: "Command_turn T (r2, n2, line_of [''login'', u, p]) ?t1 = return_run (Told True, ?t2)"
    using assms by (simp add: Command_turn_def run_words_def run_login_def SignInAccount_def)
  have 3: "Command_turn T (r3, n3, line_of [''u_in'', u, p]) ?t2
      = return_run (NoOutput, ?t2\<lparr>t_loops := t_loops t + 3, t_username := u, t_password := p, t_uID := session_id u p\<rparr>)"
    using assms by (simp add: Command_turn_def run_words_def run_u_in_def session_id_def)
  show ?thesis using 1 2 3 by (simp add: terminal_session_def)
qed

lemma Command_append:
  "Command T (xs @ ys) t = bind_run (Command T xs t) (\<lambda>(outs, t1).
     bind_run (Command T ys t1) (\<lambda>(outs', t2). return_run (outs @ outs', t2)))"
  by (induction xs arbitrary: t) (simp_all add: bind_run_def split: option.splits sum.splits prod.splits)

lemma may_define_unknown: "tableInfo (nd_cache (sv_node s)) table = None \<Longrightarrow> may_define UID table s"
  by (simp add: may_define_def)


section \<open>Signing out\<close>

text \<open>
  \<open>exit\<close> closes the session and forgets the user, but not \<open>uID\<close>: when the same user signs in again
  (from anywhere), \<open>address\<close> shows that user's address at a terminal where nobody is set, while every
  \<open>put\<close> is refused there.
\<close>

theorem exit_keeps_identifier:
  assumes "t_username t \<noteq> []" and "user_ok t" and "list_all proper [t_username t, t_password t, k, v, tab]"
    and "user_files (manage (t_server t)) (account_file (manage (t_server t)) (t_username t)) = Some c"
    and "dec_account (sv_users (tm_server T)) (zero_account\<lparr>ac_UserName := t_username t\<rparr>) c = Some a"
    and "ac_Password a = t_password t" and "EffectiveUser (manage (t_server t)) (session_id [] []) = None"
  shows "\<exists>t'. Command T [(r1, n1, ''exit''), (r2, n2, line_of [''login'', t_username t, t_password t]), (r3, n3, ''address''),
       (r4, n4, line_of [''put'', k, v, tab])] t
      = return_run ([Told True, Told True, Shown (ac_Address a), Told False], t')
    \<and> t_username t' = [] \<and> nd_pool (sv_node (t_server t')) = nd_pool (sv_node (t_server t)) \<and> t_pools t' = t_pools t"
proof -
  let ?m = "manage (t_server t)" and ?U = "sv_users (tm_server T)" and ?i = "terminal_session t"
  let ?m1 = "?m\<lparr>EffectiveUser := (EffectiveUser ?m)(?i := None)\<rparr>"
  let ?m2 = "?m1\<lparr>EffectiveUser := (EffectiveUser ?m)(?i \<mapsto> a)\<rparr>"
  let ?t = "\<lambda>n m. t\<lparr>t_loops := t_loops t + n, t_server := (t_server t)\<lparr>manage := m\<rparr>, t_username := [], t_password := []\<rparr>"
  have uid: "t_uID t = ?i" using assms(1,2) by (simp add: user_ok_def)
  have i: "?i \<noteq> session_id [] []" using assms(1) by (auto simp: terminal_session_def session_id_def dest: arg_cong [where f = length])
  have out: "SignOut ?i ?m = (None, ?m1)"
    by (auto simp: SignOut_def Check_def fun_upd_idem split: option.split)
  have w: "words ''exit'' = [''exit'']" "words ''address'' = [''address'']"
    using words_line_of [of "[''exit'']"] words_line_of [of "[''address'']"] by (simp_all add: line_of_def)
  have 1: "Command_turn T (r1, n1, ''exit'') t = return_run (Told True, ?t 1 ?m1)"
    using out assms(1) by (simp add: Command_turn_def w run_words_def run_exit_def SignOutAccount_def terminal_session_def)
  have "SignIn ?U (t_username t) (t_password t) ?m1 = (None, ?m2)"
    using SignIn_file [of ?m1 "t_username t" c ?U a "t_password t"] assms(4-6)
    by (simp add: account_file_def terminal_session_def)
  then have 2: "Command_turn T (r2, n2, line_of [''login'', t_username t, t_password t]) (?t 1 ?m1) = return_run (Told True, ?t 2 ?m2)"
    using assms(3) by (simp add: Command_turn_def run_words_def run_login_def SignInAccount_def)
  have 3: "Command_turn T (r3, n3, ''address'') (?t 2 ?m2) = return_run (Shown (ac_Address a), ?t 3 ?m2)"
    by (simp add: Command_turn_def w run_words_def run_address_def CheckAccount_def uid ViewAccount_def Check_def)
  have "level (session_id [] []) tab ((t_server t)\<lparr>manage := ?m2\<rparr>) = None"
    using i assms(7) by (simp add: level_def)
  then have "server_Put V r4 n4 (session_id [] []) k v tab ((t_server t)\<lparr>manage := ?m2\<rparr>) (t_pools t)
      = Inr (False, (t_server t)\<lparr>manage := ?m2\<rparr>, t_pools t)" for V
    by (intro server_Put_refused) simp
  then have 4: "Command_turn T (r4, n4, line_of [''put'', k, v, tab]) (?t 3 ?m2) = return_run (Told False, ?t 4 ?m2)"
    using assms(3) by (simp add: Command_turn_def run_words_def run_put_def terminal_session_def)
  show ?thesis using 1 2 3 4 by simp
qed

section \<open>Witnesses\<close>

text \<open>A terminal just started on a node of a cluster of two.\<close>

definition toy_terminal_env :: "mapdb terminal_env" where
  "toy_terminal_env = \<lparr>tm_server = toy_server_env, tm_cluster = toy_cluster_env, tm_client = toy_fetch,
     tm_tcd = grant_codec, tm_tables = (\<lambda>_ _. None), tm_blocks = (\<lambda>_ _. None), tm_marks = (\<lambda>_ ns. ns)\<rparr>"

definition toy_terminal :: "user_state \<Rightarrow> mapdb terminal" where
  "toy_terminal users = \<lparr>t_username = [], t_password = [], t_uID = [], t_server = (toy_server Map.empty)\<lparr>manage := users\<rparr>,
     t_pools = (\<lambda>_. pool_Init), t_cluster = \<lparr>LocalNode = \<lparr>Nodes = two_nodes, JoinKey = []\<rparr>, ClusterInfo = None\<rparr>,
     t_others = (\<lambda>_. \<lparr>LocalNode = \<lparr>Nodes = [], JoinKey = []\<rparr>, ClusterInfo = None\<rparr>), t_isAccount = False,
     t_loops = 0, t_started = 0\<rparr>"

lemma toy_terminal_simps [simp]:
  "t_username (toy_terminal m) = []" "t_cluster (toy_terminal m) = \<lparr>LocalNode = \<lparr>Nodes = two_nodes, JoinKey = []\<rparr>, ClusterInfo = None\<rparr>"
  "manage (t_server (toy_terminal m)) = m" "t_pools (toy_terminal m) a = pool_Init" "t_loops (toy_terminal m) = 0"
  "nd_pool (sv_node (t_server (toy_terminal m))) = pool_Init"
  "tableInfo (nd_cache (sv_node (t_server (toy_terminal m)))) = Map.empty"
  "sv_users (tm_server toy_terminal_env) = toy_users" "e_hashes (sv_alg (tm_server toy_terminal_env)) = toy_crypto"
  "sv_me (tm_server toy_terminal_env) = (''a'', 3301)"
  by (simp_all add: toy_terminal_def toy_terminal_env_def toy_server_def toy_node_def toy_server_env_def toy_env_def)

lemma empty_table_pool: "pool_rep tTxID (txPoolTable pool_Init) []" "maxSize (pqueue_of (txPoolTable pool_Init)) = 10"
  by (simp add: pool_Init_def pool_rep_def pool_init_def tq_rep_init)
    (simp add: pool_Init_def pool_init_def queue_init_def)

theorem terminal_invariant_witness:
  "\<exists>t'. Command toy_terminal_env [([], 0, ''help''), ([], 0, []), ([], 0, ''u_in u p'')] (toy_terminal no_users)
      = return_run ([Usage, NoOutput, NoOutput], t') \<and> t_loops t' = 3 \<and> user_ok t'"
proof -
  have w: "words ''help'' = [''help'']" "words [] = []" "words ''u_in u p'' = [''u_in'', ''u'', ''p'']"
    by (simp_all add: words_def)
  obtain t' where t': "Command toy_terminal_env [([], 0, ''help''), ([], 0, []), ([], 0, ''u_in u p'')] (toy_terminal no_users)
      = return_run ([Usage, NoOutput, NoOutput], t')"
    by (simp add: Command_turn_def w run_words_def run_help_def run_u_in_def)
  have "user_ok (toy_terminal no_users)" by (simp add: user_ok_def)
  from terminal_invariant [OF t' this] t' show ?thesis by simp
qed



theorem exit_keeps_identifier_witness:
  "\<exists>t'. Command toy_terminal_env [([], 0, ''exit''), ([], 0, line_of [''login'', ''u'', ''p'']), ([], 0, ''address''),
       ([], 0, line_of [''put'', ''k'', ''v'', ''t''])]
       ((toy_terminal (no_users\<lparr>user_files := [''u.act'' \<mapsto> ''p'']\<rparr>))\<lparr>t_username := ''u'', t_password := ''p'', t_uID := ''u-QAQ-p''\<rparr>)
      = return_run ([Told True, Told True, Shown [CHR 0x00, CHR 0x01, CHR 0x02, CHR 0x00, CHR 0x01, CHR 0x02], Told False], t')"
proof -
  let ?t = "(toy_terminal (no_users\<lparr>user_files := [''u.act'' \<mapsto> ''p'']\<rparr>))\<lparr>t_username := ''u'', t_password := ''p'', t_uID := ''u-QAQ-p''\<rparr>"
  obtain a where a: "dec_account (sv_users (tm_server toy_terminal_env)) (zero_account\<lparr>ac_UserName := t_username ?t\<rparr>) ''p'' = Some a"
    "ac_Password a = ''p''" "ac_Address a = [CHR 0x00, CHR 0x01, CHR 0x02, CHR 0x00, CHR 0x01, CHR 0x02]"
    by (simp add: toy_users_def)
  have f: "user_files (manage (t_server ?t)) (account_file (manage (t_server ?t)) (t_username ?t)) = Some ''p''"
    by (simp add: account_file_def no_users_def)
  have u: "t_username ?t \<noteq> []" "user_ok ?t" "list_all proper [t_username ?t, t_password ?t, ''k'', ''v'', ''t'']"
    "ac_Password a = t_password ?t" "EffectiveUser (manage (t_server ?t)) (session_id [] []) = None"
    by (simp_all add: user_ok_def terminal_session_def session_id_def proper_def no_users_def a(2))
  from exit_keeps_identifier [OF u(1-3) f a(1) u(4,5), of "[]" 0 "[]" 0 "[]" 0 "[]" 0] show ?thesis
    by (auto simp: a(3))
qed

end
