(* ===== verification/Table_Sync.thy ===== *)
theory Table_Sync
  imports Grpc_Client Permissions
begin

text \<open>
  \<open>TableBlockSynchronization\<close> of \<open>GRPC/util.go\<close> against \<open>TableBlockSynchronization\<close> of the serving
  node: the table blocks a node has missed arrive, are stored, and the permissions they carry are
  merged into the tables the node has in memory.
\<close>

lemma serve_TableBlocks_missing:
  assumes "table_rep (e_bolt E) tcd (nd_tables st) (news @ b # olds)"
  shows "serve_TableBlocks E tcd (tCurrentBlockHash b) st = return_run (map BlockToGrpcTableBlock news)"
proof -
  let ?ch = "nd_tables st"
  note c = assms [unfolded table_rep_def chain_rep_def]
  have "sync_loop (iterator_next (e_bolt E) (decode tcd) tPreviousBlockHash (Db ?ch)) tCurrentBlockHash
      BlockToGrpcTableBlock (tCurrentBlockHash b) \<lparr>it_BlockBucket = BlockBucket ?ch, CurrentHash = TailHash ?ch\<rparr> []
      = Some (Inr ([] @ map BlockToGrpcTableBlock news))"
    by (rule sync_loop_stored) (use c in auto)
  then show ?thesis by (simp add: serve_TableBlocks_def table_Next_def table_CreateIterator_def create_iterator_def Let_def)
qed

section \<open>The tables of a chain\<close>

lemma run_tables_append: "run_tables ts (txs @ txs') = run_tables (run_tables ts txs) txs'"
  by (simp add: run_tables_def)

lemma run_tables_None: "run_tables ts txs n = None \<longleftrightarrow> ts n = None \<and> n \<notin> tTable ` set txs"
proof (induction txs rule: rev_induct)
  case Nil
  then show ?case by (simp add: run_tables_def)
next
  case (snoc tx txs)
  have "run_tables ts (txs @ [tx]) = (run_tables ts txs)(tTable tx \<mapsto> grants (case run_tables ts txs (tTable tx) of
      None \<Rightarrow> Map.empty | Some m \<Rightarrow> m) (PermissionTable tx))" by (simp add: run_tables_def)
  then show ?case using snoc by auto
qed

text \<open>The tables in memory after all blocks of a chain (newest first) have come in one by one.\<close>

definition tables_of :: "table_block list \<Rightarrow> tables" where
  "tables_of bs = run_tables Map.empty (concat (map tTransactions (rev bs)))"

text \<open>
  A table block can be followed: its own bytes fit, its tables are no bucket of the chain itself and
  have a log exactly if they are known, and no permission entry is empty.
\<close>

definition can_follow :: "'db bolt \<Rightarrow> table_block codec \<Rightarrow> 'db table_chain \<Rightarrow> tables \<Rightarrow> table_block \<Rightarrow> bool" where
  "can_follow B tcd ch ts b \<longleftrightarrow> block_fits (encode tcd) (decode tcd) tCurrentBlockHash B ch b
     \<and> (\<forall>tx \<in> set (tTransactions b). log_okname B (tTable tx) \<and> tTable tx \<noteq> BlockBucket ch
          \<and> [] \<notin> set (PermissionTable tx) \<and> (ts (tTable tx) = None \<longrightarrow> \<not> has_bucket B (Db ch) (tTable tx)))"

lemma logged_elsewhere:
  assumes "logged B db ts hs" and "ts bk = None" and "has_bucket B db' = has_bucket B db"
    and "\<And>m. m \<noteq> bk \<Longrightarrow> bolt_get B db' m = bolt_get B db m"
  shows "logged B db' ts hs"
  unfolding logged_def
proof
  fix m
  show "if ts m = None then hs m = [] else log_rep B db' m (hs m)"
    using assms(1) [unfolded logged_def, rule_format, of m] log_rep_cong [of B db m "hs m" db'] assms(2,3) assms(4) [of m]
    by (cases "m = bk") (auto split: if_splits)
qed

lemma follow_one:
  assumes "table_rep B tcd ch bs" and "tPreviousBlockHash n = TailHash ch" and "can_follow B tcd ch ts n"
  shows "\<exists>ch' db. table_AddBlockToChain B tcd n ch = Inr ch'
    \<and> upDateByTables B n (ts, Db ch') = Inr (run_tables ts (tTransactions n), db)
    \<and> table_rep B tcd (ch'\<lparr>Db := db\<rparr>) (n # bs) \<and> TailHash ch' = tCurrentBlockHash n \<and> BlockBucket ch' = BlockBucket ch
    \<and> (\<forall>hs. ts (BlockBucket ch) = None \<longrightarrow> logged B (Db ch) ts hs \<longrightarrow>
         run_tables ts (tTransactions n) (BlockBucket ch) = None \<and> logged B db (run_tables ts (tTransactions n)) hs)
    \<and> (\<forall>k. can_follow B tcd ch ts k \<longrightarrow> tCurrentBlockHash k \<noteq> tCurrentBlockHash n \<longrightarrow>
         can_follow B tcd (ch'\<lparr>Db := db\<rparr>) (run_tables ts (tTransactions n)) k)"
proof -
  let ?ts = "run_tables ts (tTransactions n)"
  have laws: "bolt_laws B" using assms(1) by (simp add: table_rep_def chain_rep_def)
  have "table_ok B tcd ch n" using assms(2,3) by (simp add: table_ok_def block_ok_fits can_follow_def)
  then obtain ch' where ch': "table_AddBlockToChain B tcd n ch = Inr ch'" "table_rep B tcd ch' (n # bs)"
    using table_store.add_rep [OF assms(1)] by auto
  have add: "add_block B (encode tcd) tCurrentBlockHash n ch = Inr ch'" using ch'(1) by (simp add: table_AddBlockToChain_def)
  note oth = add_block_other [OF add laws]
  have "\<exists>db. fold_go (update_table_tx B) (ts, Db ch') (tTransactions n) = Inr (?ts, db)
    \<and> (\<forall>m. m \<notin> tTable ` set (tTransactions n) \<longrightarrow> has_bucket B db m = has_bucket B (Db ch') m \<and> bolt_get B db m = bolt_get B (Db ch') m)
    \<and> (\<forall>hs. logged B (Db ch') ts hs \<longrightarrow> logged B db ?ts hs)"
    by (rule update_table_txs [OF laws]) (use assms(3) oth(4) in \<open>auto simp: can_follow_def\<close>)
  then obtain db where db: "upDateByTables B n (ts, Db ch') = Inr (?ts, db)"
    "\<And>m. m \<notin> tTable ` set (tTransactions n) \<Longrightarrow> has_bucket B db m = has_bucket B (Db ch') m"
    "\<And>m. m \<notin> tTable ` set (tTransactions n) \<Longrightarrow> bolt_get B db m = bolt_get B (Db ch') m"
    "\<And>hs. logged B (Db ch') ts hs \<Longrightarrow> logged B db ?ts hs"
    by (auto simp: upDateByTables_def)
  have bk: "BlockBucket ch' \<notin> tTable ` set (tTransactions n)" using assms(3) oth(1) by (auto simp: can_follow_def)
  have rep: "chain_rep B (decode tcd) tCurrentBlockHash tPreviousBlockHash ch' (n # bs)"
    using ch'(2) by (simp only: table_rep_def)
  then have "has_bucket B db (BlockBucket ch')" using db(2) [OF bk] by (simp add: chain_rep_def)
  then have "table_rep B tcd (ch'\<lparr>Db := db\<rparr>) (n # bs)"
    unfolding table_rep_def by (rule chain_rep_other_buckets [OF rep _ db(3) [OF bk]])
  moreover have "can_follow B tcd (ch'\<lparr>Db := db\<rparr>) ?ts k"
    if "can_follow B tcd ch ts k" "tCurrentBlockHash k \<noteq> tCurrentBlockHash n" for k
  proof -
    have "block_fits (encode tcd) (decode tcd) tCurrentBlockHash B ch' k"
      using block_fits_after [OF _ add laws] that by (simp add: can_follow_def)
    then have "block_fits (encode tcd) (decode tcd) tCurrentBlockHash B (ch'\<lparr>Db := db\<rparr>) k"
      using db(3) [OF bk] by (simp add: block_fits_def)
    then show ?thesis using that(1) db(2) oth(1,4) by (simp add: can_follow_def run_tables_None)
  qed
  moreover have "?ts (BlockBucket ch) = None \<and> logged B db ?ts hs"
    if "ts (BlockBucket ch) = None" "logged B (Db ch) ts hs" for hs
    using that db(4) [OF logged_elsewhere [OF that(2,1) oth(4,6)]] bk oth(1) by (simp add: run_tables_None)
  ultimately show ?thesis using ch'(1) db(1) oth(1,3) by blast
qed

text \<open>The table chain and the tables of a node: the logs \<open>hs\<close>, and no table is the bucket of the blocks.\<close>

definition tables_logged :: "'db bolt \<Rightarrow> 'db node_state \<Rightarrow> (string \<Rightarrow> bytes list) \<Rightarrow> bool" where
  "tables_logged B st hs \<longleftrightarrow> tableInfo (nd_cache st) (BlockBucket (nd_tables st)) = None
     \<and> logged B (Db (nd_tables st)) (tableInfo (nd_cache st)) hs"

lemma add_synced_tables:
  assumes "table_rep (e_bolt E) tcd (nd_tables st) bs"
    and "linked_up tCurrentBlockHash tPreviousBlockHash (TailHash (nd_tables st)) ns" and "distinct (map tCurrentBlockHash ns)"
    and "\<And>n. n \<in> set ns \<Longrightarrow> can_follow (e_bolt E) tcd (nd_tables st) (tableInfo (nd_cache st)) n"
  shows "\<exists>st'. fold_go (add_synced_table E tcd) st (map BlockToGrpcTableBlock ns) = Inr st'
    \<and> table_rep (e_bolt E) tcd (nd_tables st') (rev ns @ bs)
    \<and> tableInfo (nd_cache st') = run_tables (tableInfo (nd_cache st)) (concat (map tTransactions ns))
    \<and> nd_alg st' = nd_alg st \<and> BlockBucket (nd_tables st') = BlockBucket (nd_tables st)
    \<and> (\<forall>hs. tables_logged (e_bolt E) st hs \<longrightarrow> tables_logged (e_bolt E) st' hs)"
  using assms
proof (induction ns arbitrary: st bs)
  case Nil
  then show ?case by (simp add: run_tables_def)
next
  case (Cons n ns)
  let ?ts = "tableInfo (nd_cache st)"
  from Cons.prems have p: "tPreviousBlockHash n = TailHash (nd_tables st)" and cf: "can_follow (e_bolt E) tcd (nd_tables st) ?ts n"
    by simp_all
  from follow_one [OF Cons.prems(1) p cf] obtain ch' db where s: "table_AddBlockToChain (e_bolt E) tcd n (nd_tables st) = Inr ch'"
    "upDateByTables (e_bolt E) n (?ts, Db ch') = Inr (run_tables ?ts (tTransactions n), db)"
    "table_rep (e_bolt E) tcd (ch'\<lparr>Db := db\<rparr>) (n # bs)" "TailHash ch' = tCurrentBlockHash n" "BlockBucket ch' = BlockBucket (nd_tables st)"
    "\<And>hs. ?ts (BlockBucket (nd_tables st)) = None \<Longrightarrow> logged (e_bolt E) (Db (nd_tables st)) ?ts hs \<Longrightarrow>
      run_tables ?ts (tTransactions n) (BlockBucket (nd_tables st)) = None \<and> logged (e_bolt E) db (run_tables ?ts (tTransactions n)) hs"
    and f: "\<And>k. can_follow (e_bolt E) tcd (nd_tables st) ?ts k \<Longrightarrow> tCurrentBlockHash k \<noteq> tCurrentBlockHash n \<Longrightarrow>
      can_follow (e_bolt E) tcd (ch'\<lparr>Db := db\<rparr>) (run_tables ?ts (tTransactions n)) k" by blast
  let ?st = "st\<lparr>nd_tables := ch'\<lparr>Db := db\<rparr>, nd_cache := (nd_cache st)\<lparr>tableInfo := run_tables ?ts (tTransactions n)\<rparr>\<rparr>"
  have lg: "tables_logged (e_bolt E) ?st hs" if "tables_logged (e_bolt E) st hs" for hs
    using that s(5) s(6) [of hs] by (simp add: tables_logged_def)
  have step: "add_synced_table E tcd st (BlockToGrpcTableBlock n) = Inr ?st"
    using s(1,2) by (simp add: add_synced_table_def UpdateByTableBlock_def Let_def)
  have "\<exists>st'. fold_go (add_synced_table E tcd) ?st (map BlockToGrpcTableBlock ns) = Inr st'
    \<and> table_rep (e_bolt E) tcd (nd_tables st') (rev ns @ n # bs)
    \<and> tableInfo (nd_cache st') = run_tables (tableInfo (nd_cache ?st)) (concat (map tTransactions ns))
    \<and> nd_alg st' = nd_alg ?st \<and> BlockBucket (nd_tables st') = BlockBucket (nd_tables ?st)
    \<and> (\<forall>hs. tables_logged (e_bolt E) ?st hs \<longrightarrow> tables_logged (e_bolt E) st' hs)"
  proof (rule Cons.IH)
    show "can_follow (e_bolt E) tcd (nd_tables ?st) (tableInfo (nd_cache ?st)) k" if k: "k \<in> set ns" for k
    proof -
      have "tCurrentBlockHash n \<notin> tCurrentBlockHash ` set ns" using Cons.prems(3) by simp
      then have "tCurrentBlockHash k \<noteq> tCurrentBlockHash n" using k by (metis imageI)
      then show ?thesis using f Cons.prems(4) k by simp
    qed
  qed (use Cons.prems(2,3) s(3,4) in simp_all)
  then show ?case using step lg s(5) by (auto simp: run_tables_append)
qed

lemma table_sync_follows:
  assumes "table_rep (e_bolt E) tcd (nd_tables sv) (news @ b # olds)"
    and "table_rep (e_bolt E) tcd (nd_tables st) (c # cs)" and "tCurrentBlockHash c = tCurrentBlockHash b"
    and "filter Account nodes = [n]"
    and "ask n (tCurrentBlockHash b) = (case serve_TableBlocks E tcd (tCurrentBlockHash b) sv of Some (Inr ms) \<Rightarrow> Some ms | _ \<Rightarrow> None)"
    and "\<And>x. x \<in> set news \<Longrightarrow> can_follow (e_bolt E) tcd (nd_tables st) (tableInfo (nd_cache st)) x"
  shows "\<exists>st'. TableBlockSynchronization E tcd ask nodes st = Inr st'
    \<and> table_rep (e_bolt E) tcd (nd_tables st') (news @ c # cs)
    \<and> TailHash (nd_tables st') = TailHash (nd_tables sv)
    \<and> tableInfo (nd_cache st') = run_tables (tableInfo (nd_cache st)) (concat (map tTransactions (rev news)))
    \<and> (tableInfo (nd_cache st) = tables_of (c # cs) \<longrightarrow> tableInfo (nd_cache st') = tables_of (news @ c # cs))
    \<and> nd_alg st' = nd_alg st \<and> BlockBucket (nd_tables st') = BlockBucket (nd_tables st)
    \<and> (\<forall>hs. tables_logged (e_bolt E) st hs \<longrightarrow> tables_logged (e_bolt E) st' hs)"
proof -
  note srv = assms(1) [unfolded table_rep_def chain_rep_def]
  have tail: "TailHash (nd_tables st) = tCurrentBlockHash b"
    using table_store.tail_hd [OF assms(2)] assms(3) by simp
  have "\<exists>st'. fold_go (add_synced_table E tcd) st (map BlockToGrpcTableBlock (rev news)) = Inr st'
    \<and> table_rep (e_bolt E) tcd (nd_tables st') (rev (rev news) @ c # cs)
    \<and> tableInfo (nd_cache st') = run_tables (tableInfo (nd_cache st)) (concat (map tTransactions (rev news)))
    \<and> nd_alg st' = nd_alg st \<and> BlockBucket (nd_tables st') = BlockBucket (nd_tables st)
    \<and> (\<forall>hs. tables_logged (e_bolt E) st hs \<longrightarrow> tables_logged (e_bolt E) st' hs)"
  proof (rule add_synced_tables [OF assms(2)])
    show "linked_up tCurrentBlockHash tPreviousBlockHash (TailHash (nd_tables st)) (rev news)"
      unfolding tail by (rule stored_linked_up) (use srv in auto)
    show "distinct (map tCurrentBlockHash (rev news))" using srv by (simp flip: rev_map)
  qed (use assms(6) in auto)
  then obtain st' where st': "fold_go (add_synced_table E tcd) st (rev (map BlockToGrpcTableBlock news)) = Inr st'"
    "table_rep (e_bolt E) tcd (nd_tables st') (news @ c # cs)"
    "tableInfo (nd_cache st') = run_tables (tableInfo (nd_cache st)) (concat (map tTransactions (rev news)))"
    "nd_alg st' = nd_alg st" "BlockBucket (nd_tables st') = BlockBucket (nd_tables st)"
    "\<And>hs. tables_logged (e_bolt E) st hs \<Longrightarrow> tables_logged (e_bolt E) st' hs" by (auto simp: rev_map)
  have "ask n (tCurrentBlockHash b) = Some (map BlockToGrpcTableBlock news)"
    using assms(5) serve_TableBlocks_missing [OF assms(1)] by simp
  then have "TableBlockSynchronization E tcd ask nodes st = Inr st'"
    using table_store.lookup_tail [OF assms(2)] assms(3,4) st'(1)
    by (simp add: TableBlockSynchronization_def fold_go_filter)
  moreover have "TailHash (nd_tables st') = TailHash (nd_tables sv)"
    using table_store.tail_hd [of "e_bolt E" tcd "nd_tables sv"] table_store.tail_hd [of "e_bolt E" tcd "nd_tables st'"]
      assms(1,3) st'(2) by (cases news) fastforce+
  moreover have "tables_of (news @ c # cs) = run_tables (tables_of (c # cs)) (concat (map tTransactions (rev news)))"
    by (simp add: tables_of_def run_tables_append)
  ultimately show ?thesis using st'(2-6) by auto
qed

text \<open>
  C16. Catching up on the table chain: if the cluster file marks one node as book-keeper and that
  node's table chain contains the tail of the own one, synchronization stores exactly the missing
  blocks and merges their permission entries, oldest first, into the tables in memory; a node whose
  tables were those of its own chain ends with those of the book-keeper's chain. The data chain is
  untouched.
\<close>

theorem table_sync_catches_up:
  assumes "table_rep (e_bolt E) tcd (nd_tables sv) (news @ b # olds)"
    and "table_rep (e_bolt E) tcd (nd_tables st) (c # cs)" and "tCurrentBlockHash c = tCurrentBlockHash b"
    and "filter Account nodes = [n]"
    and "ask n (tCurrentBlockHash b) = (case serve_TableBlocks E tcd (tCurrentBlockHash b) sv of Some (Inr ms) \<Rightarrow> Some ms | _ \<Rightarrow> None)"
    and "\<And>x. x \<in> set news \<Longrightarrow> can_follow (e_bolt E) tcd (nd_tables st) (tableInfo (nd_cache st)) x"
  shows "\<exists>st'. TableBlockSynchronization E tcd ask nodes st = Inr st'
    \<and> table_rep (e_bolt E) tcd (nd_tables st') (news @ c # cs)
    \<and> TailHash (nd_tables st') = TailHash (nd_tables sv)
    \<and> tableInfo (nd_cache st') = run_tables (tableInfo (nd_cache st)) (concat (map tTransactions (rev news)))
    \<and> (tableInfo (nd_cache st) = tables_of (c # cs) \<longrightarrow> tableInfo (nd_cache st') = tables_of (news @ c # cs))
    \<and> nd_alg st' = nd_alg st"
  using table_sync_follows [where ask = ask, OF assms] by blast

text \<open>A node with only the genesis block of the chain of \<open>grant_blocks\<close>, for the witness.\<close>

definition late_tables :: "mapdb table_chain" where
  "late_tables = (new_table_chain map_bolt)\<lparr>TailHash := ''a'',
     Db := [''blockBucket'' \<mapsto> [''a'' \<mapsto> ''a'', ''lastHashKey'' \<mapsto> ''a'']]\<rparr>"

lemma late_tables_simps: "TailHash late_tables = ''a''" "BlockBucket late_tables = ''blockBucket''"
  "LastHashKey late_tables = ''lastHashKey''" "has_bucket map_bolt (Db late_tables) b \<longleftrightarrow> b = ''blockBucket''"
  "bolt_get map_bolt (Db late_tables) ''blockBucket'' h = (if h = ''lastHashKey'' \<or> h = ''a'' then ''a'' else [])"
  by (simp_all add: late_tables_def new_table_chain_def map_bolt_def)

lemma late_tables_serving: "table_rep map_bolt grant_codec grant_chain (butlast grant_blocks @ last grant_blocks # [])"
  using grant_rep by (simp add: grant_blocks_def)

lemma late_tables_rep: "table_rep map_bolt grant_codec late_tables (last grant_blocks # [])"
  unfolding table_rep_def chain_rep_def
  by (simp add: late_tables_simps map_bolt_laws grant_blocks_def genesis_mark_def grant_codec_def)

lemma late_tables_follow: "x \<in> set (butlast grant_blocks) \<Longrightarrow> can_follow map_bolt grant_codec late_tables Map.empty x"
  by (auto simp: can_follow_def block_fits_def late_tables_simps storable_def grant_blocks_def grant_codec_def
      log_okname_def map_bolt_laws)

lemma late_tables_run:
  "run_tables Map.empty (concat (map tTransactions (rev (butlast grant_blocks)))) = [''t'' \<mapsto> grants Map.empty [''x4'', ''y1'']]"
  by (simp add: grant_blocks_def run_tables_def grants_def)

theorem table_sync_catches_up_witness:
  "\<exists>st'. TableBlockSynchronization unsigned_env grant_codec
      (\<lambda>n h. case serve_TableBlocks unsigned_env grant_codec h (toy_node\<lparr>nd_tables := grant_chain\<rparr>) of
         Some (Inr ms) \<Rightarrow> Some ms | _ \<Rightarrow> None) two_nodes (toy_node\<lparr>nd_tables := late_tables\<rparr>) = Inr st'
    \<and> TailHash (nd_tables st') = ''c'' \<and> tableInfo (nd_cache st') ''t'' = Some (grants Map.empty [''x4'', ''y1''])"
proof -
  let ?sv = "toy_node\<lparr>nd_tables := grant_chain\<rparr>" and ?st = "toy_node\<lparr>nd_tables := late_tables\<rparr>"
  let ?ask = "\<lambda>(n :: node) h. case serve_TableBlocks unsigned_env grant_codec h ?sv of Some (Inr ms) \<Rightarrow> Some ms | _ \<Rightarrow> None"
  let ?news = "butlast grant_blocks" and ?a = "last grant_blocks"
  have B: "e_bolt unsigned_env = map_bolt" "nd_tables ?sv = grant_chain" "nd_tables ?st = late_tables"
    "tableInfo (nd_cache ?st) = Map.empty" by (simp_all add: toy_node_def unsigned_env_def toy_env_def)
  have f: "filter Account two_nodes = [\<lparr>IP = ''a'', Port = 3301, Account = True\<rparr>]" by (simp add: two_nodes_def)
  have "\<exists>st'. TableBlockSynchronization unsigned_env grant_codec ?ask two_nodes ?st = Inr st'
    \<and> table_rep (e_bolt unsigned_env) grant_codec (nd_tables st') (?news @ ?a # [])
    \<and> TailHash (nd_tables st') = TailHash (nd_tables ?sv)
    \<and> tableInfo (nd_cache st') = run_tables (tableInfo (nd_cache ?st)) (concat (map tTransactions (rev ?news)))
    \<and> (tableInfo (nd_cache ?st) = tables_of (?a # []) \<longrightarrow> tableInfo (nd_cache st') = tables_of (?news @ ?a # []))
    \<and> nd_alg st' = nd_alg ?st"
    by (rule table_sync_catches_up [where ask = ?ask and news = ?news and b = ?a and olds = "[]" and c = ?a and cs = "[]"])
       ((unfold B)?, rule late_tables_serving late_tables_rep refl f late_tables_follow; assumption?)+
  moreover have "tableInfo (nd_cache toy_node) = Map.empty" by (simp add: toy_node_def)
  ultimately show ?thesis by (auto simp: late_tables_run grant_chain_def)
qed

end
