(* ===== verification/Keeper.thy ===== *)
theory Keeper
  imports Table_Sync
begin

text \<open>
  The loop of \<open>txpool/txpool.go\<close> that packs, and what the book-keeper makes of the waiting table
  transactions: \<open>bookKeeperRun\<close> of \<open>txpool_table.go\<close> from the pool to the chain, the permissions and the
  hand-over queue.
\<close>

section \<open>The loop of the pool\<close>

text \<open>
  Both pools write to the same cache and the same file of the table chain. Between two turns other parts
  of the node run: \<open>act\<close> is what they do to the pools, the flag what they have left in \<open>bookKeeper\<close>.
\<close>

type_synonym 'db keepers = "'db data_keeper \<times> 'db table_keeper"

definition run_turn :: "'db alg_env \<Rightarrow> table_block codec \<Rightarrow> int \<times> uint64 \<times> bool \<Rightarrow> 'db keepers \<Rightarrow> 'db keepers run" where
  "run_turn E tcd inp s =
     (case (inp, s) of ((now, tnow, keeper), (d, t)) \<Rightarrow>
        bind_run (data_bookKeeperRun E now d) (\<lambda>d1.
        let t1 = t\<lparr>tk_cache := dk_cache d1, tk_chain := (tk_chain t)\<lparr>Db := dk_tables d1\<rparr>\<rparr> in
        if keeper
        then bind_run (table_bookKeeperRun (e_bolt E) (e_hashes E) tcd tnow t1) (\<lambda>t2.
               return_run (d1\<lparr>dk_cache := tk_cache t2, dk_tables := Db (tk_chain t2)\<rparr>, t2))
        else return_run (d1, t1)))"

fun pool_run :: "'db alg_env \<Rightarrow> table_block codec \<Rightarrow> (('db keepers \<Rightarrow> 'db keepers) \<times> int \<times> uint64 \<times> bool) list \<Rightarrow>
    'db keepers \<Rightarrow> 'db keepers run" where
  "pool_run E tcd [] s = return_run s"
| "pool_run E tcd ((act, inp) # inps) s = bind_run (run_turn E tcd inp (act s)) (pool_run E tcd inps)"

section \<open>The blocks made\<close>

definition made_block :: "uint64 \<Rightarrow> crypto \<Rightarrow> table_block codec \<Rightarrow> bytes \<Rightarrow> int \<Rightarrow> table_tx \<Rightarrow> table_block" where
  "made_block now cr cd parent n tx = projr (table_InitBlock now cr cd [tx] parent n table_NewBlock)"

fun made_blocks :: "uint64 \<Rightarrow> crypto \<Rightarrow> table_block codec \<Rightarrow> bytes \<Rightarrow> int \<Rightarrow> table_tx list \<Rightarrow> table_block list" where
  "made_blocks now cr cd parent n [] = []"
| "made_blocks now cr cd parent n (tx # txs) =
     (let b = made_block now cr cd parent n tx in b # made_blocks now cr cd (tCurrentBlockHash b) (n + 1) txs)"

lemma made_block_ok: "table_InitBlock now cr cd [tx] parent n table_NewBlock = Inr (made_block now cr cd parent n tx)"
  and made_block_fields [simp]: "tPreviousBlockHash (made_block now cr cd parent n tx) = parent"
    "tTransactions (made_block now cr cd parent n tx) = [tx]" "tID (made_block now cr cd parent n tx) = n"
proof -
  obtain t where t: "GetMerkleRoot (md5 cr) [table_tx_bytes tx] = Inr t"
    using GetMerkleRoot_digest [of "[table_tx_bytes tx]" "md5 cr"] by auto
  show "table_InitBlock now cr cd [tx] parent n table_NewBlock = Inr (made_block now cr cd parent n tx)"
    "tPreviousBlockHash (made_block now cr cd parent n tx) = parent"
    "tTransactions (made_block now cr cd parent n tx) = [tx]" "tID (made_block now cr cd parent n tx) = n"
    by (simp_all add: made_block_def table_InitBlock_def table_InitBlock_at_def table_SetBlockHash_def t)
qed

lemma made_blocks_txs: "map tTransactions (made_blocks now cr cd parent n txs) = map (\<lambda>tx. [tx]) txs"
  by (induction txs arbitrary: parent n) (simp_all add: Let_def)

lemma made_blocks_numbers: "map tID (made_blocks now cr cd parent n txs) = map (\<lambda>i. n + int i) [0..<length txs]"
proof (induction txs arbitrary: parent n)
  case (Cons tx txs)
  have "map (\<lambda>i. n + int i) [0..<Suc (length txs)] = n # map (\<lambda>i. n + 1 + int i) [0..<length txs]"
    by (simp add: upt_conv_Cons map_Suc_upt [symmetric] del: upt_Suc)
  then show ?case using Cons.IH by (simp add: Let_def)
qed simp

section \<open>One round and all rounds\<close>

lemma add_block_LastID: "table_AddBlockToChain B cd b ch = Inr ch' \<Longrightarrow> LastID ch' = LastID ch"
  by (auto simp: table_AddBlockToChain_def add_block_def put_block_def split: if_splits option.splits)

text \<open>What the keeper holds: waiting transactions, chain, blocks to hand over.\<close>

definition keeper_rep :: "'db bolt \<Rightarrow> table_block codec \<Rightarrow> 'db table_keeper \<Rightarrow> table_tx list \<Rightarrow> table_block list \<Rightarrow> table_block list \<Rightarrow> bool" where
  "keeper_rep B cd k xs bs out \<longleftrightarrow> pool_rep tTxID (tk_pool k) xs \<and> packNumber (tk_pool k) = 1
     \<and> table_rep B cd (tk_chain k) bs \<and> bq_rep (tk_blocks k) out"

lemma table_round_one:
  fixes k :: "'db table_keeper" and now :: uint64 and cr :: crypto and cd :: "table_block codec"
  defines "b \<equiv> \<lambda>tx. made_block now cr cd (TailHash (tk_chain k)) (LastID (tk_chain k)) tx"
  assumes "keeper_rep B cd k (tx # xs) bs out" and "can_follow B cd (tk_chain k) (tableInfo (tk_cache k)) (b tx)"
  shows "\<exists>k'. table_round B cr cd now k = Inr k' \<and> keeper_rep B cd k' xs (b tx # bs) (out @ [b tx])
    \<and> tableInfo (tk_cache k') = run_tables (tableInfo (tk_cache k)) [tx] \<and> lru3Query (tk_cache k') = lru3Query (tk_cache k)
    \<and> TailHash (tk_chain k') = tCurrentBlockHash (b tx) \<and> LastID (tk_chain k') = LastID (tk_chain k) + 1
    \<and> (\<forall>x. can_follow B cd (tk_chain k) (tableInfo (tk_cache k)) x \<longrightarrow> tCurrentBlockHash x \<noteq> tCurrentBlockHash (b tx) \<longrightarrow>
         can_follow B cd (tk_chain k') (tableInfo (tk_cache k')) x)"
proof -
  let ?ts = "tableInfo (tk_cache k)" and ?q = "pqueue_of (tk_pool k)" and ?b = "b tx"
  let ?ch = "(tk_chain k)\<lparr>LastID := LastID (tk_chain k) + 1\<rparr>"
  from assms(2) have k: "tq_rep tTxID ?q (tx # xs)" "packNumber (tk_pool k) = 1" "table_rep B cd (tk_chain k) bs"
    "bq_rep (tk_blocks k) out" by (simp_all add: keeper_rep_def pool_rep_def)
  obtain p q1 q2 where q: "pack tTxID 1 (nx ?q (qhead ?q)) ?q = Inr ([tx], p, q1)" "cut_front p q1 = Inr q2"
    "tq_rep tTxID q2 xs" using batch_packed [OF k(1), of 1] by auto
  have same: "can_follow B cd ?ch ts x = can_follow B cd (tk_chain k) ts x" for ts x
    by (simp add: can_follow_def block_fits_def)
  have "table_rep B cd ?ch bs" using k(3) by (simp add: table_rep_def chain_rep_def)
  from follow_one [OF this, of ?b ?ts] assms(3) obtain ch' db where f: "table_AddBlockToChain B cd ?b ?ch = Inr ch'"
    "upDateByTables B ?b (?ts, Db ch') = Inr (run_tables ?ts [tx], db)" "table_rep B cd (ch'\<lparr>Db := db\<rparr>) (?b # bs)"
    "TailHash ch' = tCurrentBlockHash ?b"
    "\<And>x. can_follow B cd (tk_chain k) ?ts x \<Longrightarrow> tCurrentBlockHash x \<noteq> tCurrentBlockHash ?b \<Longrightarrow>
       can_follow B cd (ch'\<lparr>Db := db\<rparr>) (run_tables ?ts [tx]) x"
    unfolding same by (auto simp: b_def)
  let ?k = "\<lparr>tk_pool = (tk_pool k)\<lparr>pqueue_of := q2\<rparr>, tk_chain = ch'\<lparr>Db := db\<rparr>,
    tk_cache = (tk_cache k)\<lparr>tableInfo := run_tables ?ts [tx]\<rparr>, tk_blocks = Put ?b (tk_blocks k)\<rparr>"
  have "table_round B cr cd now k = Inr ?k"
    using q(1,2) f(1,2) k(2) made_block_ok [of now cr cd tx "TailHash (tk_chain k)" "LastID (tk_chain k)"]
    by (simp add: table_round_def UpdateByTableBlock_def b_def)
  moreover have "keeper_rep B cd ?k xs (?b # bs) (out @ [?b])"
    using q(3) k(2) f(3) block_queue.rep_put [OF k(4)] by (simp add: keeper_rep_def pool_rep_def)
  ultimately show ?thesis using f(4,5) add_block_LastID [OF f(1)] by (intro exI [of _ ?k]) simp
qed

lemma table_rounds_all:
  assumes "keeper_rep B cd k (rs @ xs) bs out"
    and "bl = made_blocks now cr cd (TailHash (tk_chain k)) (LastID (tk_chain k)) rs" and "distinct (map tCurrentBlockHash bl)"
    and "\<And>b. b \<in> set bl \<Longrightarrow> can_follow B cd (tk_chain k) (tableInfo (tk_cache k)) b"
  shows "\<exists>k'. table_rounds B cr cd now (int (length rs)) k = return_run k' \<and> keeper_rep B cd k' xs (rev bl @ bs) (out @ bl)
    \<and> tableInfo (tk_cache k') = run_tables (tableInfo (tk_cache k)) rs \<and> lru3Query (tk_cache k') = lru3Query (tk_cache k)
    \<and> LastID (tk_chain k') = LastID (tk_chain k) + int (length rs)"
  using assms
proof (induction rs arbitrary: k bs out bl)
  case Nil
  then show ?case by (simp add: table_rounds.simps [of B cr cd now 0] keeper_rep_def run_tables_def)
next
  case (Cons tx rs)
  let ?b = "made_block now cr cd (TailHash (tk_chain k)) (LastID (tk_chain k)) tx"
  let ?bl = "made_blocks now cr cd (tCurrentBlockHash ?b) (LastID (tk_chain k) + 1) rs"
  have bl: "bl = ?b # ?bl" using Cons.prems(2) by (simp add: Let_def)
  have "keeper_rep B cd k (tx # rs @ xs) bs out" "can_follow B cd (tk_chain k) (tableInfo (tk_cache k)) ?b"
    using Cons.prems(1,4) bl by simp_all
  from table_round_one [OF this] obtain k1 where k1: "table_round B cr cd now k = Inr k1"
    "keeper_rep B cd k1 (rs @ xs) (?b # bs) (out @ [?b])" "tableInfo (tk_cache k1) = run_tables (tableInfo (tk_cache k)) [tx]"
    "lru3Query (tk_cache k1) = lru3Query (tk_cache k)"
    "TailHash (tk_chain k1) = tCurrentBlockHash ?b" "LastID (tk_chain k1) = LastID (tk_chain k) + 1"
    and f: "\<And>x. can_follow B cd (tk_chain k) (tableInfo (tk_cache k)) x \<Longrightarrow> tCurrentBlockHash x \<noteq> tCurrentBlockHash ?b \<Longrightarrow>
         can_follow B cd (tk_chain k1) (tableInfo (tk_cache k1)) x" by blast
  have "\<exists>k'. table_rounds B cr cd now (int (length rs)) k1 = return_run k'
    \<and> keeper_rep B cd k' xs (rev ?bl @ ?b # bs) ((out @ [?b]) @ ?bl)
    \<and> tableInfo (tk_cache k') = run_tables (tableInfo (tk_cache k1)) rs \<and> lru3Query (tk_cache k') = lru3Query (tk_cache k1)
    \<and> LastID (tk_chain k') = LastID (tk_chain k1) + int (length rs)"
  proof (rule Cons.IH [OF k1(2)])
    show "can_follow B cd (tk_chain k1) (tableInfo (tk_cache k1)) x" if x: "x \<in> set ?bl" for x
    proof -
      have "tCurrentBlockHash ?b \<notin> tCurrentBlockHash ` set ?bl" using Cons.prems(3) by (simp add: bl)
      then have "tCurrentBlockHash x \<noteq> tCurrentBlockHash ?b" using x by (metis imageI)
      then show ?thesis using f Cons.prems(4) x bl by simp
    qed
  qed (use k1(5,6) Cons.prems(3) bl in simp_all)
  moreover have "table_rounds B cr cd now (int (length (tx # rs))) k = table_rounds B cr cd now (int (length rs)) k1"
    using k1(1) Cons.prems(1) by (simp add: table_rounds.simps [of B cr cd now _ k] keeper_rep_def)
  moreover have "run_tables ts (tx # rs) = run_tables (run_tables ts [tx]) rs" for ts by (simp add: run_tables_def)
  ultimately show ?case using k1(3,4,6) by (simp add: bl algebra_simps)
qed

text \<open>
  C18. The table book-keeper: if the pool is in order of time and the blocks to come fit on the chain,
  one run ends, having put every transaction older than two seconds into a block of its own, in order
  of time, each following the one before and numbered on from the last one. The blocks are on the
  chain, in the hand-over queue and in the permissions; the pool keeps exactly the transactions that
  are too young.
\<close>

theorem table_keeper_packs:
  assumes "keeper_rep B cd k xs bs out" and "sorted (map tTimeStamp xs)"
    and "ready = filter (\<lambda>tx. tTimeStamp tx < sint now - 2) xs"
    and "bl = made_blocks now cr cd (TailHash (tk_chain k)) (LastID (tk_chain k)) ready" and "distinct (map tCurrentBlockHash bl)"
    and "\<And>b. b \<in> set bl \<Longrightarrow> can_follow B cd (tk_chain k) (tableInfo (tk_cache k)) b"
  shows "\<exists>k'. table_bookKeeperRun B cr cd now k = return_run k'
    \<and> keeper_rep B cd k' (filter (\<lambda>tx. sint now - 2 \<le> tTimeStamp tx) xs) (rev bl @ bs) (out @ bl)
    \<and> tableInfo (tk_cache k') = run_tables (tableInfo (tk_cache k)) ready \<and> lru3Query (tk_cache k') = lru3Query (tk_cache k)
    \<and> map tTransactions bl = map (\<lambda>tx. [tx]) ready
    \<and> map tID bl = map (\<lambda>i. LastID (tk_chain k) + int i) [0..<length ready]
    \<and> LastID (tk_chain k') = LastID (tk_chain k) + int (length ready)"
proof -
  let ?q = "pqueue_of (tk_pool k)"
  have q: "tq_rep tTxID ?q xs" using assms(1) by (simp add: keeper_rep_def pool_rep_def)
  have "xs = ready @ filter (\<lambda>tx. sint now - 2 \<le> tTimeStamp tx) xs"
    unfolding assms(3) using assms(2)
  proof (induction xs)
    case (Cons x xs)
    show ?case
    proof (cases "tTimeStamp x < sint now - 2")
      case False
      then have "\<forall>y \<in> set xs. \<not> tTimeStamp y < sint now - 2" using Cons.prems by auto
      then have "filter (\<lambda>tx. tTimeStamp tx < sint now - 2) xs = []" "filter (\<lambda>tx. sint now - 2 \<le> tTimeStamp tx) xs = xs"
        by (auto simp: filter_empty_conv filter_id_conv)
      then show ?thesis using False by simp
    qed (use Cons in auto)
  qed simp
  then have k: "keeper_rep B cd k (ready @ filter (\<lambda>tx. sint now - 2 \<le> tTimeStamp tx) xs) bs out"
    using assms(1) by simp
  have "count_ready tTimeStamp (sint now - 2) ?q (nx ?q (qhead ?q)) 0 = Some (Inr (int (length ready)))"
    using ready_counted [OF q assms(2)] by (simp add: assms(3))
  then have "table_bookKeeperRun B cr cd now k = table_rounds B cr cd now (int (length ready)) k"
    by (simp add: table_bookKeeperRun_def)
  then show ?thesis using table_rounds_all [OF k assms(4-6)] made_blocks_txs made_blocks_numbers assms(4) by auto
qed

section \<open>A data block of one's own\<close>

lemma own_block_step:
  assumes "pool_rep TxID (dk_pool k) xs" and "packNumber (dk_pool k) = int m" and "m \<le> length xs"
    and "data_rep (e_bolt E) (e_block E) (a_chain (dk_alg k)) bs" and "data_ok (e_bolt E) (e_block E) (a_chain (dk_alg k)) b"
    and "bq_rep (dk_blocks k) out"
    and "\<And>n. n \<in> M \<Longrightarrow> log_rep (e_bolt E) (dk_tables k) n (hs n) \<and> Suc (length (hs n)) < 2 ^ 64 - 1"
    and "Table ` set (Transactions b) \<subseteq> M" and "CurrentBlockHash b \<noteq> ''root''" and "length (CurrentBlockHash b) \<le> 2147483646"
  shows "\<exists>p q k'. pack TxID (nat (packNumber (dk_pool k))) (nx (pqueue_of (dk_pool k)) (qhead (pqueue_of (dk_pool k))))
        (pqueue_of (dk_pool k)) = Inr (take m xs, p, q)
    \<and> own_block E b p (k\<lparr>dk_pool := (dk_pool k)\<lparr>pqueue_of := q\<rparr>\<rparr>) = Inr k'
    \<and> pool_rep TxID (dk_pool k') (drop m xs) \<and> bq_rep (dk_blocks k') (out @ [b])
    \<and> data_rep (e_bolt E) (e_block E) (a_chain (dk_alg k')) (b # bs)
    \<and> LastID (a_chain (dk_alg k')) = LastID (a_chain (dk_alg k)) + 1 \<and> dk_count k' = dk_count k - int m
    \<and> lru3Query (dk_cache k') = updateDataCache b (lru3Query (dk_cache k))
    \<and> (\<forall>n \<in> M. log_rep (e_bolt E) (dk_tables k') n
         (if n \<in> Table ` set (Transactions b) then log_append (hs n) (CurrentBlockHash b) else hs n))"
proof -
  let ?ch = "(a_chain (dk_alg k))\<lparr>LastID := LastID (a_chain (dk_alg k)) + 1\<rparr>" and ?q = "pqueue_of (dk_pool k)"
  obtain p q1 q2 where q: "pack TxID m (nx ?q (qhead ?q)) ?q = Inr (take m xs, p, q1)" "cut_front p q1 = Inr q2"
    "tq_rep TxID q2 (drop m xs)"
    using batch_packed [of TxID ?q xs m] assms(1,3) by (auto simp: pool_rep_def)
  have "data_rep (e_bolt E) (e_block E) ?ch bs" using assms(4) by (simp add: data_rep_def chain_rep_def)
  moreover have "data_ok (e_bolt E) (e_block E) ?ch b" using assms(5) by (simp add: data_ok_def block_ok_def)
  ultimately obtain ch where ch: "AddBlockToChain (e_bolt E) (e_block E) b ?ch = Inr ch"
    "data_rep (e_bolt E) (e_block E) ch (b # bs)" using data_store.add_rep by blast
  have id: "LastID ch = LastID ?ch"
    using ch(1) by (auto simp: AddBlockToChain_def add_block_def put_block_def split: if_splits option.splits)
  obtain db where db: "upDateByData (e_bolt E) b (dk_tables k) = Inr db"
    "\<forall>n \<in> M. log_rep (e_bolt E) db n (if n \<in> Table ` set (Transactions b) then log_append (hs n) (CurrentBlockHash b) else hs n)"
    using data_block_logged [of M "e_bolt E" "dk_tables k" hs b] assms(7-10) by auto
  show ?thesis
    using q ch id db assms(2) block_queue.rep_put [OF assms(6)]
    by (intro exI [of _ p] exI [of _ q1]) (simp add: own_block_def UpdateByDataBlock_def Let_def pool_rep_def)
qed

text \<open>
  A round the node wins: the batch it packed is out of the pool, the agreed block is on the own chain
  and in the hand-over queue, the number of the last block is one higher, the count of ready
  transactions is lower by the batch, the cached values follow the block and every table the block
  touches has its hash in its log.
\<close>

theorem own_block_recorded:
  assumes "pool_rep TxID (dk_pool k) xs" and "packNumber (dk_pool k) = int m" and "m \<le> length xs"
    and "data_rep (e_bolt E) (e_block E) (a_chain (dk_alg k)) bs" and "data_ok (e_bolt E) (e_block E) (a_chain (dk_alg k)) b"
    and "bq_rep (dk_blocks k) out"
    and "\<And>n. n \<in> M \<Longrightarrow> log_rep (e_bolt E) (dk_tables k) n (hs n) \<and> Suc (length (hs n)) < 2 ^ 64 - 1"
    and "Table ` set (Transactions b) \<subseteq> M" and "CurrentBlockHash b \<noteq> ''root''" and "length (CurrentBlockHash b) \<le> 2147483646"
  shows "\<exists>p q k'. pack TxID (nat (packNumber (dk_pool k))) (nx (pqueue_of (dk_pool k)) (qhead (pqueue_of (dk_pool k))))
        (pqueue_of (dk_pool k)) = Inr (take m xs, p, q)
    \<and> own_block E b p (k\<lparr>dk_pool := (dk_pool k)\<lparr>pqueue_of := q\<rparr>\<rparr>) = Inr k'
    \<and> pool_rep TxID (dk_pool k') (drop m xs) \<and> bq_rep (dk_blocks k') (out @ [b])
    \<and> data_rep (e_bolt E) (e_block E) (a_chain (dk_alg k')) (b # bs)
    \<and> LastID (a_chain (dk_alg k')) = LastID (a_chain (dk_alg k)) + 1 \<and> dk_count k' = dk_count k - int m
    \<and> lru3Query (dk_cache k') = updateDataCache b (lru3Query (dk_cache k))
    \<and> (\<forall>n \<in> M. log_rep (e_bolt E) (dk_tables k') n
         (if n \<in> Table ` set (Transactions b) then log_append (hs n) (CurrentBlockHash b) else hs n))"
  using assms by (rule own_block_step)

theorem own_block_recorded_witness:
  "\<exists>k p q k'. pack TxID 1 (nx (pqueue_of (dk_pool k)) (qhead (pqueue_of (dk_pool k)))) (pqueue_of (dk_pool k)) = Inr ([toy_tx], p, q)
    \<and> own_block unsigned_env unsigned_block p (k\<lparr>dk_pool := (dk_pool k)\<lparr>pqueue_of := q\<rparr>\<rparr>) = Inr k'
    \<and> data_rep map_bolt (toy_codec (unsigned_block # tl toy_blocks)) (a_chain (dk_alg k')) (unsigned_block # tl toy_blocks)
    \<and> bq_rep (dk_blocks k') [unsigned_block]"
proof -
  obtain q where q: "tq_rep TxID q [toy_tx]"
    using tx_queue.enq_insert [OF tq_rep_init, where x = toy_tx and ident = TxID and ts = TimeStamp]
    by (auto simp: back_insert_def later_def not_later_def)
  define k where "k = \<lparr>dk_pool = \<lparr>pqueue_of = q, packNumber = int 1\<rparr>, dk_alg = toy_state,
    dk_cache = \<lparr>lru3Query = lru_init, tableInfo = Map.empty\<rparr>, dk_tables = wit_db, dk_blocks = bq_Init NewBlock,
    dk_count = 1, dk_spins = [], dk_SubUser = 1\<rparr>"
  note can = unsigned_can_receive [unfolded can_receive_def]
  have p: "pool_rep TxID (dk_pool k) [toy_tx]" "packNumber (dk_pool k) = int 1" "1 \<le> length [toy_tx]"
    using q by (simp_all add: k_def pool_rep_def)
  have d: "data_rep (e_bolt unsigned_env) (e_block unsigned_env) (a_chain (dk_alg k)) (tl toy_blocks)"
    "data_ok (e_bolt unsigned_env) (e_block unsigned_env) (a_chain (dk_alg k)) unsigned_block"
    using can by (simp_all add: k_def toy_node_def)
  have o: "bq_rep (dk_blocks k) []" by (simp add: k_def bq_rep_Init)
  have l: "log_rep (e_bolt unsigned_env) (dk_tables k) n [''c''] \<and> Suc (length [''c'']) < 2 ^ 64 - 1" if "n \<in> {''tab''}" for n
    using that wit_rep by (simp add: k_def)
  have t: "Table ` set (Transactions unsigned_block) \<subseteq> {''tab''}" by (simp add: wit_tx_def SetDataID_def)
  from own_block_recorded [where hs = "\<lambda>_. [''c'']", OF p d o l t] show ?thesis
    by (intro exI [of _ k]) (auto simp: p(2))
qed

text \<open>An old and a young transaction over the genesis block of \<open>late_tables\<close>, for the witness.\<close>

definition aged_tx :: "bytes \<Rightarrow> int \<Rightarrow> table_tx" where
  "aged_tx i ts = zero_table_tx\<lparr>tTxID := i, tTable := ''t'', PermissionTable := [''y1''], tTimeStamp := ts\<rparr>"

definition hash_or_x :: "table_block \<Rightarrow> bytes" where
  "hash_or_x b = (if tCurrentBlockHash b = [] then ''x'' else tCurrentBlockHash b)"

definition aged_block :: table_block where
  "aged_block = made_block 9 toy_crypto \<lparr>encode = hash_or_x, decode = (\<lambda>_. None)\<rparr> ''a'' 1 (aged_tx ''i'' 5)"

definition aged_codec :: "table_block codec" where
  "aged_codec = \<lparr>encode = hash_or_x,
     decode = (\<lambda>v. find (\<lambda>b. tCurrentBlockHash b = v) [aged_block, last grant_blocks])\<rparr>"

lemma aged_block_made: "made_block 9 toy_crypto aged_codec ''a'' 1 (aged_tx ''i'' 5) = aged_block"
  by (simp add: aged_block_def aged_codec_def made_block_def table_InitBlock_def table_InitBlock_at_def table_SetBlockHash_def)

lemma aged_block_hash: "tCurrentBlockHash aged_block = CHR ''x'' # replicate 31 CHR 0x00"
proof -
  have "table_InitBlock 9 toy_crypto aged_codec [aged_tx ''i'' 5] ''a'' 1 table_NewBlock = Inr aged_block"
    using made_block_ok [of 9 toy_crypto aged_codec "aged_tx ''i'' 5" "''a''" 1] by (simp only: aged_block_made)
  then have "tCurrentBlockHash aged_block = sha256 toy_crypto ''x''"
    by (auto simp: table_InitBlock_def table_InitBlock_at_def table_SetBlockHash_def bind_go_Inr_iff aged_codec_def hash_or_x_def
        table_NewBlock_def) (metis table_block.select_convs(2))
  then show ?thesis by (simp add: toy_crypto_def)
qed

lemma aged_block_tx [simp]: "tTransactions aged_block = [aged_tx ''i'' 5]"
  by (simp add: aged_block_def)

lemma aged_tx_fields [simp]: "tTable (aged_tx i ts) = ''t''" "PermissionTable (aged_tx i ts) = [''y1'']"
  "tTimeStamp (aged_tx i ts) = ts" "tTxID (aged_tx i ts) = i"
  by (simp_all add: aged_tx_def)

theorem table_keeper_packs_witness:
  "\<exists>k k'. table_bookKeeperRun map_bolt toy_crypto aged_codec 9 k = return_run k'
    \<and> pool_rep tTxID (tk_pool k) [aged_tx ''i'' 5, aged_tx ''j'' 8] \<and> pool_rep tTxID (tk_pool k') [aged_tx ''j'' 8]
    \<and> table_rep map_bolt aged_codec (tk_chain k') [aged_block, last grant_blocks] \<and> bq_rep (tk_blocks k') [aged_block]"
proof -
  have e: "pool_rep tTxID (pool_init zero_table_tx 10) []" by (simp add: pool_rep_def pool_init_def tq_rep_init)
  have b: "back_insert tTimeStamp (aged_tx ''i'' 5) [] = [aged_tx ''i'' 5]"
    "back_insert tTimeStamp (aged_tx ''j'' 8) [aged_tx ''i'' 5] = [aged_tx ''i'' 5, aged_tx ''j'' 8]"
    by (simp_all add: back_insert_def later_def not_later_def)
  obtain q where q: "queue_in tTimeStamp tTxID (aged_tx ''i'' 5) (queue_init zero_table_tx 10) = Some q"
    "tq_rep tTxID q [aged_tx ''i'' 5]"
    using tx_queue.enq_insert [OF tq_rep_init, where x = "aged_tx ''i'' 5" and ident = tTxID and ts = tTimeStamp] b(1) by auto
  obtain q' where q': "queue_in tTimeStamp tTxID (aged_tx ''j'' 8) q = Some q'"
    "tq_rep tTxID q' [aged_tx ''i'' 5, aged_tx ''j'' 8]"
    using tx_queue.enq_insert [OF q(2), where x = "aged_tx ''j'' 8" and ts = tTimeStamp] b(2) by auto
  define k where "k = \<lparr>tk_pool = \<lparr>pqueue_of = q', packNumber = 1\<rparr>, tk_chain = late_tables,
    tk_cache = \<lparr>lru3Query = lru_init, tableInfo = Map.empty\<rparr>, tk_blocks = bq_Init table_NewBlock\<rparr>"
  have ch: "table_rep map_bolt aged_codec late_tables [last grant_blocks]"
    unfolding table_rep_def chain_rep_def
    by (simp add: late_tables_simps map_bolt_laws grant_blocks_def genesis_mark_def aged_codec_def aged_block_hash)
  have rep: "keeper_rep map_bolt aged_codec k [aged_tx ''i'' 5, aged_tx ''j'' 8] [last grant_blocks] []"
    using q'(2) ch bq_rep_Init by (simp add: keeper_rep_def k_def pool_rep_def)
  have r: "[aged_tx ''i'' 5] = filter (\<lambda>tx. tTimeStamp tx < sint (9 :: uint64) - 2) [aged_tx ''i'' 5, aged_tx ''j'' 8]" by simp
  have bl: "[aged_block] = made_blocks 9 toy_crypto aged_codec (TailHash (tk_chain k)) (LastID (tk_chain k)) [aged_tx ''i'' 5]"
    by (simp add: k_def late_tables_def new_table_chain_def aged_block_made)
  have cf: "can_follow map_bolt aged_codec (tk_chain k) (tableInfo (tk_cache k)) x" if "x \<in> set [aged_block]" for x
    using that by (simp add: k_def can_follow_def block_fits_def late_tables_simps aged_codec_def hash_or_x_def aged_block_hash
        storable_def log_okname_def map_bolt_laws)
  have "\<exists>k'. table_bookKeeperRun map_bolt toy_crypto aged_codec 9 k = return_run k'
    \<and> keeper_rep map_bolt aged_codec k' (filter (\<lambda>tx. sint (9 :: uint64) - 2 \<le> tTimeStamp tx) [aged_tx ''i'' 5, aged_tx ''j'' 8])
        (rev [aged_block] @ [last grant_blocks]) ([] @ [aged_block])"
    using table_keeper_packs [OF rep _ r bl _ cf] by auto
  then show ?thesis using rep by (auto simp: keeper_rep_def)
qed

end
