(* ===== verification/Joining.thy ===== *)
theory Joining
  imports Terminal_Session Table_Sync
begin

text \<open>
  The command \<open>join\<close> as a whole: \<open>JoinToCluster\<close>, \<open>BroadCast\<close> and the two synchronizations one after
  the other, from a line of the terminal to the state of the node afterwards.
\<close>

section \<open>Both chains\<close>

text \<open>
  First the table blocks, then the data blocks: the logs that the missing data blocks go to are those of
  the tables that are known once the missing table blocks are in.
\<close>

lemma sync_both:
  assumes t: "table_rep (e_bolt E) tcd (nd_tables svt) (tnews @ tb # tolds)"
      "table_rep (e_bolt E) tcd (nd_tables st) (tc # tcs)" "tCurrentBlockHash tc = tCurrentBlockHash tb"
      "filter Account nodes1 = [n1]"
      "askt n1 (tCurrentBlockHash tb) =
         (case serve_TableBlocks E tcd (tCurrentBlockHash tb) svt of Some (Inr ms) \<Rightarrow> Some ms | _ \<Rightarrow> None)"
      "\<And>x. x \<in> set tnews \<Longrightarrow> can_follow (e_bolt E) tcd (nd_tables st) (tableInfo (nd_cache st)) x"
    and d: "data_rep (e_bolt E) (e_block E) (a_chain (nd_alg svd)) (news @ b # olds)"
      "data_rep (e_bolt E) (e_block E) (a_chain (nd_alg st)) (c # cs)" "CurrentBlockHash c = CurrentBlockHash b"
      "filter Account nodes2 = [n2]"
      "askd n2 (CurrentBlockHash b) =
         (case serve_DataBlocks E (CurrentBlockHash b) svd of Some (Inr ms) \<Rightarrow> Some ms | _ \<Rightarrow> None)"
      "\<And>x. x \<in> set news \<Longrightarrow> can_store E (a_chain (nd_alg st)) (stripped x) \<and> Table ` set (Transactions x) \<subseteq> dom ts"
    and l: "tables_logged (e_bolt E) st hs" "\<And>m. m \<in> dom ts \<Longrightarrow> length (hs m) + length news < 2 ^ 64 - 1"
    and ts: "ts = run_tables (tableInfo (nd_cache st)) (concat (map tTransactions (rev tnews)))"
  shows "\<exists>st1 st2. TableBlockSynchronization E tcd askt nodes1 st = Inr st1 \<and> DataBlockSynchronization E askd nodes2 st1 = Inr st2
    \<and> table_rep (e_bolt E) tcd (nd_tables st2) (tnews @ tc # tcs) \<and> tableInfo (nd_cache st2) = ts
    \<and> data_rep (e_bolt E) (e_block E) (a_chain (nd_alg st2)) (map stripped news @ c # cs)
    \<and> TailHash (nd_tables st2) = TailHash (nd_tables svt)
    \<and> TailHash (a_chain (nd_alg st2)) = TailHash (a_chain (nd_alg svd))
    \<and> (\<forall>m \<in> dom ts. log_rep (e_bolt E) (Db (nd_tables st2)) m (logs_after (rev news) hs m))"
proof -
  obtain st1 where st1: "TableBlockSynchronization E tcd askt nodes1 st = Inr st1"
    "table_rep (e_bolt E) tcd (nd_tables st1) (tnews @ tc # tcs)" "TailHash (nd_tables st1) = TailHash (nd_tables svt)"
    "tableInfo (nd_cache st1) = ts" "nd_alg st1 = nd_alg st" "tables_logged (e_bolt E) st1 hs"
    using table_sync_follows [where ask = askt, OF t] l(1) ts by blast
  have lg: "log_rep (e_bolt E) (Db (nd_tables st1)) m (hs m)" if "m \<in> dom ts" for m
    using st1(4,6) that by (metis domIff logged_def tables_logged_def)
  have "\<exists>st2. DataBlockSynchronization E askd nodes2 st1 = Inr st2
    \<and> data_rep (e_bolt E) (e_block E) (a_chain (nd_alg st2)) (map stripped news @ c # cs)
    \<and> TailHash (a_chain (nd_alg st2)) = TailHash (a_chain (nd_alg svd))
    \<and> (\<forall>m \<in> dom ts. log_rep (e_bolt E) (Db (nd_tables st2)) m (logs_after (rev news) hs m))
    \<and> only_logs E (dom ts) st1 st2"
    by (rule data_sync_follows [where ask = askd and hs = hs, OF d(1) _ d(3,4,5)])
       (use d(2,6) l(2) lg st1(5) in simp_all)
  then obtain st2 where st2: "DataBlockSynchronization E askd nodes2 st1 = Inr st2"
    "data_rep (e_bolt E) (e_block E) (a_chain (nd_alg st2)) (map stripped news @ c # cs)"
    "TailHash (a_chain (nd_alg st2)) = TailHash (a_chain (nd_alg svd))"
    "\<forall>m \<in> dom ts. log_rep (e_bolt E) (Db (nd_tables st2)) m (logs_after (rev news) hs m)"
    "only_logs E (dom ts) st1 st2" by blast
  note ol = st2(5) [unfolded only_logs_def]
  have bk: "BlockBucket (nd_tables st1) \<notin> dom ts" using st1(4,6) by (auto simp: tables_logged_def)
  have rep: "chain_rep (e_bolt E) (decode tcd) tCurrentBlockHash tPreviousBlockHash (nd_tables st1) (tnews @ tc # tcs)"
    using st1(2) by (simp only: table_rep_def)
  have "has_bucket (e_bolt E) (Db (nd_tables st2)) (BlockBucket (nd_tables st1))"
    using rep ol by (simp add: chain_rep_def)
  then have "table_rep (e_bolt E) tcd ((nd_tables st1)\<lparr>Db := Db (nd_tables st2)\<rparr>) (tnews @ tc # tcs)"
    unfolding table_rep_def by (rule chain_rep_other_buckets [OF rep]) (use ol bk in blast)
  then have "table_rep (e_bolt E) tcd (nd_tables st2) (tnews @ tc # tcs)" using ol by simp
  moreover have "TailHash (nd_tables st2) = TailHash (nd_tables st1)"
    using ol by (metis chain.ext_inject chain.surjective chain.update_convs(1))
  moreover have "tableInfo (nd_cache st2) = ts" using ol st1(4) by simp
  ultimately show ?thesis using st1(1,3) st2(1-4) by auto
qed

section \<open>The command\<close>


text \<open>A node with the two genesis blocks joins a cluster of one, for the witness.\<close>

definition join_env :: "mapdb terminal_env" where
  "join_env = toy_terminal_env\<lparr>tm_server := toy_server_env\<lparr>sv_alg := unsigned_env\<rparr>,
     tm_cluster := toy_cluster_env\<lparr>local_ip := ''b''\<rparr>,
     tm_tables := (\<lambda>_ h. case serve_TableBlocks unsigned_env grant_codec h (toy_node\<lparr>nd_tables := grant_chain\<rparr>) of
       Some (Inr ms) \<Rightarrow> Some ms | _ \<Rightarrow> None),
     tm_blocks := (\<lambda>_ h. case serve_DataBlocks unsigned_env h toy_node of Some (Inr ms) \<Rightarrow> Some ms | _ \<Rightarrow> None),
     tm_marks := (\<lambda>_. map (\<lambda>n. n\<lparr>Account := IP n = ''a''\<rparr>))\<rparr>"

definition join_terminal :: "cluster_state \<Rightarrow> mapdb terminal" where
  "join_terminal entry = (toy_terminal no_users)\<lparr>t_others := (\<lambda>_. entry),
     t_cluster := \<lparr>LocalNode = \<lparr>Nodes = [], JoinKey = []\<rparr>, ClusterInfo = None\<rparr>,
     t_server := (toy_server Map.empty)\<lparr>sv_node := late_node\<lparr>nd_tables := late_tables\<rparr>\<rparr>\<rparr>"


end
