(* ===== verification/Reading.thy ===== *)
theory Reading
  imports Server_Api
begin

text \<open>
  From a block to its readers: what \<open>GetOneValue\<close> of \<open>cache/cache.go\<close> returns at a node that has received
  a block, wherever the item is cached, and with \<open>DataBlockDistribute\<close> of \<open>GRPC/util.go\<close> and \<open>Get\<close> of
  \<open>server/serverFuncs_cmd_bk1.go\<close>: what the users of all other nodes read.
\<close>

section \<open>Intact lists\<close>

text \<open>
  Both lists as they are after any number of insertions and updates. (Reading an item that is not the
  last one breaks the links, see the cycle in \<open>Lru_Cache\<close>.)
\<close>

definition cache_ok :: "lru3 \<Rightarrow> bool" where
  "cache_ok l \<longleftrightarrow> (\<exists>as. lru_addrs DataID (listTx l) as) \<and> (\<exists>as. lru_addrs ix_dataID (listIndex l) as)"

lemma cache_ok_init: "cache_ok lru_init"
  using lru_rep_init [of 120 DataID zero_tx] lru_rep_init [of 300 ix_dataID zero_index]
  by (auto simp: cache_ok_def lru_init_def lruTx_init_def lruIndex_init_def lru_rep_def)

lemma lru_addrs_dat:
  assumes "lru_addrs key q as" and "\<And>a. a \<in> set as \<Longrightarrow> key (d a) = key (dat q a)"
  shows "lru_addrs key (q\<lparr>dat := d\<rparr>) as"
proof -
  have "wf_links (q\<lparr>dat := d\<rparr>) as" using assms(1) by (simp add: lru_addrs_def wf_links_def qpath_def)
  moreover have eq: "map (\<lambda>a. key (d a)) as = map (\<lambda>a. key (dat q a)) as" using assms(2) by simp
  have "distinct (map (\<lambda>a. key (d a)) as)" unfolding eq using assms(1) by (simp add: lru_addrs_def)
  moreover have "(a \<in> set as \<and> key (d a) = k) = (a \<in> set as \<and> key (dat q a) = k)" for a k using assms(2) by auto
  ultimately show ?thesis using assms(1) by (simp add: lru_addrs_def)
qed

lemma lru_addrs_map: "lru_addrs key q as \<Longrightarrow> qmap q k = Some a \<Longrightarrow> a \<in> set as \<and> key (dat q a) = k"
  by (simp add: lru_addrs_def)

lemma lru_addrs_inj: "lru_addrs key q as \<Longrightarrow> qmap q k = Some a \<Longrightarrow> qmap q k' = Some a \<Longrightarrow> k = k'"
  using lru_addrs_map [of key q as k a] lru_addrs_map [of key q as k' a] by simp

lemma update_cached_tx_ok:
  assumes "cache_ok l"
  shows "cache_ok (update_cached_tx h l tx)"
proof -
  let ?l = "case qmap (listTx l) (DataID tx) of None \<Rightarrow> l
    | Some p \<Rightarrow> l\<lparr>listTx := (listTx l)\<lparr>dat := (dat (listTx l))(p := tx)\<rparr>\<rparr>"
  obtain as bs where as: "lru_addrs DataID (listTx l) as" and bs: "lru_addrs ix_dataID (listIndex l) bs"
    using assms by (auto simp: cache_ok_def)
  have "lru_addrs DataID ((listTx l)\<lparr>dat := (dat (listTx l))(p := tx)\<rparr>) as" if "qmap (listTx l) (DataID tx) = Some p" for p
    by (rule lru_addrs_dat [OF as]) (use lru_addrs_map [OF as that] in auto)
  then have t: "lru_addrs DataID (listTx ?l) as" using as by (auto split: option.split)
  have i: "lru_addrs ix_dataID (listIndex ?l) bs" using bs by (auto split: option.split)
  have "lru_addrs ix_dataID ((listIndex ?l)\<lparr>dat := (dat (listIndex ?l))(p := (dat (listIndex ?l) p)\<lparr>ix_blockHash := x, ix_txID := y\<rparr>)\<rparr>) bs"
    for p x y by (rule lru_addrs_dat [OF i]) simp
  then have "lru_addrs ix_dataID (listIndex (update_cached_tx h l tx)) bs"
    using i by (simp add: update_cached_tx_def Let_def split: option.split)
  moreover have "listTx (update_cached_tx h l tx) = listTx ?l" by (simp add: update_cached_tx_def Let_def split: option.split)
  ultimately show ?thesis using t unfolding cache_ok_def by auto
qed

lemma updateDataCache_ok: "cache_ok l \<Longrightarrow> cache_ok (updateDataCache b l)"
proof -
  have "cache_ok l \<Longrightarrow> cache_ok (foldl (update_cached_tx h) l txs)" for h txs
    by (induction txs arbitrary: l) (simp_all add: update_cached_tx_ok)
  then show "cache_ok l \<Longrightarrow> cache_ok (updateDataCache b l)" by (simp add: updateDataCache_def)
qed

text \<open>The index entry of an item points to the last transaction with its ID in the block, if there is one.\<close>

lemma update_cached_index:
  assumes "\<And>k k' a. qmap (listIndex l) k = Some a \<Longrightarrow> qmap (listIndex l) k' = Some a \<Longrightarrow> k = k'"
    and "qmap (listIndex l) k = Some p"
  shows "qmap (listIndex (update_cached_tx h l tx)) = qmap (listIndex l)"
    and "dat (listIndex (update_cached_tx h l tx)) p
      = (if DataID tx = k then (dat (listIndex l) p)\<lparr>ix_blockHash := h, ix_txID := TxID tx\<rparr> else dat (listIndex l) p)"
proof -
  have "qmap (listIndex l) (DataID tx) = Some p \<longleftrightarrow> DataID tx = k" using assms by blast
  then show "qmap (listIndex (update_cached_tx h l tx)) = qmap (listIndex l)"
    "dat (listIndex (update_cached_tx h l tx)) p
      = (if DataID tx = k then (dat (listIndex l) p)\<lparr>ix_blockHash := h, ix_txID := TxID tx\<rparr> else dat (listIndex l) p)"
    by (auto simp: update_cached_tx_def Let_def split: option.split)
qed

lemma index_follows_block:
  assumes "\<And>k k' a. qmap (listIndex l) k = Some a \<Longrightarrow> qmap (listIndex l) k' = Some a \<Longrightarrow> k = k'"
    and "qmap (listIndex (updateDataCache b l)) k = Some p" and "filter (\<lambda>t. DataID t = k) (Transactions b) = [tx]"
  shows "ix_blockHash (dat (listIndex (updateDataCache b l)) p) = CurrentBlockHash b
    \<and> ix_txID (dat (listIndex (updateDataCache b l)) p) = TxID tx"
proof -
  have m: "qmap (listIndex (foldl (update_cached_tx h) l txs)) = qmap (listIndex l)" for h txs and l :: lru3
  proof (induction txs arbitrary: l)
    case (Cons t txs)
    have "qmap (listIndex (update_cached_tx h l t)) = qmap (listIndex l)"
      by (simp add: update_cached_tx_def Let_def split: option.split)
    with Cons.IH show ?case by simp
  qed simp
  have "dat (listIndex (foldl (update_cached_tx h) l txs)) p = (if filter (\<lambda>t. DataID t = k) txs = [] then dat (listIndex l) p
      else (dat (listIndex l) p)\<lparr>ix_blockHash := h, ix_txID := TxID (last (filter (\<lambda>t. DataID t = k) txs))\<rparr>)"
    if inj: "\<And>k k' a. qmap (listIndex l) k = Some a \<Longrightarrow> qmap (listIndex l) k' = Some a \<Longrightarrow> k = k'"
      and q: "qmap (listIndex l) k = Some p" for h txs and l :: lru3
    using that
  proof (induction txs arbitrary: l)
    case (Cons t txs)
    note u = update_cached_index [where h = h and tx = t, OF Cons.prems]
    show ?case using Cons.IH [of "update_cached_tx h l t"] Cons.prems u by simp
  qed simp
  from this [of l] m [of "CurrentBlockHash b" l "Transactions b"] assms show ?thesis by (simp add: updateDataCache_def)
qed

section \<open>Moving and removing nodes does not fail\<close>

lemma on_path:
  assumes "wf_links q as" and "p \<in> set as"
  shows "\<exists>a b l t. pv q p = Some a \<and> nx q p = Some b \<and> pv q (qtail q) = Some l \<and> nx q l = Some t"
proof -
  obtain us vs where "as = us @ p # vs" using assms(2) by (meson split_list)
  then have path: "qpath q as = (qhead q # us) @ p # vs @ [qtail q]" by (simp add: qpath_def)
  obtain b post where "vs @ [qtail q] = b # post" by (cases vs) auto
  with path have p1: "qpath q as = (qhead q # us) @ p # b # post" by simp
  obtain pre a where "qhead q # us = pre @ [a]" by (metis list.discI rev_exhaust)
  with path have p2: "qpath q as = pre @ a # p # vs @ [qtail q]" by simp
  obtain pre' l where "qhead q # as = pre' @ [l]" by (metis list.discI rev_exhaust)
  then have p3: "qpath q as = pre' @ l # qtail q # []" by (simp add: qpath_def)
  show ?thesis
    using wf_links_neighbours(1) [OF assms(1) p1] wf_links_neighbours(2) [OF assms(1) p2]
      wf_links_neighbours(1,2) [OF assms(1) p3] by blast
qed

lemma move_to_tail_some:
  assumes "wf_links q as" and "p \<in> set as" and "pv q (qtail q) \<noteq> Some p"
  shows "\<exists>q' a b. move_to_tail p q = Some q' \<and> dat q' = dat q \<and> qmap q' = qmap q \<and> pv q' p = Some a \<and> nx q' p = Some b"
  using on_path [OF assms(1,2)] assms(3) by (auto simp: move_to_tail_def link_after_def Let_def)

lemma lruTx_toTail_some:
  assumes "lru_addrs key q as" and "qmap q k = Some p"
  shows "\<exists>q'. lruTx_toTail k q = Some q'"
proof (cases "pv q (qtail q) = Some p")
  case True
  then show ?thesis using assms(2) by (simp add: lruTx_toTail_def)
next
  case False
  have "wf_links q as" "p \<in> set as" using assms(1) lru_addrs_map [OF assms] by (simp_all add: lru_addrs_def)
  from move_to_tail_some [OF this False] show ?thesis using assms(2) by (auto simp: lruTx_toTail_def)
qed

lemma lruIndex_toTail_some:
  assumes "lru_addrs ix_dataID q as" and "qmap q k = Some p"
  shows "\<exists>q1 gone q2. lruIndex_toTail k q = Some q1 \<and> checkDel k q1 = Some (gone, q2)"
proof -
  let ?q = "q\<lparr>dat := (dat q)(p := (dat q p)\<lparr>ix_count := ix_count (dat q p) + 1\<rparr>)\<rparr>"
  have wf: "wf_links ?q as" "p \<in> set as"
    using assms lru_addrs_map [OF assms] by (simp_all add: lru_addrs_def wf_links_def qpath_def)
  obtain q1 a b where q1: "lruIndex_toTail k q = Some q1" "qmap q1 = qmap q" "pv q1 p = Some a" "nx q1 p = Some b"
  proof (cases "pv q (qtail q) = Some p")
    case True
    then show thesis using that [of ?q] on_path [OF wf] assms(2) by (auto simp: lruIndex_toTail_def Let_def)
  next
    case False
    then show thesis using that move_to_tail_some [OF wf] assms(2) by (auto simp: lruIndex_toTail_def Let_def)
  qed
  have "\<exists>r. checkDel k q1 = Some r" using q1 assms(2) by (auto simp: checkDel_def unlink_def Let_def)
  then show ?thesis using q1(1) by auto
qed

lemma lru_queueIn_some:
  assumes "lru_addrs key q as" and "qmap q (key x) = None"
  shows "\<exists>q'. lru_queueIn key (key x) x q = Some q'"
proof -
  have "key (dat q a) \<noteq> key x" if "a \<in> set as" for a
    using assms that unfolding lru_addrs_def by (metis option.distinct(1))
  then have "key x \<notin> key ` set (map (dat q) as)" by (metis (no_types, lifting) imageE list.set_map)
  from lru_queueIn_addrs [OF assms(1) this] show ?thesis by blast
qed

section \<open>Reading an item\<close>

lemma filter_single: "filter P xs = [x] \<Longrightarrow> x \<in> set xs \<and> P x"
proof -
  assume "filter P xs = [x]"
  then have "x \<in> set (filter P xs)" by simp
  then show ?thesis by simp
qed

text \<open>
  If everything a node has cached about an item points to a transaction of the block that is last in the
  log of the item's table, this transaction is what a read returns, from whichever of the three places.
\<close>

lemma read_pointed:
  assumes ok: "cache_ok (lru3Query c)" and inb: "filter (\<lambda>t. DataID t = k) (Transactions b) = [tx]" "0 < TimeStamp tx"
      "distinct (map TxID (Transactions b))"
    and cached: "\<And>t. getInTX k (lru3Query c) = Some t \<Longrightarrow> t = tx"
    and index: "\<And>p. qmap (listIndex (lru3Query c)) k = Some p \<Longrightarrow>
      ix_blockHash (dat (listIndex (lru3Query c)) p) = CurrentBlockHash b \<and> ix_txID (dat (listIndex (lru3Query c)) p) = TxID tx"
    and log: "log_rep B db n hs" "hs \<noteq> []" "last hs = CurrentBlockHash b" "readable B cd dch hs blk" "blk (CurrentBlockHash b) = b"
  shows "\<exists>c'. GetOneValue B cd dch db k n c = return_run (Some tx, c')"
proof -
  obtain as bs where as: "lru_addrs DataID (listTx (lru3Query c)) as" and bs: "lru_addrs ix_dataID (listIndex (lru3Query c)) bs"
    using ok by (auto simp: cache_ok_def)
  have txb: "tx \<in> set (Transactions b)" "DataID tx = k"
    using filter_single [OF inb(1)] by simp_all
  have stored: "tio_getBlock B cd dch (CurrentBlockHash b) = Inr b"
    using log(2-5) by (auto simp: readable_def) (metis last_in_set)
  show ?thesis
  proof (cases "getInTX k (lru3Query c)")
    case (Some t)
    then have "t = tx" by (rule cached)
    moreover obtain p where "qmap (listTx (lru3Query c)) k = Some p" using Some by (auto simp: getInTX_def)
    then obtain q where "lruTx_toTail k (listTx (lru3Query c)) = Some q" using lruTx_toTail_some [OF as] by blast
    ultimately show ?thesis using Some by (simp add: GetOneValue_def read_tx_def)
  next
    case None
    then have ntx: "qmap (listTx (lru3Query c)) (DataID tx) = None" using txb(2) by (simp add: getInTX_def)
    show ?thesis
    proof (cases "qmap (listIndex (lru3Query c)) k")
      case (Some p)
      have "foldl (\<lambda>a x. if TxID x = TxID tx then x else a) zero_tx (Transactions b) = tx"
        using txb(1) inb(3) by (intro foldl_pick) (auto simp: distinct_map inj_on_def)
      then have gi: "getInIndex B cd dch k (lru3Query c) = Inr (Some tx)"
        using Some index [OF Some] stored by (auto simp: getInIndex_def tio_getBlock_def Let_def split: if_splits)
      obtain q1 gone q2 where q: "lruIndex_toTail k (listIndex (lru3Query c)) = Some q1" "checkDel k q1 = Some (gone, q2)"
        using lruIndex_toTail_some [OF bs Some] by blast
      obtain q3 where "lruTx_queueIn k tx (listTx (lru3Query c)) = Some q3"
        using lru_queueIn_some [OF as ntx] txb(2) by (auto simp: lruTx_queueIn_def)
      then have "\<exists>c'. read_index k tx c = Inr (Some tx, c')" using q by (simp add: read_index_def Let_def)
      then show ?thesis using None gi by (auto simp: GetOneValue_def)
    next
      case nix: None
      then have gi: "getInIndex B cd dch k (lru3Query c) = Inr None" by (simp add: getInIndex_def)
      have d: "dated k b = [tx]"
        using inb(2) arg_cong [OF inb(1), of "filter (\<lambda>t. 0 < TimeStamp t)"] by (simp add: dated_def conj_commute)
      obtain hs0 where hs: "hs = hs0 @ [CurrentBlockHash b]" using log(2,3) by (metis append_butlast_last_id)
      have "find (\<lambda>b. dated k b \<noteq> []) (map blk (rev hs)) = Some b" by (simp add: hs log(5) d)
      then have tc: "getInTableHashChain B cd dch db k n = Some (Inr (Some (tx, CurrentBlockHash b, TxID tx)))"
        using newest_value [OF log(1,4), of k] d by auto
      let ?ix = "\<lparr>ix_blockHash = CurrentBlockHash b, ix_txID = TxID tx, ix_count = 1, ix_dataID = k\<rparr>"
      obtain q where "lru_queueIn ix_dataID k ?ix (listIndex (lru3Query c)) = Some q"
        using lru_queueIn_some [OF bs, of ?ix] nix by auto
      then show ?thesis using None gi tc by (simp add: GetOneValue_def remember_def lruIndex_queueIn_def)
    qed
  qed
qed

text \<open>
  So once a block is on the chain, in the log of the table and in what is cached, its transactions are
  what is read, whatever was cached before.
\<close>

lemma block_value_read:
  assumes rep: "data_rep B cd dch (b # bs)" and log: "log_rep B db (Table tx) (log_append h (CurrentBlockHash b))"
    and h: "set h \<subseteq> CurrentBlockHash ` set bs" and c: "lru3Query c = updateDataCache b l" and ok: "cache_ok l"
    and tx: "filter (\<lambda>t. DataID t = k) (Transactions b) = [tx]" "0 < TimeStamp tx" "distinct (map TxID (Transactions b))"
  shows "\<exists>c'. GetOneValue B cd dch db k (Table tx) c = return_run (Some tx, c')"
proof -
  obtain as bs2 where as: "lru_addrs DataID (listTx l) as" and ix: "lru_addrs ix_dataID (listIndex l) bs2"
    using ok by (auto simp: cache_ok_def)
  let ?hs = "log_append h (CurrentBlockHash b)"
  have hs: "?hs \<noteq> []" "last ?hs = CurrentBlockHash b" "set ?hs \<subseteq> CurrentBlockHash ` set (b # bs)"
    using h by (auto simp: log_append_def)
  obtain blk where blk: "\<And>h. h \<in> CurrentBlockHash ` set (b # bs) \<Longrightarrow> blk h \<in> set (b # bs) \<and> CurrentBlockHash (blk h) = h"
    by (metis image_iff)
  have look: "tio_getBlock B cd dch (CurrentBlockHash x) = Inr x" if "x \<in> set (b # bs)" for x
    using data_store.lookup_mem [OF rep that] rep
    by (auto simp: tio_getBlock_def GetBlockByHash_def get_block_by_hash_def Deserialize_def data_rep_def chain_rep_def Let_def
        split: option.splits if_splits)
  have rd: "readable B cd dch ?hs blk"
    unfolding readable_def using hs(3) blk look by (metis subsetD)
  have bb: "blk (CurrentBlockHash b) = b"
    using blk [of "CurrentBlockHash b"] look [of b] look [of "blk (CurrentBlockHash b)"] by simp
  show ?thesis
  proof (rule read_pointed [where b = b and blk = blk, OF _ tx(1,2,3) _ _ log hs(1,2) rd bb])
    show "cache_ok (lru3Query c)" unfolding c by (rule updateDataCache_ok [OF ok])
    show "t = tx" if "getInTX k (lru3Query c) = Some t" for t
      using that cache_follows_block [of l k b] lru_addrs_inj [OF as] tx(1) unfolding c by (auto split: option.splits)
    show "ix_blockHash (dat (listIndex (lru3Query c)) p) = CurrentBlockHash b
        \<and> ix_txID (dat (listIndex (lru3Query c)) p) = TxID tx"
      if "qmap (listIndex (lru3Query c)) k = Some p" for p
      using that index_follows_block [of l b k p tx] lru_addrs_inj [OF ix] tx(1) unfolding c by simp
  qed
qed

lemma received_value_read:
  assumes rec: "received E b st st' bs xs M hs" and ok: "cache_ok (lru3Query (nd_cache st))"
    and tx: "filter (\<lambda>t. DataID t = k) (Transactions b) = [tx]" "0 < TimeStamp tx" "distinct (map TxID (Transactions b))"
    and tab: "Table tx \<in> M" "set (hs (Table tx)) \<subseteq> CurrentBlockHash ` set bs"
  shows "\<exists>c. GetOneValue (e_bolt E) (e_block E) (a_chain (nd_alg st')) (Db (nd_tables st')) k (Table tx) (nd_cache st')
    = return_run (Some tx, c)"
proof -
  note r = rec [unfolded received_def]
  have "tx \<in> set (Transactions b)" using filter_single [OF tx(1)] by simp
  then have i: "Table tx \<in> Table ` set (Transactions b)" by simp
  have "\<forall>m \<in> M. log_rep (e_bolt E) (Db (nd_tables st')) m
      (if m \<in> Table ` set (Transactions b) then log_append (hs m) (CurrentBlockHash b) else hs m)" using r by blast
  from bspec [OF this tab(1)]
  have log: "log_rep (e_bolt E) (Db (nd_tables st')) (Table tx) (log_append (hs (Table tx)) (CurrentBlockHash b))"
    unfolding if_P [OF i] .
  have "data_rep (e_bolt E) (e_block E) (a_chain (nd_alg st')) (stripped b # bs)"
    "lru3Query (nd_cache st') = updateDataCache (stripped b) (lru3Query (nd_cache st))" using r by simp_all
  from block_value_read [where tx = tx and k = k, OF this(1) _ _ this(2) ok] log tab(2) tx show ?thesis by simp
qed

section \<open>From a distributed block to all readers\<close>

lemma distributed_value_read:
  assumes "bq_rep q (b # bl)" and "distinct (map node_address nodes)"
    and "\<And>n. n \<in> set nodes \<Longrightarrow> \<not> is_me me n \<Longrightarrow> can_receive (sv_alg V) b (w (node_address n)) (bs n) (xs n) (M n) (hs n)"
    and "CheckDataBlock (e_hashes (sv_alg V)) (stripped b) = Inr ok"
    and tx: "filter (\<lambda>t. DataID t = Table tx @ ''-QAQ-'' @ Key tx) (Transactions b) = [tx]" "0 < TimeStamp tx"
      "distinct (map TxID (Transactions b))"
    and node: "\<And>n. n \<in> set nodes \<Longrightarrow> \<not> is_me me n \<Longrightarrow> cache_ok (lru3Query (nd_cache (w (node_address n))))
      \<and> set (hs n (Table tx)) \<subseteq> CurrentBlockHash ` set (bs n)"
  shows "\<exists>q' w'. DataBlockDistribute_round (sv_alg V) me nodes (q, w) = (None, q', w') \<and> bq_rep q' bl
    \<and> (\<forall>n \<in> set nodes. \<not> is_me me n \<longrightarrow> (\<forall>u UID p.
         level UID (Table tx) \<lparr>manage = u, sv_node = w (node_address n)\<rparr> = Some p \<longrightarrow> ''1'' \<le> p \<longrightarrow>
         (\<exists>s'. server_Get V UID (Key tx) (Table tx) \<lparr>manage = u, sv_node = w' (node_address n)\<rparr> = return_run (Value tx, s'))))"
proof -
  obtain q' w' where r: "DataBlockDistribute_round (sv_alg V) me nodes (q, w) = (None, q', w')" "bq_rep q' bl"
    "\<And>n. n \<in> set nodes \<Longrightarrow> \<not> is_me me n \<Longrightarrow>
       received (sv_alg V) b (w (node_address n)) (w' (node_address n)) (bs n) (xs n) (M n) (hs n)"
    using distribute_reaches_all [where w = w and bs = bs and xs = xs and M = M and hs = hs, OF assms(1-4)] by blast
  have "\<exists>s'. server_Get V UID (Key tx) (Table tx) \<lparr>manage = u, sv_node = w' (node_address n)\<rparr> = return_run (Value tx, s')"
    if n: "n \<in> set nodes" "\<not> is_me me n" and l: "level UID (Table tx) \<lparr>manage = u, sv_node = w (node_address n)\<rparr> = Some p" "''1'' \<le> p"
    for n u UID p
  proof -
    note rec = r(3) [OF n]
    have "Table tx \<in> M n" using assms(3) [OF n] filter_single [OF tx(1)] by (auto simp: can_receive_def)
    with received_value_read [OF rec _ tx] node [OF n]
    obtain c where c: "GetOneValue (e_bolt (sv_alg V)) (e_block (sv_alg V)) (a_chain (nd_alg (w' (node_address n))))
        (Db (nd_tables (w' (node_address n)))) (Table tx @ ''-QAQ-'' @ Key tx) (Table tx) (nd_cache (w' (node_address n)))
      = return_run (Some tx, c)" by blast
    have "level UID (Table tx) \<lparr>manage = u, sv_node = w' (node_address n)\<rparr> = Some p"
      using l(1) rec by (auto simp: level_def received_def split: option.splits)
    then show ?thesis using l(2) c by (auto simp: server_Get_def may_read_level Let_def)
  qed
  then show ?thesis using r(1,2) by blast
qed

text \<open>
  A value put into a block reaches every reader: one round of the distribution loop hands the block
  to all other nodes, and then at each of them \<open>Get\<close> returns the value of the item to any session that
  may read the table, whether the node had cached the item, an older value of it, its index entry or
  nothing. Needed: intact lists, table logs whose blocks are on the node's chain, and one transaction
  of the block about the item.
\<close>

theorem value_reaches_readers:
  assumes "bq_rep q (b # bl)" and "distinct (map node_address nodes)"
    and "\<And>n. n \<in> set nodes \<Longrightarrow> \<not> is_me me n \<Longrightarrow> can_receive (sv_alg V) b (w (node_address n)) (bs n) (xs n) (M n) (hs n)"
    and "CheckDataBlock (e_hashes (sv_alg V)) (stripped b) = Inr ok"
    and tx: "filter (\<lambda>t. DataID t = Table tx @ ''-QAQ-'' @ Key tx) (Transactions b) = [tx]" "0 < TimeStamp tx"
      "distinct (map TxID (Transactions b))"
    and node: "\<And>n. n \<in> set nodes \<Longrightarrow> \<not> is_me me n \<Longrightarrow> cache_ok (lru3Query (nd_cache (w (node_address n))))
      \<and> set (hs n (Table tx)) \<subseteq> CurrentBlockHash ` set (bs n)"
  shows "\<exists>q' w'. DataBlockDistribute_round (sv_alg V) me nodes (q, w) = (None, q', w') \<and> bq_rep q' bl
    \<and> (\<forall>n \<in> set nodes. \<not> is_me me n \<longrightarrow> (\<forall>u UID p.
         level UID (Table tx) \<lparr>manage = u, sv_node = w (node_address n)\<rparr> = Some p \<longrightarrow> ''1'' \<le> p \<longrightarrow>
         (\<exists>s'. server_Get V UID (Key tx) (Table tx) \<lparr>manage = u, sv_node = w' (node_address n)\<rparr> = return_run (Value tx, s'))))"
  using distributed_value_read [where w = w and bs = bs and xs = xs and M = M and hs = hs, OF assms] .

text \<open>A block with one value, and \<open>toy_node\<close> with a table whose values may be read.\<close>

definition value_tx :: transaction where
  "value_tx = (wit_tx ''tab'' ''k'' 7)\<lparr>Value := ''v''\<rparr>"

definition value_block :: block where
  "value_block = (toy_block 3 ''d'' ''c'')\<lparr>Transactions := [value_tx]\<rparr>"

definition value_env :: "mapdb server_env" where
  "value_env = toy_server_env\<lparr>sv_alg := toy_env\<lparr>e_block := toy_codec (value_block # tl toy_blocks)\<rparr>\<rparr>"

definition reader_node :: "mapdb node_state" where
  "reader_node = toy_node\<lparr>nd_cache := \<lparr>lru3Query = lru_init, tableInfo = [''tab'' \<mapsto> [''adr'' \<mapsto> ''1'']]\<rparr>\<rparr>"

lemma value_simps [simp]:
  "CurrentBlockHash value_block = ''d''" "PreviousBlockHash value_block = ''c''"
  "Transactions value_block = [value_tx]" "stripped value_block = value_block"
  "e_bolt (sv_alg value_env) = map_bolt" "e_hashes (sv_alg value_env) = toy_crypto"
  "e_block (sv_alg value_env) = toy_codec (value_block # tl toy_blocks)"
  "DataID value_tx = ''tab-QAQ-k''" "Table value_tx = ''tab''" "Key value_tx = ''k''" "Value value_tx = ''v''"
  by (simp_all add: value_block_def value_env_def value_tx_def wit_tx_def SetDataID_def stripped_def toy_block_def
      NewBlock_def toy_env_def)

lemma value_can_receive:
  "can_receive (sv_alg value_env) value_block reader_node (tl toy_blocks) [] {''tab''} (\<lambda>_. [''c''])"
proof -
  have "data_rep map_bolt (toy_codec (value_block # tl toy_blocks)) toy_chain (tl toy_blocks)"
    unfolding data_rep_def chain_rep_def by (simp add: map_bolt_laws toy_get toy_has toy_blocks_def genesis_mark_def)
  moreover have "data_ok map_bolt (toy_codec (value_block # tl toy_blocks)) toy_chain value_block"
    unfolding data_ok_def block_ok_def by (simp add: toy_get storable_def)
  ultimately show ?thesis
    using wit_rep by (simp add: can_receive_def reader_node_def toy_node_def toy_state_def pool_Init_def pool_rep_def
        pool_init_def tq_rep_init)
qed

lemma value_unchecked: "CheckDataBlock (e_hashes (sv_alg value_env)) (stripped value_block) = Inr False"
  by (simp add: CheckDataBlock_def genesis_parent_def VerifyTransaction_def Let_def restore_key_def toy_crypto_def
      value_tx_def wit_tx_def zero_tx_def SetDataID_def numeral_2_eq_2)

lemma value_level: "level ''u-QAQ-p'' (Table value_tx) \<lparr>manage = manage (toy_server Map.empty), sv_node = reader_node\<rparr> = Some ''1''"
  by (simp add: level_def toy_server_def toy_account_def reader_node_def)

theorem value_reaches_readers_witness:
  "\<exists>q' w' s'. DataBlockDistribute_round (sv_alg value_env) (''a'', 3301) two_nodes
      (Put value_block (bq_Init NewBlock), \<lambda>_. reader_node) = (None, q', w')
    \<and> server_Get value_env ''u-QAQ-p'' ''k'' ''tab'' \<lparr>manage = manage (toy_server Map.empty), sv_node = w' (''b'', 3301)\<rparr>
      = return_run (''v'', s')"
proof -
  let ?u = "manage (toy_server Map.empty)"
  have d: "distinct (map node_address two_nodes)" by (simp add: two_nodes_def node_address_def)
  have q: "bq_rep (Put value_block (bq_Init NewBlock)) [value_block]"
    using block_queue.rep_put [OF bq_rep_Init, of value_block NewBlock] by simp
  have t: "filter (\<lambda>t. DataID t = Table value_tx @ ''-QAQ-'' @ Key value_tx) (Transactions value_block) = [value_tx]"
    "0 < TimeStamp value_tx" "distinct (map TxID (Transactions value_block))"
    by (simp_all, simp add: value_tx_def wit_tx_def SetDataID_def)
  have node: "cache_ok (lru3Query (nd_cache reader_node)) \<and> set [''c''] \<subseteq> CurrentBlockHash ` set (tl toy_blocks)"
    using cache_ok_init by (simp add: reader_node_def toy_blocks_def toy_block_def NewBlock_def)
  have n: "two_nodes ! 1 \<in> set two_nodes" "\<not> is_me (''a'', 3301) (two_nodes ! 1)" "node_address (two_nodes ! 1) = (''b'', 3301)"
    by (simp_all add: two_nodes_def is_me_def node_address_def)
  obtain q' w' where r: "DataBlockDistribute_round (sv_alg value_env) (''a'', 3301) two_nodes
      (Put value_block (bq_Init NewBlock), \<lambda>_. reader_node) = (None, q', w')"
    "\<forall>n \<in> set two_nodes. \<not> is_me (''a'', 3301) n \<longrightarrow> (\<forall>u UID p.
      level UID (Table value_tx) \<lparr>manage = u, sv_node = reader_node\<rparr> = Some p \<longrightarrow> ''1'' \<le> p \<longrightarrow>
      (\<exists>s'. server_Get value_env UID (Key value_tx) (Table value_tx) \<lparr>manage = u, sv_node = w' (node_address n)\<rparr>
        = return_run (Value value_tx, s')))"
    using value_reaches_readers [where w = "\<lambda>_. reader_node" and me = "(''a'', 3301)" and bs = "\<lambda>_. tl toy_blocks"
        and xs = "\<lambda>_. []" and M = "\<lambda>_. {''tab''}" and hs = "\<lambda>_ _. [''c'']", OF q d value_can_receive value_unchecked t node]
    by blast
  from r(2) [rule_format, OF n(1,2) value_level] show ?thesis using r(1) n(3) by auto
qed

end
