(* ===== verification/Distribution.thy ===== *)
theory Distribution
  imports Grpc_Client
begin

text \<open>
  The distribution loops \<open>DataBlockDistribute\<close> and \<open>TableBlockDistribute\<close> of \<open>GRPC/util.go\<close>, pass by pass, and
  what they make of all blocks that wait in a hand-over queue.
\<close>

section \<open>The loops\<close>

text \<open>A list element is one pass with the members that the cluster has then; the loops never end by themselves.\<close>

fun DataBlockDistribute :: "'db alg_env \<Rightarrow> address \<Rightarrow> node list list \<Rightarrow>
    block bqueue \<times> (address \<Rightarrow> 'db node_state) \<Rightarrow> panic option \<times> block bqueue \<times> (address \<Rightarrow> 'db node_state)" where
  "DataBlockDistribute E me [] s = (None, s)"
| "DataBlockDistribute E me (nodes # passes) s =
     (case DataBlockDistribute_round E me nodes s of
        (Some p, s') \<Rightarrow> (Some p, s')
      | (None, s') \<Rightarrow> DataBlockDistribute E me passes s')"

fun TableBlockDistribute :: "'db alg_env \<Rightarrow> table_block codec \<Rightarrow> address \<Rightarrow> node list list \<Rightarrow>
    table_block bqueue \<times> (address \<Rightarrow> 'db node_state) \<Rightarrow>
    panic option \<times> table_block bqueue \<times> (address \<Rightarrow> 'db node_state)" where
  "TableBlockDistribute E tcd me [] s = (None, s)"
| "TableBlockDistribute E tcd me (nodes # passes) s =
     (case TableBlockDistribute_round E tcd me nodes s of
        (Some p, s') \<Rightarrow> (Some p, s')
      | (None, s') \<Rightarrow> TableBlockDistribute E tcd me passes s')"

lemma DataBlockDistribute_append:
  "DataBlockDistribute E me (xs @ ys) s =
     (case DataBlockDistribute E me xs s of (Some p, s') \<Rightarrow> (Some p, s') | (None, s') \<Rightarrow> DataBlockDistribute E me ys s')"
  by (induction xs arbitrary: s) (auto split: prod.splits option.splits)

section \<open>A node that takes a list of blocks\<close>

text \<open>What a node needs for a list of blocks that arrive one after the other, oldest first.\<close>

definition takes :: "'db alg_env \<Rightarrow> block list \<Rightarrow> 'db node_state \<Rightarrow> block list \<Rightarrow> transaction list \<Rightarrow>
    string set \<Rightarrow> (string \<Rightarrow> bytes list) \<Rightarrow> bool" where
  "takes E ns st bs xs M hs \<longleftrightarrow>
     data_rep (e_bolt E) (e_block E) (a_chain (nd_alg st)) bs
     \<and> linked_up CurrentBlockHash PreviousBlockHash (TailHash (a_chain (nd_alg st))) ns \<and> distinct (map CurrentBlockHash ns)
     \<and> (\<forall>n \<in> set ns. can_store E (a_chain (nd_alg st)) (stripped n) \<and> Table ` set (Transactions n) \<subseteq> M)
     \<and> pool_rep TxID (txPoolData (nd_pool st)) xs
     \<and> (nd_SubUser st \<le> 0 \<longrightarrow> distinct (map TxID (concat (map Transactions ns)))
          \<and> TxID ` set (concat (map Transactions ns)) \<subseteq> TxID ` set xs)
     \<and> (\<forall>m \<in> M. log_rep (e_bolt E) (Db (nd_tables st)) m (hs m) \<and> length (hs m) + length ns < 2 ^ 64 - 1)"

definition log_block :: "block \<Rightarrow> (string \<Rightarrow> bytes list) \<Rightarrow> string \<Rightarrow> bytes list" where
  "log_block b hs m = (if m \<in> Table ` set (Transactions b) then log_append (hs m) (CurrentBlockHash b) else hs m)"

definition left_over :: "'db node_state \<Rightarrow> block \<Rightarrow> transaction list \<Rightarrow> transaction list" where
  "left_over st b xs = (if nd_SubUser st \<le> 0 then filter (\<lambda>x. TxID x \<notin> TxID ` set (Transactions b)) xs else xs)"

lemma takes_can_receive: "takes E (n # ns) st bs xs M hs \<Longrightarrow> can_receive E n st bs xs M hs"
  by (auto simp: takes_def can_receive_def can_store_def data_ok_def block_ok_def)

text \<open>The chain of the new state is the one that \<open>AddBlockToChain\<close> returns.\<close>

lemma DistributeDataBlock_chain:
  assumes "DistributeDataBlock E (BlockToGrpcDataBlock b) st = Inr (info, st')"
  shows "AddBlockToChain (e_bolt E) (e_block E) (stripped b) (a_chain (nd_alg st)) = Inr (a_chain (nd_alg st'))"
    and "nd_SubUser st' = nd_SubUser st"
  using assms by (auto simp: DistributeDataBlock_def Let_def bind_go_Inr_iff split: prod.splits)

lemma takes_step:
  assumes "takes E (n # ns) st bs xs M hs" and "CheckDataBlock (e_hashes E) (stripped n) = Inr ok"
  shows "\<exists>info st'. DistributeDataBlock E (BlockToGrpcDataBlock n) st = Inr (info, st')
    \<and> takes E ns st' (stripped n # bs) (left_over st n xs) M (log_block n hs)"
proof -
  note t = assms(1) [unfolded takes_def]
  obtain info st' where st': "DistributeDataBlock E (BlockToGrpcDataBlock n) st = Inr (info, st')"
    "received E n st st' bs xs M hs"
    using DistributeDataBlock_received [OF takes_can_receive [OF assms(1)] assms(2)] by blast
  note r = st'(2) [unfolded received_def]
  note ch = DistributeDataBlock_chain [OF st'(1)]
  have laws: "bolt_laws (e_bolt E)" using t by (simp add: data_rep_def chain_rep_def)
  note oth = add_block_other [OF ch(1) [unfolded AddBlockToChain_def] laws]
  have store: "can_store E (a_chain (nd_alg st')) (stripped k)" if k: "k \<in> set ns" for k
  proof -
    have "can_store E (a_chain (nd_alg st)) (stripped k)" using t k by simp
    moreover have "CurrentBlockHash n \<notin> CurrentBlockHash ` set ns" using t by simp
    then have "CurrentBlockHash k \<noteq> CurrentBlockHash n" using k by (metis imageI)
    ultimately show ?thesis using oth(1,2) oth(5) [of "CurrentBlockHash k"] by (simp add: can_store_def)
  qed
  have pool: "TxID ` set (concat (map Transactions ns)) \<subseteq> TxID ` set (left_over st n xs)" if "nd_SubUser st \<le> 0"
  proof -
    have "TxID ` set (Transactions n) \<inter> TxID ` set (concat (map Transactions ns)) = {}"
      "TxID ` set (concat (map Transactions ns)) \<subseteq> TxID ` set xs"
      using t that by (simp_all add: image_Un)
    then have "TxID ` set (concat (map Transactions ns)) \<subseteq> TxID ` set xs - TxID ` set (Transactions n)" by blast
    also have "\<dots> \<subseteq> TxID ` set (filter (\<lambda>x. TxID x \<notin> TxID ` set (Transactions n)) xs)" by auto
    finally show ?thesis using that by (simp add: left_over_def)
  qed
  have logs: "length (log_block n hs m) + length ns < 2 ^ 64 - 1" if "m \<in> M" for m
  proof -
    have "length (hs m) + length (n # ns) < 2 ^ 64 - 1" using t that by blast
    then show ?thesis using length_log_append [of "hs m" "CurrentBlockHash n"] by (simp add: log_block_def)
  qed
  have "takes E ns st' (stripped n # bs) (left_over st n xs) M (log_block n hs)"
    unfolding takes_def
    using t r store pool logs oth(3) by (simp add: ch(2) left_over_def log_block_def)
  with st'(1) show ?thesis by blast
qed

section \<open>Draining the queue\<close>

text \<open>What is left of a node's requirements when all blocks have arrived.\<close>

definition has_taken :: "'db alg_env \<Rightarrow> block list \<Rightarrow> 'db node_state \<Rightarrow> block list \<Rightarrow> string set \<Rightarrow>
    (string \<Rightarrow> bytes list) \<Rightarrow> bool" where
  "has_taken E ns st bs M hs \<longleftrightarrow>
     data_rep (e_bolt E) (e_block E) (a_chain (nd_alg st)) (rev (map stripped ns) @ bs)
     \<and> (\<forall>m \<in> M. log_rep (e_bolt E) (Db (nd_tables st)) m (logs_after ns hs m))"

lemma logs_after_log_block: "logs_after (b # ns) hs = logs_after ns (log_block b hs)"
  unfolding logs_after_Cons log_block_def ..

lemma distribute_all:
  assumes "bq_rep q bl" and "distinct (map node_address nodes)"
    and "\<And>n. n \<in> set nodes \<Longrightarrow> \<not> is_me me n \<Longrightarrow> takes E bl (w (node_address n)) (bs n) (xs n) (M n) (hs n)"
    and "\<And>b. b \<in> set bl \<Longrightarrow> \<exists>ok. CheckDataBlock (e_hashes E) (stripped b) = Inr ok"
  shows "\<exists>q' w'. DataBlockDistribute E me (replicate (length bl) nodes) (q, w) = (None, q', w') \<and> bq_rep q' []
    \<and> (\<forall>n \<in> set nodes. \<not> is_me me n \<longrightarrow> has_taken E bl (w' (node_address n)) (bs n) (M n) (hs n))
    \<and> (\<forall>a. a \<notin> node_address ` {n \<in> set nodes. \<not> is_me me n} \<longrightarrow> w' a = w a)"
  using assms(1,3,4)
proof (induction bl arbitrary: q w bs xs hs)
  case Nil
  then show ?case by (auto simp: takes_def has_taken_def logs_after_def)
next
  case (Cons b bl)
  obtain ok where ok: "CheckDataBlock (e_hashes E) (stripped b) = Inr ok" using Cons.prems(3) by auto
  have step: "\<exists>info s. DistributeDataBlock E (BlockToGrpcDataBlock b) (w (node_address n)) = Inr (info, s)
      \<and> takes E bl s (stripped b # bs n) (left_over (w (node_address n)) b (xs n)) (M n) (log_block b (hs n))"
    if "n \<in> set nodes" "\<not> is_me me n" for n
    using takes_step [OF Cons.prems(2) [OF that] ok] .
  obtain q1 w1 where 1: "DataBlockDistribute_round E me nodes (q, w) = (None, q1, w1)" "bq_rep q1 bl"
    "\<forall>n \<in> set nodes. \<not> is_me me n \<longrightarrow>
       takes E bl (w1 (node_address n)) (stripped b # bs n) (left_over (w (node_address n)) b (xs n)) (M n) (log_block b (hs n))"
    "\<forall>a. a \<notin> node_address ` {n \<in> set nodes. \<not> is_me me n} \<longrightarrow> w1 a = w a"
    using distribute_step [OF Cons.prems(1) assms(2), of me E w, OF step] by blast
  obtain q' w' where 2: "DataBlockDistribute E me (replicate (length bl) nodes) (q1, w1) = (None, q', w')" "bq_rep q' []"
    "\<forall>n \<in> set nodes. \<not> is_me me n \<longrightarrow> has_taken E bl (w' (node_address n)) (stripped b # bs n) (M n) (log_block b (hs n))"
    "\<forall>a. a \<notin> node_address ` {n \<in> set nodes. \<not> is_me me n} \<longrightarrow> w' a = w1 a"
    using Cons.IH [where w = w1 and bs = "\<lambda>n. stripped b # bs n" and xs = "\<lambda>n. left_over (w (node_address n)) b (xs n)"
        and hs = "\<lambda>n. log_block b (hs n)", OF 1(2)] 1(3) Cons.prems(3) by auto
  have "DataBlockDistribute E me (replicate (length (b # bl)) nodes) (q, w) = (None, q', w')" using 1(1) 2(1) by simp
  moreover have "has_taken E (b # bl) (w' (node_address n)) (bs n) (M n) (hs n)"
    if "n \<in> set nodes" "\<not> is_me me n" for n
    using 2(3) that by (simp add: has_taken_def logs_after_log_block)
  ultimately show ?case using 1(4) 2(2,4) by auto
qed


text \<open>Two waiting blocks and a node that has only the genesis block, for the witness.\<close>

definition waiting_block :: "uint64 \<Rightarrow> bytes \<Rightarrow> bytes \<Rightarrow> block" where
  "waiting_block r h p = (toy_block r h p)\<lparr>Transactions := [wit_tx ''tab'' ''k'' 7]\<rparr>"

definition waiting_env :: "mapdb alg_env" where
  "waiting_env = toy_env\<lparr>e_block := toy_codec
     [waiting_block 1 ''b'' ''a'', waiting_block 2 ''c'' ''b'', toy_block 0 ''a'' genesis_mark]\<rparr>"

lemma waiting_simps [simp]:
  "CurrentBlockHash (waiting_block r h p) = h" "PreviousBlockHash (waiting_block r h p) = p"
  "Transactions (waiting_block r h p) = [wit_tx ''tab'' ''k'' 7]" "stripped (waiting_block r h p) = waiting_block r h p"
  "e_bolt waiting_env = map_bolt" "e_hashes waiting_env = toy_crypto"
  "e_block waiting_env = toy_codec [waiting_block 1 ''b'' ''a'', waiting_block 2 ''c'' ''b'', toy_block 0 ''a'' genesis_mark]"
  "Table (wit_tx t k ts) = t"
  by (simp_all add: waiting_block_def stripped_def toy_block_def NewBlock_def waiting_env_def toy_env_def wit_tx_def SetDataID_def)

lemma waiting_taken: "takes waiting_env [waiting_block 1 ''b'' ''a'', waiting_block 2 ''c'' ''b''] late_node
    [toy_block 0 ''a'' genesis_mark] [] {''tab''} (\<lambda>_. [''c''])"
  unfolding takes_def
proof (intro conjI ballI)
  show "data_rep (e_bolt waiting_env) (e_block waiting_env) (a_chain (nd_alg late_node)) [toy_block 0 ''a'' genesis_mark]"
    unfolding data_rep_def chain_rep_def
    by (simp add: late_node_def late_chain_simps map_bolt_laws genesis_mark_def toy_block_def)
  show "can_store waiting_env (a_chain (nd_alg late_node)) (stripped x)" "Table ` set (Transactions x) \<subseteq> {''tab''}"
    if "x \<in> set [waiting_block 1 ''b'' ''a'', waiting_block 2 ''c'' ''b'']" for x
    using that by (auto simp: late_node_def can_store_def late_chain_simps storable_def)
  show "log_rep (e_bolt waiting_env) (Db (nd_tables late_node)) m [''c'']" if "m \<in> {''tab''}" for m
    using that wit_rep by (simp add: late_node_def toy_node_def)
qed (simp_all add: late_node_def late_chain_simps toy_node_def pool_Init_def pool_rep_def pool_init_def tq_rep_init)


end
