(* ===== verification/Broken_Chain.thy ===== *)
theory Broken_Chain
  imports Grpc_Client
begin

text \<open>
  What \<open>DistributeDataBlock\<close> of \<open>GRPC/service.go\<close> makes of a block that does not continue the
  chain: neither \<open>CheckDataBlock\<close> nor \<open>AddBlockToChain\<close> compares its parent hash with the hash of
  the last block, so the block becomes the tail and the iterator cannot get past it.
\<close>

section \<open>Appending without a look at the parent\<close>

lemma add_block_anyway:
  assumes "bolt_laws B" and "has_bucket B (Db ch) (BlockBucket ch)"
    and "storable (hsh b) (enc b)" and "storable (LastHashKey ch) (hsh b)" and "hsh b \<noteq> LastHashKey ch"
  obtains ch' where "add_block B enc hsh b ch = Inr ch'"
    and "bolt_get B (Db ch') (BlockBucket ch) (hsh b) = enc b"
proof -
  let ?bk = "BlockBucket ch"
  obtain db1 where db1: "bolt_put B (Db ch) ?bk (hsh b) (enc b) = Some db1"
    "has_bucket B db1 = has_bucket B (Db ch)"
    "bolt_get B db1 = (bolt_get B (Db ch))(?bk := (bolt_get B (Db ch) ?bk)(hsh b := enc b))"
    using bolt_put [OF assms(1,2,3)] .
  have "has_bucket B db1 ?bk" using db1(2) assms(2) by simp
  then obtain db2 where db2: "bolt_put B db1 ?bk (LastHashKey ch) (hsh b) = Some db2"
    "bolt_get B db2 = (bolt_get B db1)(?bk := (bolt_get B db1 ?bk)(LastHashKey ch := hsh b))"
    using bolt_put [OF assms(1) _ assms(4)] by metis
  show thesis
    by (rule that [of "ch\<lparr>Db := db2, TailHash := hsh b\<rparr>"])
       (use assms(2,5) db1 db2 in \<open>simp_all add: add_block_def put_block_def\<close>)
qed

text \<open>A parent that is stored nowhere.\<close>

definition no_parent :: "'db alg_env \<Rightarrow> 'db data_chain \<Rightarrow> block \<Rightarrow> bool" where
  "no_parent E ch b \<longleftrightarrow> PreviousBlockHash b \<noteq> CurrentBlockHash b \<and> PreviousBlockHash b \<noteq> LastHashKey ch
     \<and> bolt_get (e_bolt E) (Db ch) (BlockBucket ch) (PreviousBlockHash b) = [] \<and> decode (e_block E) [] = None"

lemma orphan_appended:
  assumes rep: "data_rep (e_bolt E) (e_block E) ch bs" and cs: "can_store E ch b" and np: "no_parent E ch b"
  shows "\<exists>ch'. AddBlockToChain (e_bolt E) (e_block E) b ch = Inr ch' \<and> TailHash ch' = CurrentBlockHash b
    \<and> BlockBucket ch' = BlockBucket ch \<and> has_bucket (e_bolt E) (Db ch') (BlockBucket ch)
    \<and> decode (e_block E) (bolt_get (e_bolt E) (Db ch') (BlockBucket ch) (CurrentBlockHash b)) = Some b
    \<and> decode (e_block E) (bolt_get (e_bolt E) (Db ch') (BlockBucket ch) (PreviousBlockHash b)) = None
    \<and> (\<forall>x \<in> set bs. GetBlockByHash (e_bolt E) (e_block E) ch' (CurrentBlockHash x) = Inr x)"
proof -
  let ?B = "e_bolt E" and ?cd = "e_block E"
  note r = rep [unfolded data_rep_def chain_rep_def]
  note c = cs [unfolded can_store_def]
  have laws: "bolt_laws ?B" and has: "has_bucket ?B (Db ch) (BlockBucket ch)" using r by blast+
  obtain ch' where a: "add_block ?B (encode ?cd) CurrentBlockHash b ch = Inr ch'"
    "bolt_get ?B (Db ch') (BlockBucket ch) (CurrentBlockHash b) = encode ?cd b"
    using add_block_anyway [OF laws has, of CurrentBlockHash b "encode ?cd"] c by blast
  note oth = add_block_other [OF a(1) laws]
  have old: "GetBlockByHash ?B ?cd ch' (CurrentBlockHash x) = Inr x" if x: "x \<in> set bs" for x
  proof -
    have g: "GetBlockByHash ?B ?cd ch (CurrentBlockHash x) = Inr x" using data_store.lookup_mem [OF rep x] .
    have st: "stored ?B (decode ?cd) CurrentBlockHash PreviousBlockHash (Db ch) (BlockBucket ch) (TailHash ch) bs"
      using r by blast
    have "CurrentBlockHash x \<noteq> CurrentBlockHash b" using stored_mem [OF st x] c by auto
    moreover have "CurrentBlockHash x \<noteq> LastHashKey ch" using r x by force
    ultimately have "bolt_get ?B (Db ch') (BlockBucket ch) (CurrentBlockHash x)
        = bolt_get ?B (Db ch) (BlockBucket ch) (CurrentBlockHash x)" using oth(5) by blast
    then show ?thesis using g has oth(1,4) by (simp add: GetBlockByHash_def get_block_by_hash_def)
  qed
  have "bolt_get ?B (Db ch') (BlockBucket ch) (PreviousBlockHash b) = []"
    using oth(5) [of "PreviousBlockHash b"] np by (simp add: no_parent_def)
  then have "decode ?cd (bolt_get ?B (Db ch') (BlockBucket ch) (PreviousBlockHash b)) = None"
    using np by (simp add: no_parent_def)
  moreover have "decode ?cd (bolt_get ?B (Db ch') (BlockBucket ch) (CurrentBlockHash b)) = Some b" using a(2) c by simp
  moreover have "has_bucket ?B (Db ch') (BlockBucket ch)" using oth(4) has by simp
  moreover have "AddBlockToChain ?B ?cd b ch = Inr ch'" using a(1) by (simp add: AddBlockToChain_def)
  ultimately show ?thesis using oth(1,3) old by blast
qed

text \<open>Walking back from a tail without a parent, the loop ends at once or panics at its second step.\<close>

lemma sync_loop_orphan:
  assumes "has_bucket B db bk" and "dec (bolt_get B db bk t) = Some b"
    and "dec (bolt_get B db bk (prv b)) = None" and "hsh b \<noteq> h"
  shows "sync_loop (iterator_next B dec prv db) hsh conv h \<lparr>it_BlockBucket = bk, CurrentHash = t\<rparr> out
    = Some (Inl LogPanic)"
proof -
  have 1: "iterator_next B dec prv db \<lparr>it_BlockBucket = bk, CurrentHash = t\<rparr>
      = Inr (b, \<lparr>it_BlockBucket = bk, CurrentHash = prv b\<rparr>)" using assms(1,2) by (simp add: iterator_next_def)
  have 2: "iterator_next B dec prv db \<lparr>it_BlockBucket = bk, CurrentHash = prv b\<rparr> = Inl LogPanic"
    using assms(1,3) by (simp add: iterator_next_def)
  show ?thesis using assms(4) by (subst sync_loop.simps) (simp add: 1, subst sync_loop.simps, simp add: 2)
qed

text \<open>
  C23. A block whose parent the receiver does not have is appended like any other, whatever the
  check says of it: it becomes the tail, the blocks before it are still found by their hashes, but
  they are cut off from it. From then on the node panics when another one asks it for the blocks
  above any block but this one. (A block that names the genesis marker as its parent is not even
  checked: it is reported as verified, and the witness receives one with an unsigned transaction.)
\<close>

theorem orphan_block_cuts_chain:
  assumes "data_rep (e_bolt E) (e_block E) (a_chain (nd_alg st)) bs"
    and "can_store E (a_chain (nd_alg st)) (stripped b)" and "no_parent E (a_chain (nd_alg st)) (stripped b)"
    and "pool_rep TxID (txPoolData (nd_pool st)) xs"
    and "nd_SubUser st \<le> 0 \<longrightarrow> distinct (map TxID (Transactions b)) \<and> TxID ` set (Transactions b) \<subseteq> TxID ` set xs"
    and "\<forall>m \<in> M. log_rep (e_bolt E) (Db (nd_tables st)) m (hs m) \<and> Suc (length (hs m)) < 2 ^ 64 - 1"
    and "Table ` set (Transactions b) \<subseteq> M" and "CheckDataBlock (e_hashes E) (stripped b) = Inr ok"
  shows "\<exists>st'. DistributeDataBlock E (BlockToGrpcDataBlock b) st
      = Inr (if ok then \<lparr>Info = BlockVerified, Status = True\<rparr> else \<lparr>Info = BlockRejected, Status = False\<rparr>, st')
    \<and> TailHash (a_chain (nd_alg st')) = CurrentBlockHash b
    \<and> (\<forall>x \<in> set bs. GetBlockByHash (e_bolt E) (e_block E) (a_chain (nd_alg st')) (CurrentBlockHash x) = Inr x)
    \<and> (\<forall>h. h \<noteq> CurrentBlockHash b \<longrightarrow> serve_DataBlocks E h st' = panic_run LogPanic)"
proof -
  let ?B = "e_bolt E" and ?cd = "e_block E"
  obtain ch where ch: "AddBlockToChain ?B ?cd (stripped b) (a_chain (nd_alg st)) = Inr ch"
    "TailHash ch = CurrentBlockHash b" "BlockBucket ch = BlockBucket (a_chain (nd_alg st))"
    "has_bucket ?B (Db ch) (BlockBucket ch)"
    "decode ?cd (bolt_get ?B (Db ch) (BlockBucket ch) (CurrentBlockHash b)) = Some (stripped b)"
    "decode ?cd (bolt_get ?B (Db ch) (BlockBucket ch) (PreviousBlockHash (stripped b))) = None"
    "\<forall>x \<in> set bs. GetBlockByHash ?B ?cd ch (CurrentBlockHash x) = Inr x"
    using orphan_appended [OF assms(1-3)] unfolding stripped_fields by metis
  have n: "CurrentBlockHash b \<noteq> ''root''" "length (CurrentBlockHash b) \<le> 2147483646"
    using assms(2) unfolding can_store_def stripped_fields by blast+
  obtain st' where st': "DistributeDataBlock E (BlockToGrpcDataBlock b) st
      = Inr (if ok then \<lparr>Info = BlockVerified, Status = True\<rparr> else \<lparr>Info = BlockRejected, Status = False\<rparr>, st')"
    "a_chain (nd_alg st') = ch"
    using DistributeDataBlock_runs [OF ch(1) assms(4-7) n assms(8)] by blast
  have "serve_DataBlocks E h st' = panic_run LogPanic" if "h \<noteq> CurrentBlockHash b" for h
    using sync_loop_orphan [where prv = PreviousBlockHash and hsh = CurrentBlockHash and h = h
        and conv = BlockToGrpcDataBlock and out = "[]", OF ch(4-6)] that st'(2) ch(2)
    by (simp add: serve_DataBlocks_def Next_def CreateIterator_def create_iterator_def Let_def)
  then show ?thesis using st' ch(2,7) by blast
qed

text \<open>A forged block that claims to follow the genesis marker.\<close>

definition forged_block :: block where
  "forged_block = (toy_block 9 ''x'' genesis_mark)\<lparr>Transactions := [wit_tx ''tab'' ''k'' 7]\<rparr>"

definition forged_env :: "mapdb alg_env" where
  "forged_env = toy_env\<lparr>e_block := toy_codec (forged_block # tl toy_blocks)\<rparr>"

lemma forged_simps [simp]:
  "CurrentBlockHash forged_block = ''x''" "PreviousBlockHash forged_block = genesis_mark"
  "Transactions forged_block = [wit_tx ''tab'' ''k'' 7]" "stripped forged_block = forged_block"
  "e_bolt forged_env = map_bolt" "e_hashes forged_env = toy_crypto"
  "e_block forged_env = toy_codec (forged_block # tl toy_blocks)"
  by (simp_all add: forged_block_def stripped_def toy_block_def NewBlock_def forged_env_def toy_env_def)

theorem orphan_block_cuts_chain_witness:
  "\<exists>st'. DistributeDataBlock forged_env (BlockToGrpcDataBlock forged_block) toy_node
      = Inr (\<lparr>Info = BlockVerified, Status = True\<rparr>, st')
    \<and> TailHash (a_chain (nd_alg st')) = ''x'' \<and> serve_DataBlocks forged_env ''c'' st' = panic_run LogPanic"
proof -
  have ch: "a_chain (nd_alg toy_node) = toy_chain" by (simp add: toy_node_def toy_state_def)
  have rep: "data_rep (e_bolt forged_env) (e_block forged_env) (a_chain (nd_alg toy_node)) (tl toy_blocks)"
    unfolding ch data_rep_def chain_rep_def
    by (simp add: map_bolt_laws toy_get toy_has toy_blocks_def genesis_mark_def)
  have cs: "can_store forged_env (a_chain (nd_alg toy_node)) (stripped forged_block)"
    unfolding ch can_store_def by (simp add: toy_get storable_def)
  have np: "no_parent forged_env (a_chain (nd_alg toy_node)) (stripped forged_block)"
    unfolding ch no_parent_def by (simp add: toy_get genesis_mark_def toy_blocks_def)
  have pool: "pool_rep TxID (txPoolData (nd_pool toy_node)) []"
    by (simp add: toy_node_def pool_Init_def pool_rep_def pool_init_def tq_rep_init)
  have sub: "nd_SubUser toy_node \<le> 0 \<longrightarrow> distinct (map TxID (Transactions forged_block))
      \<and> TxID ` set (Transactions forged_block) \<subseteq> TxID ` set []" by (simp add: toy_node_def)
  have logs: "\<forall>m \<in> {''tab''}. log_rep (e_bolt forged_env) (Db (nd_tables toy_node)) m [''c''] \<and> Suc (length [''c'']) < 2 ^ 64 - 1"
    using wit_rep by (simp add: toy_node_def)
  have tabs: "Table ` set (Transactions forged_block) \<subseteq> {''tab''}" by (simp add: wit_tx_def SetDataID_def)
  have ok: "CheckDataBlock (e_hashes forged_env) (stripped forged_block) = Inr True"
    by (simp add: CheckDataBlock_def genesis_parent_def genesis_mark_def)
  from orphan_block_cuts_chain [where hs = "\<lambda>_. [''c'']", OF rep cs np pool sub logs tabs ok] show ?thesis by auto
qed

end
