(* ===== verification/Whole_Round.thy ===== *)
theory Whole_Round
  imports Keeper Reading Distribution
begin

text \<open>
  From a waiting transaction to all readers: a round that a node wins, one pass of its distribution loop,
  and what is read afterwards at the node itself and at all others.
\<close>



end
