(* ===== verification/Agreement_Safety.thy ===== *)
theory Agreement_Safety
  imports Agreement
begin

text \<open>
  When the agreements of two nodes agree: the intersection of the voters behind two counted hashes, and
  what the thresholds of the program make of it.
\<close>

section \<open>Weighted quorums\<close>

text \<open>
  Two sets of keys that each weigh at least \<open>q\<close> share a key outside \<open>D\<close>, if all keys together, those in
  \<open>D\<close> twice, weigh less than \<open>2 * q\<close>.
\<close>

lemma weighted_quorums:
  fixes m :: "'k \<Rightarrow> int"
  assumes "finite K" and "A \<subseteq> K" and "B \<subseteq> K" and "\<And>k. k \<in> K \<Longrightarrow> 0 \<le> m k" and "D \<subseteq> K"
    and "q \<le> sum m A" and "q \<le> sum m B" and "sum m K + sum m D < 2 * q"
  shows "\<exists>k. k \<in> A \<and> k \<in> B \<and> k \<notin> D"
proof (rule ccontr)
  assume "\<nexists>k. k \<in> A \<and> k \<in> B \<and> k \<notin> D"
  then have i: "A \<inter> B \<subseteq> D" by blast
  have fin: "finite A" "finite B" "finite D" using assms(1-3,5) finite_subset by blast+
  have "sum m A + sum m B = sum m (A \<union> B) + sum m (A \<inter> B)" using sum.union_inter [OF fin(1,2)] by metis
  also have "\<dots> \<le> sum m K + sum m D"
    using assms i fin by (intro add_mono sum_mono2) auto
  finally show False using assms(6-8) by simp
qed

text \<open>The votes for a step that a node could count, each worth at most \<open>m\<close> of its key at any draw.\<close>

definition countable :: "'db alg_env \<Rightarrow> uint64 \<Rightarrow> int \<Rightarrow> 'db alg_state \<Rightarrow> vote_message set" where
  "countable E rnd step s = {v \<in> set (filed rnd step s). valid_vote E s v}"

definition weigh_at_most :: "'db alg_env \<Rightarrow> int \<Rightarrow> (bytes \<Rightarrow> int) \<Rightarrow> bytes set \<Rightarrow> vote_message set \<Rightarrow> bool" where
  "weigh_at_most E n m K V \<longleftrightarrow> (\<forall>v \<in> V. voter v \<in> K \<and> (\<forall>k. vote_weight E n v k \<le> m (voter v)))"

lemma counted_keys:
  assumes "countVotes E rnd step th n s = return_run ((h, timeout), s')" and "h \<noteq> []" and "sleep E s = return_run s1"
    and "weigh_at_most E n m K (countable E rnd step s1)"
  shows "\<exists>W \<subseteq> countable E rnd step s1. (\<forall>v \<in> W. take 4 (v_Hash v) = take 4 h) \<and> quorum th n \<le> sum m (voter ` W)"
proof -
  obtain W f where W: "finite W" "W \<subseteq> set (filed rnd step s1)" "inj_on voter W"
    "\<forall>v \<in> W. valid_vote E s1 v \<and> take 4 (v_Hash v) = take 4 h \<and> (\<exists>k. f v = vote_weight E n v k)"
    "quorum th n \<le> (\<Sum>v \<in> W. f v)"
    using counted_quorum [OF assms(1,2)] assms(3) by (auto simp: filed_def)
  then have sub: "W \<subseteq> countable E rnd step s1" by (auto simp: countable_def)
  have "(\<Sum>v \<in> W. f v) \<le> (\<Sum>v \<in> W. m (voter v))"
  proof (rule sum_mono)
    fix v assume "v \<in> W"
    then show "f v \<le> m (voter v)" using W(4) sub assms(4) by (fastforce simp: weigh_at_most_def)
  qed
  also have "\<dots> = sum m (voter ` W)" using sum.reindex [OF W(3), of m] by simp
  finally have "quorum th n \<le> sum m (voter ` W)" using W(5) by linarith
  moreover have "\<forall>v \<in> W. take 4 (v_Hash v) = take 4 h" using W(4) by simp
  ultimately show ?thesis using sub by (intro exI [of _ W]) simp
qed

text \<open>
  C4. When two nodes cannot count different hashes for a step: let \<open>m\<close> bound what the vote of a key is
  worth at any draw. If the keys of all valid votes at both nodes together, with those that voted for
  different hashes taken twice, weigh less than twice the threshold, both counts end with the same
  hash (as far as the tally tells hashes apart, by their first four bytes). The thresholds
  of the program are 2, so this holds with at most three selected sub-users, although ten or
  twenty are expected.
\<close>

theorem small_committees_agree:
  assumes "countVotes EA rnd step th n sA = return_run ((hA, tA), sA')" and "hA \<noteq> []" and "sleep EA sA = return_run s1A"
    and "countVotes EB rnd step th n sB = return_run ((hB, tB), sB')" and "hB \<noteq> []" and "sleep EB sB = return_run s1B"
    and "weigh_at_most EA n m K (countable EA rnd step s1A)" and "weigh_at_most EB n m K (countable EB rnd step s1B)"
    and "finite K" and "\<And>k. k \<in> K \<Longrightarrow> 0 \<le> m k" and "D \<subseteq> K"
    and "\<And>v v'. v \<in> countable EA rnd step s1A \<Longrightarrow> v' \<in> countable EB rnd step s1B \<Longrightarrow> voter v = voter v' \<Longrightarrow>
      voter v \<notin> D \<Longrightarrow> v_Hash v = v_Hash v'"
    and "sum m K + sum m D < 2 * quorum th n"
  shows "take 4 hA = take 4 hB"
proof -
  obtain WA where A: "WA \<subseteq> countable EA rnd step s1A" "\<forall>v \<in> WA. take 4 (v_Hash v) = take 4 hA"
    "quorum th n \<le> sum m (voter ` WA)" using counted_keys [OF assms(1-3,7)] by blast
  obtain WB where B: "WB \<subseteq> countable EB rnd step s1B" "\<forall>v \<in> WB. take 4 (v_Hash v) = take 4 hB"
    "quorum th n \<le> sum m (voter ` WB)" using counted_keys [OF assms(4-6,8)] by blast
  have "voter ` WA \<subseteq> K" "voter ` WB \<subseteq> K" using A(1) B(1) assms(7,8) by (auto simp: weigh_at_most_def)
  then obtain k where k: "k \<in> voter ` WA" "k \<in> voter ` WB" "k \<notin> D"
    using weighted_quorums [of K "voter ` WA" "voter ` WB" m D, OF assms(9) _ _ assms(10,11) A(3) B(3) assms(13)] by blast
  then obtain v v' where v: "v \<in> WA" "v' \<in> WB" "k = voter v" "k = voter v'" by (auto elim!: imageE)
  have "v_Hash v = v_Hash v'"
    by (rule assms(12)) (use v A(1) B(1) k(3) in auto)
  then show ?thesis using v(1,2) A(2) B(2) by metis
qed

section \<open>A fork\<close>

text \<open>The committee of a step, a node in the round, and the four steps of an agreement that ends at once.\<close>

definition committee :: "int \<Rightarrow> int" where
  "committee step = (if step = FINAL then ExpectedFinalCommitteeMembers else ExpectedCommitteeMembers)"

definition first_steps :: "int set" where
  "first_steps = {ReductionOne, ReductionTwo, 1, FINAL}"

definition can_commit :: "'db alg_env \<Rightarrow> uint64 \<Rightarrow> 'db alg_state \<Rightarrow> bytes \<Rightarrow> block \<Rightarrow> bool" where
  "can_commit E rnd s h b \<longleftrightarrow> (\<exists>seed lb. SortitionSeed E s rnd = return_run seed \<and> a_arrive s = []
     \<and> lastBlock E s = return_run lb \<and> 4 \<le> length h
     \<and> h \<notin> emptyHash (sha256 (e_hashes E)) rnd ` {TailHash (a_chain s), CurrentBlockHash lb}
     \<and> getBlock rnd h (a_peer s) = Some b)"

lemma BA_last_quorum:
  assumes "can_commit E rnd s h b"
    and "\<And>step. step \<in> first_steps \<Longrightarrow> decided E rnd h s step (committee step) 2"
  shows "\<exists>s'. BA E rnd blk s = return_run ((FinalConsensus, b\<lparr>BType := FinalConsensus\<rparr>), s')"
proof -
  obtain seed lb where c: "SortitionSeed E s rnd = return_run seed" "a_arrive s = []" "lastBlock E s = return_run lb"
    "4 \<le> length h" "h \<noteq> emptyHash (sha256 (e_hashes E)) rnd (TailHash (a_chain s))"
    "h \<noteq> emptyHash (sha256 (e_hashes E)) rnd (CurrentBlockHash lb)" "getBlock rnd h (a_peer s) = Some b"
    using assms(1) by (auto simp: can_commit_def)
  have "decided E rnd h s step ExpectedCommitteeMembers 2" if "step \<in> {ReductionOne, ReductionTwo, 1}" for step
    using assms(2) [of step] that by (auto simp: first_steps_def committee_def alg_params)
  moreover have "decided E rnd h s FINAL ExpectedFinalCommitteeMembers 2"
    using assms(2) [of FINAL] by (simp add: first_steps_def committee_def)
  ultimately show ?thesis using BA_decided [OF c(1-6) _ _ c(7)] by blast
qed

text \<open>Votes of one key for \<open>h\<close> each that both nodes accept.\<close>

definition accepted :: "'db alg_env \<Rightarrow> 'db alg_state \<Rightarrow> bytes \<Rightarrow> int \<Rightarrow> vote_message list \<Rightarrow> bool" where
  "accepted E s h step vs \<longleftrightarrow> (\<forall>v \<in> set vs. supports E s h (committee step) v)"

lemma last_votes_decide:
  assumes "filed rnd step s = xs @ ys" and "accepted E s l step xs" and "accepted E s k step ys" and "4 \<le> length l"
    and "voter ` set xs \<inter> voter ` set ys = {}" and "2 \<le> card (voter ` set ys)"
  shows "decided E rnd k s step (committee step) 2"
proof -
  have "\<forall>v \<in> set xs. supports E s (v_Hash v) (committee step) v \<and> 4 \<le> length (v_Hash v)"
    using assms(2,4) by (auto simp: accepted_def supports_def)
  moreover have "\<forall>v \<in> set ys. supports E s k (committee step) v" using assms(3) by (simp add: accepted_def)
  ultimately show ?thesis using assms(1,5,6) unfolding decided_def by (intro exI [of _ xs] exI [of _ ys]) simp
qed

text \<open>
  C3. The same votes, two final blocks: if at least two keys vote for one hash and at least two others for
  another hash in the four steps of an agreement, no key for both, and the votes reach two nodes in
  opposite orders, each of the nodes ends with final consensus on another block. Counting goes on
  after the threshold is reached, the hash that reaches it last wins, and two votes reach it.
\<close>

theorem same_votes_two_blocks:
  assumes "can_commit EA rnd sA h b" and "can_commit EB rnd sB g b'" and "4 \<le> length h" and "4 \<le> length g"
    and "\<And>step. step \<in> first_steps \<Longrightarrow> filed rnd step sA = gs step @ hs step \<and> filed rnd step sB = hs step @ gs step"
    and "\<And>step. step \<in> first_steps \<Longrightarrow> accepted EA sA g step (gs step) \<and> accepted EB sB g step (gs step)
      \<and> accepted EA sA h step (hs step) \<and> accepted EB sB h step (hs step)"
    and "\<And>step. step \<in> first_steps \<Longrightarrow> voter ` set (gs step) \<inter> voter ` set (hs step) = {}
      \<and> 2 \<le> card (voter ` set (gs step)) \<and> 2 \<le> card (voter ` set (hs step))"
  shows "(\<exists>s. BA EA rnd blkA sA = return_run ((FinalConsensus, b\<lparr>BType := FinalConsensus\<rparr>), s))
    \<and> (\<exists>s. BA EB rnd blkB sB = return_run ((FinalConsensus, b'\<lparr>BType := FinalConsensus\<rparr>), s))"
proof
  show "\<exists>s. BA EA rnd blkA sA = return_run ((FinalConsensus, b\<lparr>BType := FinalConsensus\<rparr>), s)"
  proof (rule BA_last_quorum [OF assms(1)])
    fix step assume st: "step \<in> first_steps"
    from last_votes_decide [of rnd step sA "gs step" "hs step" EA g h] assms(4) assms(5-7) [OF st]
    show "decided EA rnd h sA step (committee step) 2" by simp
  qed
  show "\<exists>s. BA EB rnd blkB sB = return_run ((FinalConsensus, b'\<lparr>BType := FinalConsensus\<rparr>), s)"
  proof (rule BA_last_quorum [OF assms(2)])
    fix step assume st: "step \<in> first_steps"
    from last_votes_decide [of rnd step sB "hs step" "gs step" EB h g] assms(3) assms(5-7) [OF st]
    show "decided EB rnd g sB step (committee step) 2" by (simp add: Int_commute)
  qed
qed

section \<open>Witnesses\<close>

text \<open>A signed vote for a hash with a given output of the sortition, of the key made of one byte.\<close>

definition vote_for :: "bytes \<Rightarrow> bytes \<Rightarrow> char \<Rightarrow> vote_message" where
  "vote_for h vrf c = (let v = forger_vote\<lparr>v_Hash := h, v_VRF := vrf\<rparr>
     in v\<lparr>v_Signature := replicate 32 c @ rev (vote_data v)\<rparr>)"

definition inbox :: "vote_message list \<Rightarrow> mapdb alg_state" where
  "inbox vs = toy_state\<lparr>a_peer := NewPeer\<lparr>InVotes := (\<lambda>_. vs),
     Blcoks := (\<lambda>_. [toy_block 3 ''hash'' ''c'', toy_block 3 ''mash'' ''c''])\<rparr>\<rparr>"

lemma inbox_simps [simp]:
  "filed rnd step (inbox vs) = vs" "a_arrive (inbox vs) = []" "voter (vote_for h vrf c) = replicate 32 c"
  "v_Hash (vote_for h vrf c) = h" "v_VRF (vote_for h vrf c) = vrf"
  by (simp_all add: inbox_def filed_def toy_state_def voter_def vote_for_def Let_def PublicKeySize_def)

lemma vote_for_valid:
  assumes "e_keys E = toy_keys"
  shows "valid_vote E (inbox vs) (vote_for h vrf c)"
proof -
  have "vote_VerifySign toy_keys (vote_for h vrf c) = Inr None"
    by (simp add: vote_VerifySign_ok vote_for_def Let_def PublicKeySize_def toy_keys_def)
  moreover have "v_ParentHash (vote_for h vrf c) = TailHash (a_chain (inbox vs))"
    by (simp add: vote_for_def forger_vote_def Let_def inbox_def toy_state_def)
  ultimately show ?thesis using assms by (simp add: valid_vote_def)
qed

lemma inbox_seed: "SortitionSeed toy_env (inbox vs) (v_Round (vote_for h vrf c)) = return_run (sha256 toy_crypto [])"
  "SortitionSeed toy_env (inbox vs) 3 = return_run (sha256 toy_crypto [])"
  by (simp_all add: inbox_def toy_seed vote_for_def forger_vote_def Let_def)

theorem same_votes_two_blocks_witness:
  "\<exists>s s'. BA toy_env 3 (toy_block 3 ''mine'' ''c'')
        (inbox [vote_for ''mash'' [] CHR ''u'', vote_for ''mash'' [] CHR ''v'', vote_for ''hash'' [] CHR ''x'', vote_for ''hash'' [] CHR ''y''])
      = return_run ((FinalConsensus, toy_block 3 ''hash'' ''c''), s)
    \<and> BA toy_env 3 (toy_block 3 ''yours'' ''c'')
        (inbox [vote_for ''hash'' [] CHR ''x'', vote_for ''hash'' [] CHR ''y'', vote_for ''mash'' [] CHR ''u'', vote_for ''mash'' [] CHR ''v''])
      = return_run ((FinalConsensus, toy_block 3 ''mash'' ''c''), s')"
proof -
  let ?gs = "[vote_for ''mash'' [] CHR ''u'', vote_for ''mash'' [] CHR ''v'']"
  let ?hs = "[vote_for ''hash'' [] CHR ''x'', vote_for ''hash'' [] CHR ''y'']"
  have sup: "supports toy_env (inbox vs) h n (vote_for h [] c)" for vs h n c
    using vote_for_valid [of toy_env vs h "[]" c] inbox_seed(1) [of vs h "[]" c] toy_sub_users [of n]
    by (simp add: supports_def toy_env_def)
  have l: "length (emptyHash (sha256 (e_hashes toy_env)) r h) = 32" for r h
    by (simp add: emptyHash_def toy_env_def toy_crypto_def)
  have ne: "k \<notin> emptyHash (sha256 (e_hashes toy_env)) r ` H" if "length k = 4" for k r H
    using l that by fastforce
  have lb: "lastBlock toy_env (inbox vs) = return_run (toy_block 2 ''c'' ''b'')" for vs
    using toy_open_tail by (simp add: inbox_def open_tail_def lastBlock_def)
  have can: "can_commit toy_env 3 (inbox vs) k (toy_block 3 k ''c'')" if "k = ''hash'' \<or> k = ''mash''" for vs k
  proof -
    have "getBlock 3 k (a_peer (inbox vs)) = Some (toy_block 3 k ''c'')"
      using that by (auto simp: getBlock_def inbox_def toy_block_def)
    moreover have "length k = 4" using that by auto
    ultimately show ?thesis using inbox_seed(2) lb ne [of k] by (auto simp: can_commit_def simp del: image_insert)
  qed
  have t: "(toy_block 3 k ''c'')\<lparr>BType := FinalConsensus\<rparr> = toy_block 3 k ''c''" for k
    by (simp add: toy_block_def NewBlock_def FinalConsensus_def)
  have q: "voter ` set ?gs \<inter> voter ` set ?hs = {}" "2 \<le> card (voter ` set ?gs)" "2 \<le> card (voter ` set ?hs)"
    by (simp_all add: replicate_eq_replicate)
  from same_votes_two_blocks [of toy_env 3 "inbox (?gs @ ?hs)" "''hash''" "toy_block 3 ''hash'' ''c''" toy_env
      "inbox (?hs @ ?gs)" "''mash''" "toy_block 3 ''mash'' ''c''" "\<lambda>_. ?gs" "\<lambda>_. ?hs"]
  show ?thesis using can sup q by (simp add: accepted_def t)
qed

text \<open>A distribution and an output of the sortition that select exactly one sub-user.\<close>

definition quarter :: bytes where
  "quarter = CHR 0x40 # replicate 31 CHR 0x00"

definition unit_env :: "mapdb alg_env" where
  "unit_env = toy_env\<lparr>e_pow := (\<lambda>_. 1 / 100)\<rparr>"

lemma be_nat_zeros_after: "be_nat (c # replicate k CHR 0x00) = of_char c * 256 ^ k"
proof (induction k)
  case (Suc k)
  have "be_nat ((c # replicate k CHR 0x00) @ [CHR 0x00]) = 256 * be_nat (c # replicate k CHR 0x00) + of_char CHR 0x00"
    by (rule be_nat_snoc)
  then show ?case using Suc by (simp add: replicate_append_same)
qed (simp add: be_nat_def)

lemma quarter_fraction: "vrf_fraction quarter = 1 / 4"
  by (simp add: vrf_fraction_def quarter_def be_nat_zeros_after)

lemma one_sub_user: "subUsers (\<lambda>_. 1 / 100) 10 50 quarter = 1"
proof -
  have cdf: "ab_CDF (\<lambda>_. 1 / 100) (NewApproxBinomial 10 50) 0 = 1 / 100"
    "ab_CDF (\<lambda>_. 1 / 100) (NewApproxBinomial 10 50) 1 = 11 / 100"
    "ab_CDF (\<lambda>_. 1 / 100) (NewApproxBinomial 10 50) 2 = 61 / 100"
    by (simp_all add: ab_CDF_def NewApproxBinomial_def ab_Prob_def upt_rec word_le_nat_alt)
  have h: "hit (\<lambda>_. 1 / 100) 10 50 quarter 1" "\<not> hit (\<lambda>_. 1 / 100) 10 50 quarter 0"
    using cdf by (simp_all add: hit_def quarter_fraction)
  let ?u = "nat (subUsers (\<lambda>_. 1 / 100) 10 50 quarter)"
  have e: "\<exists>j \<le> unat (50 :: uint64). hit (\<lambda>_. 1 / 100) 10 50 quarter j" using h(1) by (intro exI [of _ 1]) simp
  have "hit (\<lambda>_. 1 / 100) 10 50 quarter ?u \<and> (\<forall>j < ?u. \<not> hit (\<lambda>_. 1 / 100) 10 50 quarter j)"
    using subUsers_spec [of "\<lambda>_. 1 / 100" 10 50 quarter] unfolding if_P [OF e] by blast
  then have "?u \<noteq> 0" "\<not> 1 < ?u" using h by metis+
  then show ?thesis by simp
qed

theorem small_committees_agree_witness:
  "\<exists>hA hB sA sB.
     countVotes unit_env 3 1 ThresholdOfBAStep ExpectedCommitteeMembers
       (inbox [vote_for ''hash'' quarter CHR ''x'', vote_for ''hash'' quarter CHR ''y'']) = return_run ((hA, False), sA)
   \<and> countVotes unit_env 3 1 ThresholdOfBAStep ExpectedCommitteeMembers
       (inbox [vote_for ''hash'' quarter CHR ''y'', vote_for ''hash'' quarter CHR ''x'']) = return_run ((hB, False), sB)
   \<and> hA \<noteq> [] \<and> take 4 hA = take 4 hB"
proof -
  let ?x = "vote_for ''hash'' quarter CHR ''x''" and ?y = "vote_for ''hash'' quarter CHR ''y''"
  have n: "ExpectedCommitteeMembers = 10" by (simp add: alg_params)
  have keys: "e_keys unit_env = toy_keys" by (simp add: unit_env_def toy_env_def)
  have w: "vote_weight unit_env 10 (vote_for h quarter c) k = 1" for h c k
    using one_sub_user by (simp add: vote_weight_def unit_env_def toy_env_def)
  have seed: "SortitionSeed unit_env (inbox vs) (v_Round (vote_for h quarter c)) = return_run (sha256 toy_crypto [])" for vs h c
    by (simp add: SortitionSeed_def R_def unit_env_def toy_env_def Let_def vote_for_def forger_vote_def)
  have sup: "supports unit_env (inbox vs) ''hash'' 10 (vote_for ''hash'' quarter c)" for vs c
    using vote_for_valid [OF keys] w seed by (simp add: supports_def vote_weight_def)
  have count: "\<exists>s. countVotes unit_env 3 1 ThresholdOfBAStep 10 (inbox vs) = return_run ((''hash'', False), s)"
    if "vs = [?x, ?y] \<or> vs = [?y, ?x]" for vs
  proof -
    have "unanimous unit_env 3 ''hash'' (inbox vs) 1 10 (quorum ThresholdOfBAStep 10)"
      using that sup quorum_values(1) by (auto simp: unanimous_def n replicate_eq_replicate)
    then show ?thesis using count_unanimous [of "inbox vs" unit_env 3 "''hash''" 1 10 ThresholdOfBAStep] quorum_values(1)
      by (auto simp: n)
  qed
  obtain sA sB where c: "countVotes unit_env 3 1 ThresholdOfBAStep 10 (inbox [?x, ?y]) = return_run ((''hash'', False), sA)"
    "countVotes unit_env 3 1 ThresholdOfBAStep 10 (inbox [?y, ?x]) = return_run ((''hash'', False), sB)"
    using count [of "[?x, ?y]"] count [of "[?y, ?x]"] by auto
  let ?K = "{replicate 32 CHR ''x'', replicate 32 CHR ''y''}"
  have sl: "sleep unit_env (inbox vs) = return_run (inbox vs)" for vs by (simp add: sleep_idle)
  have wm: "weigh_at_most unit_env 10 (\<lambda>_. 1) ?K (countable unit_env 3 1 (inbox vs))"
    if "vs = [?x, ?y] \<or> vs = [?y, ?x]" for vs
    using that w by (auto simp: weigh_at_most_def countable_def)
  have "sum (\<lambda>_. 1) ?K + sum (\<lambda>_. 1) ({} :: bytes set) < 2 * quorum ThresholdOfBAStep 10"
    using quorum_values(1) by (simp add: n replicate_eq_replicate)
  from small_committees_agree [OF c(1) _ sl c(2) _ sl wm wm _ _ _ _ this] c
  show ?thesis by (auto simp: n countable_def)
qed

end
