(* ===== verification/Startup.thy ===== *)
theory Startup
  imports Terminal_Session Raft_Election Cluster_Update
begin

text \<open>
  \<open>main.go\<close>: how a node comes up, with \<open>Algorand.Start\<close>, \<open>Raft.Start\<close> and the two web pages of
  \<open>client/serviceClient.go\<close>. What is started as a goroutine is modelled where its code is; here it is
  the list of what has been started.
\<close>

section \<open>Starting the parts\<close>

text \<open>
  \<open>NewAlgorand\<close> draws a key pair (a parameter of the consensus model) and clears the tables of the
  peer, which are global.
\<close>

definition NewAlgorand :: "'db data_chain \<Rightarrow> 'db alg_state \<Rightarrow> 'db alg_state" where
  "NewAlgorand ch s = s\<lparr>a_chain := ch, a_peer := NewPeer\<rparr>"

definition Raft_Start :: "string \<Rightarrow> cluster_state \<Rightarrow> nat \<times> raft" where
  "Raft_Start localIP st = (length (Nodes (LocalNode st)), NewRaft localIP (Itoa 3302))"

datatype goroutine = Terminal_loop | Web_pages | Command_service | File_server | Update_loop | Raft_loops

record 'db program =
  pg_server :: "'db server"
  pg_cluster :: cluster_state
  pg_raft :: "(nat \<times> raft) option"
  pg_running :: "goroutine list"

section \<open>main\<close>

text \<open>
  Without a cluster file the node is on its own until \<open>creat\<close> or \<open>join\<close> is typed. With one it loads the
  file, which may panic, and starts Raft, the clean-up loop and the consensus. \<open>Command\<close> starts with a
  consensus of its own, so the one made here is replaced at once.
\<close>

definition after_Init :: "cluster_env \<Rightarrow> 'db server \<Rightarrow> cluster_state \<Rightarrow> 'db program go" where
  "after_Init C s cl =
     (let fresh = (\<lambda>s. s\<lparr>sv_node := (sv_node s)\<lparr>nd_alg := NewAlgorand (a_chain (nd_alg (sv_node s))) (nd_alg (sv_node s))\<rparr>\<rparr>) in
      if ClusterInfo cl = None
      then Inr \<lparr>pg_server = fresh s, pg_cluster = cl, pg_raft = None, pg_running = [Terminal_loop, Web_pages, Command_service]\<rparr>
      else bind_go (LoadClusterFile C cl) (\<lambda>(clu, cl1).
        case clu of
          None \<Rightarrow> Inl LogPanic
        | Some c \<Rightarrow>
            let cl2 = cl1\<lparr>LocalNode := c\<rparr> in
            Inr \<lparr>pg_server = fresh (fresh s), pg_cluster = cl2, pg_raft = Some (Raft_Start (local_ip C) cl2),
              pg_running = [File_server, Update_loop, Raft_loops, Terminal_loop, Web_pages, Command_service]\<rparr>))"

definition main :: "'db server_env \<Rightarrow> cluster_env \<Rightarrow> table_block codec \<Rightarrow> 'db alg_state \<Rightarrow> 'db option \<Rightarrow> 'db option \<Rightarrow>
    user_state \<Rightarrow> cluster_state \<Rightarrow> 'db program run" where
  "main V C tcd alg0 dataFile tableFile users cl =
     bind_run (server_Init V tcd alg0 dataFile tableFile users) (\<lambda>s. lift_go (after_Init C s cl))"

section \<open>The web pages\<close>

text \<open>Both pages read with a session that is written into the program.\<close>

definition page_session :: string where
  "page_session = ''123'' @ ''-QAQ-'' @ ''123456''"

definition get_pair :: "'db server_env \<Rightarrow> string \<Rightarrow> string \<Rightarrow> 'db server \<Rightarrow> ((string \<times> string) \<times> 'db server) run" where
  "get_pair V k1 k2 s =
     bind_run (server_Get V page_session k1 ''data'' s) (\<lambda>(v1, s1).
     bind_run (server_Get V page_session k2 ''data'' s1) (\<lambda>(v2, s2). return_run ((v1, v2), s2)))"

definition getAData :: "'db server_env \<Rightarrow> 'db server \<Rightarrow> ((string \<times> string) \<times> 'db server) run" where
  "getAData V = get_pair V ''Temperature'' ''TargetTemperature''"

definition getRData :: "'db server_env \<Rightarrow> 'db server \<Rightarrow> ((string \<times> string) \<times> 'db server) run" where
  "getRData V = get_pair V ''ColdTemperature'' ''IceTemperature''"

section \<open>Properties\<close>

text \<open>
  The pages need a user "123" with password "123456" to be signed in at this node with permission "1"
  on the table "data"; nobody is right after a start, and then both pages are empty.
\<close>

lemma pages_need_session:
  assumes "level page_session ''data'' s = None"
  shows "getAData V s = return_run (([], []), s)" and "getRData V s = return_run (([], []), s)"
proof -
  have "\<not> may_read page_session ''data'' s" using assms by (simp add: may_read_level)
  then show "getAData V s = return_run (([], []), s)" "getRData V s = return_run (([], []), s)"
    by (simp_all add: getAData_def getRData_def get_pair_def server_Get_def)
qed

lemma after_Init_file:
  assumes "dec_cluster C (enc_cluster C clu) = Some clu" and "SaveClusterFile C (st\<lparr>LocalNode := clu\<rparr>) = Inr cl0"
    and "ClusterInfo cl = ClusterInfo cl0"
  shows "\<exists>p. after_Init C s cl = Inr p \<and> pg_cluster p = cl\<lparr>LocalNode := clu\<rparr>
    \<and> pg_raft p = Some (length (Nodes clu), NewRaft (local_ip C) (Itoa 3302))
    \<and> pg_server p = s\<lparr>sv_node := (sv_node s)\<lparr>nd_alg := (nd_alg (sv_node s))\<lparr>a_peer := NewPeer\<rparr>\<rparr>\<rparr> \<and> Update_loop \<in> set (pg_running p)"
proof -
  have c: "ClusterInfo cl = Some (xor_stream (key_stream C file_key) 0 (enc_cluster C clu))"
    using assms(2,3) by (auto simp: SaveClusterFile_eq)
  then have "LoadClusterFile C cl = Inr (Some clu, cl\<lparr>LocalNode := clu\<rparr>)"
    using assms(1) by (simp add: LoadClusterFile_def AesCTRDecrypt_def aes_key_ok_def file_key_def xor_stream_twice)
  then show ?thesis using c by (simp add: after_Init_def Let_def Raft_Start_def NewAlgorand_def)
qed

text \<open>
  C17. A node of a cluster that is started again: from the files of two intact chains and the cluster
  file it saved last, it comes up with the same blocks on both chains, the same cluster and a fresh
  election state that is nobody's follower. Of the permissions it has only those of the newest
  transaction of each table, its pool is empty, the number of the last table block is back at 1,
  nobody is signed in, so the web pages are empty; and it starts the clean-up loop on that cluster.
\<close>

theorem node_restart:
  assumes "data_rep (e_bolt (sv_alg V)) (e_block (sv_alg V)) ch bs" and "table_rep (e_bolt (sv_alg V)) tcd tch (tbs @ [g])"
    and "BlockBucket ch = ''blockBucket''" and "LastHashKey ch = ''lastHashKey''"
    and "BlockBucket tch = ''blockBucket''" and "LastHashKey tch = ''lastHashKey''"
    and "genesis_mark \<notin> tCurrentBlockHash ` set (tbs @ [g])"
    and "\<And>tx. tx \<in> set (concat (map tTransactions tbs)) \<Longrightarrow> [] \<notin> set (PermissionTable tx)"
    and "dec_cluster C (enc_cluster C clu) = Some clu" and "SaveClusterFile C (st\<lparr>LocalNode := clu\<rparr>) = Inr cl"
  shows "\<exists>p. main V C tcd alg0 (Some (Db ch)) (Some (Db tch)) users (cl\<lparr>LocalNode := any\<rparr>) = return_run p
    \<and> data_rep (e_bolt (sv_alg V)) (e_block (sv_alg V)) (a_chain (nd_alg (sv_node (pg_server p)))) bs
    \<and> table_rep (e_bolt (sv_alg V)) tcd (nd_tables (sv_node (pg_server p))) (tbs @ [g])
    \<and> tableInfo (nd_cache (sv_node (pg_server p))) = restart_tables Map.empty (concat (map tTransactions tbs))
    \<and> nd_pool (sv_node (pg_server p)) = pool_Init \<and> LastID (nd_tables (sv_node (pg_server p))) = 1
    \<and> LocalNode (pg_cluster p) = clu \<and> Update_loop \<in> set (pg_running p)
    \<and> (\<exists>n rf. pg_raft p = Some (n, rf) \<and> n = length (Nodes clu) \<and> state rf = 0 \<and> currentLeader rf = nobody)
    \<and> getAData V (pg_server p) = return_run (([], []), pg_server p)"
proof -
  obtain s where s: "server_Init V tcd alg0 (Some (Db ch)) (Some (Db tch)) users = return_run s"
    "data_rep (e_bolt (sv_alg V)) (e_block (sv_alg V)) (a_chain (nd_alg (sv_node s))) bs"
    "table_rep (e_bolt (sv_alg V)) tcd (nd_tables (sv_node s)) (tbs @ [g])"
    "tableInfo (nd_cache (sv_node s)) = restart_tables Map.empty (concat (map tTransactions tbs))"
    "nd_pool (sv_node s) = pool_Init" "LastID (nd_tables (sv_node s)) = 1" "EffectiveUser (manage s) = Map.empty"
    using server_Init_reopens [OF assms(1-8), of alg0 users] by blast
  obtain p where p: "after_Init C s (cl\<lparr>LocalNode := any\<rparr>) = Inr p" "pg_cluster p = cl\<lparr>LocalNode := clu\<rparr>"
    "pg_raft p = Some (length (Nodes clu), NewRaft (local_ip C) (Itoa 3302))"
    "pg_server p = s\<lparr>sv_node := (sv_node s)\<lparr>nd_alg := (nd_alg (sv_node s))\<lparr>a_peer := NewPeer\<rparr>\<rparr>\<rparr>"
    "Update_loop \<in> set (pg_running p)"
    using after_Init_file [OF assms(9,10), of "cl\<lparr>LocalNode := any\<rparr>" s] by auto
  have "level page_session ''data'' (pg_server p) = None" using s(7) p(4) by (simp add: level_def)
  then have "getAData V (pg_server p) = return_run (([], []), pg_server p)" by (rule pages_need_session)
  then show ?thesis using s p by (simp add: main_def NewRaft_def)
qed

theorem node_restart_witness:
  "\<exists>p. main (toy_server_env\<lparr>sv_alg := unsigned_env\<rparr>) lone_env grant_codec toy_state (Some toy_db) (Some toy_db) no_users
      \<lparr>LocalNode = \<lparr>Nodes = [], JoinKey = []\<rparr>, ClusterInfo = Some (xor_stream (key_stream lone_env file_key) 0 ''n'')\<rparr> = return_run p
    \<and> LocalNode (pg_cluster p) = \<lparr>Nodes = [lone_node False], JoinKey = []\<rparr>"
proof -
  let ?V = "toy_server_env\<lparr>sv_alg := unsigned_env\<rparr>" and ?bs = "butlast grant_blocks"
  let ?clu = "\<lparr>Nodes = [lone_node False], JoinKey = []\<rparr>"
  let ?st = "\<lparr>LocalNode = \<lparr>Nodes = [], JoinKey = []\<rparr>, ClusterInfo = None\<rparr>"
  have d: "data_rep (e_bolt (sv_alg ?V)) (e_block (sv_alg ?V)) toy_chain (tl toy_blocks)"
    using unsigned_chain by simp
  have t: "table_rep (e_bolt (sv_alg ?V)) grant_codec grant_chain (?bs @ [grant_block ''a'' genesis_mark []])"
    using grant_rep by (simp add: grant_blocks_def)
  have f: "BlockBucket grant_chain = ''blockBucket''" "LastHashKey grant_chain = ''lastHashKey''" "Db grant_chain = toy_db"
    by (simp_all add: grant_chain_def new_table_chain_def)
  have g: "genesis_mark \<notin> tCurrentBlockHash ` set (?bs @ [grant_block ''a'' genesis_mark []])"
    by (simp add: grant_blocks_def genesis_mark_def)
  have e: "[] \<notin> set (PermissionTable tx)" if "tx \<in> set (concat (map tTransactions ?bs))" for tx
    using that by (auto simp: grant_blocks_def)
  have c: "dec_cluster lone_env (enc_cluster lone_env ?clu) = Some ?clu"
    by (rule lone_env_decodes) (simp_all add: places_def)
  have en: "enc_cluster lone_env ?clu = ''n''" by (simp add: lone_env_def lone_node_def)
  have sv: "SaveClusterFile lone_env (?st\<lparr>LocalNode := ?clu\<rparr>)
      = Inr \<lparr>LocalNode = ?clu, ClusterInfo = Some (xor_stream (key_stream lone_env file_key) 0 ''n'')\<rparr>"
    by (simp add: SaveClusterFile_eq en)
  from node_restart [OF d t _ _ f(1,2) g e c sv, of toy_state no_users "\<lparr>Nodes = [], JoinKey = []\<rparr>"] show ?thesis
    by (auto simp: f(3))
qed

end
