(* ===== verification/Raft_Runs.thy ===== *)
theory Raft_Runs
  imports Raft_Election Startup
begin

text \<open>
  Which runs of the election of \<open>Raft_Election\<close> end with a leader: an undisturbed one does; a cluster of
  one node never gets one; and in a cluster that has grown since its nodes were started, two can
  win without any time-out.
\<close>

section \<open>An undisturbed election\<close>

lemma do_events_append: "do_events ips (es @ fs) s = Option.bind (do_events ips es s) (do_events ips fs)"
  by (induction es arbitrary: s) (auto split: bind_splits)

lemma vote_calls:
  assumes "calls s = map (Pair i) js" and "distinct js" and "i \<notin> set js"
    and "\<And>j. j \<in> set js \<Longrightarrow> votedFor (peers s j) = nobody \<and> currentLeader (peers s j) = nobody"
  shows "do_events ips (map (VoteCall i) js) s = Some (s\<lparr>calls := [], replies := replicate (length js) (i, True) @ replies s,
    peers := (\<lambda>j. if j \<in> set js then setVoteFor (rIP (peers s i)) (peers s j) else peers s j)\<rparr>)"
  using assms
proof (induction js arbitrary: s)
  case Nil
  then show ?case by simp
next
  case (Cons j js)
  let ?s = "(set_peer j (setVoteFor (rIP (peers s i)) (peers s j)) s)\<lparr>calls := map (Pair i) js, replies := (i, True) # replies s\<rparr>"
  have "do_event ips (VoteCall i j) s = Some ?s"
    using Cons.prems by (simp add: Vote_def)
  moreover have "do_events ips (map (VoteCall i) js) ?s = Some (?s\<lparr>calls := [], replies := replicate (length js) (i, True) @ replies ?s,
      peers := (\<lambda>k. if k \<in> set js then setVoteFor (rIP (peers ?s i)) (peers ?s k) else peers ?s k)\<rparr>)"
    using Cons.prems by (intro Cons.IH) (auto simp: set_peer_def)
  ultimately show ?case
    using Cons.prems by (auto simp: set_peer_def fun_eq_iff replicate_app_Cons_same)
qed

text \<open>The candidate counts one vote after the other; with the last one it needs it has won.\<close>

lemma vote_replies:
  assumes "i \<in> set (electing s)" and "i \<in> set (trying s)" and "replies s = replicate m (i, True)"
    and "currentLeader (peers s i) = nobody" and "vote (peers s i) + int (Suc k) = int (node_count s i div 2 + 1)"
    and "Suc k \<le> m"
  shows "do_events ips (replicate (Suc k) (Reply i True)) s = Some (s\<lparr>replies := replicate (m - Suc k) (i, True),
    electing := remove1 i (electing s), trying := remove1 i (trying s), beating := i # beating s,
    confirms := confirms s @ broadcast ips i,
    peers := (peers s)(i := (peers s i)\<lparr>vote := vote (peers s i) + int (Suc k), state := 2, currentLeader := me (peers s i)\<rparr>)\<rparr>)"
  using assms
proof (induction k arbitrary: s m)
  case 0
  then obtain m' where m: "m = Suc m'" by (cases m) auto
  show ?case using 0 m by (simp add: election_reply_def Let_def set_peer_def fun_upd_def)
next
  case (Suc k)
  then obtain m' where m: "m = Suc m'" by (cases m) auto
  let ?s = "(set_peer i (voteAdd (peers s i)) s)\<lparr>replies := replicate m' (i, True)\<rparr>"
  have "do_event ips (Reply i True) s = Some ?s"
    using Suc.prems m by (simp add: election_reply_def Let_def set_peer_def)
  moreover have "do_events ips (replicate (Suc k) (Reply i True)) ?s = Some (?s\<lparr>replies := replicate (m' - Suc k) (i, True),
      electing := remove1 i (electing ?s), trying := remove1 i (trying ?s), beating := i # beating ?s,
      confirms := confirms ?s @ broadcast ips i, peers := (peers ?s)(i := (peers ?s i)\<lparr>vote := vote (peers ?s i) + int (Suc k),
        state := 2, currentLeader := me (peers ?s i)\<rparr>)\<rparr>)"
    using Suc.prems m by (intro Suc.IH) (simp_all add: set_peer_def)
  ultimately show ?case using m by (auto simp: set_peer_def fun_eq_iff algebra_simps)
qed

lemma confirm_calls:
  assumes "confirms s = map (Pair i) js" and "distinct js" and "i \<notin> set js"
  shows "do_events ips (map (Confirm i) js) s = Some (s\<lparr>confirms := [],
    peers := (\<lambda>j. if j \<in> set js then ConfirmationLeader (rIP (peers s i)) (peers s j) else peers s j)\<rparr>)"
  using assms
proof (induction js arbitrary: s)
  case Nil
  then show ?case by simp
next
  case (Cons j js)
  let ?s = "(set_peer j (ConfirmationLeader (rIP (peers s i)) (peers s j)) s)\<lparr>confirms := map (Pair i) js\<rparr>"
  have "do_event ips (Confirm i j) s = Some ?s" using Cons.prems by simp
  moreover have "do_events ips (map (Confirm i) js) ?s = Some (?s\<lparr>confirms := [],
      peers := (\<lambda>k. if k \<in> set js then ConfirmationLeader (rIP (peers ?s i)) (peers ?s k) else peers ?s k)\<rparr>)"
    using Cons.prems by (intro Cons.IH) (auto simp: set_peer_def)
  ultimately show ?case using Cons.prems by (auto simp: set_peer_def fun_eq_iff)
qed

definition others :: "string \<Rightarrow> string list \<Rightarrow> string list" where
  "others i ips = filter (\<lambda>j. j \<noteq> i) ips"

lemma broadcast_others: "broadcast ips i = map (Pair i) (others i ips)"
  by (simp add: broadcast_def others_def)

lemma length_others: "distinct ips \<Longrightarrow> i \<in> set ips \<Longrightarrow> length ips = Suc (length (others i ips))"
proof (induction ips)
  case (Cons x xs)
  have "others i xs = xs" if "i \<notin> set xs" using that by (auto simp: others_def intro: filter_True)
  then show ?case using Cons by (auto simp: others_def)
qed simp

text \<open>The events of an election that nothing disturbs: just enough votes are taken from the channel.\<close>

definition undisturbed :: "string \<Rightarrow> string list \<Rightarrow> raft_event list" where
  "undisturbed i ips = Candidate i # map (VoteCall i) (others i ips) @ replicate (length ips div 2) (Reply i True)
     @ map (Confirm i) (others i ips)"

lemma undisturbed_run:
  assumes "distinct ips" and "i \<in> set ips" and "2 \<le> length ips"
  shows "\<exists>s. do_events ips (undisturbed i ips) (raft_start ips) = Some s
    \<and> state (peers s i) = 2 \<and> currentLeader (peers s i) = i @ ''3302'' \<and> beating s = [i] \<and> i \<notin> set (trying s)
    \<and> (\<forall>j \<in> set ips. j \<noteq> i \<longrightarrow> state (peers s j) = 0 \<and> currentLeader (peers s j) = i \<and> votedFor (peers s j) = nobody)"
proof -
  let ?js = "others i ips" and ?n = "length ips"
  have js: "distinct ?js" "i \<notin> set ?js" "set ?js = set ips - {i}" "?n = Suc (length ?js)"
    using assms length_others [OF assms(1,2)] by (auto simp: others_def)
  obtain k where k: "?n div 2 = Suc k" using assms(3) by (cases "?n div 2") auto
  define s1 where "s1 = (set_peer i (snd (becomeCandidate (NewRaft i ''3302''))) (raft_start ips))
    \<lparr>electing := [i], calls := map (Pair i) ?js\<rparr>"
  have r1: "do_event ips (Candidate i) (raft_start ips) = Some s1"
    using assms(2) by (simp add: s1_def raft_start_def raft_started_def becomeCandidate_def NewRaft_def broadcast_others)
  have p1: "peers s1 i = (NewRaft i ''3302'')\<lparr>state := 1, votedFor := i @ ''3302'', vote := 1, currentTerm := 1\<rparr>"
    "\<And>j. j \<noteq> i \<Longrightarrow> peers s1 j = NewRaft j ''3302''"
    by (simp_all add: s1_def set_peer_def becomeCandidate_def NewRaft_def raft_start_def raft_started_def)
  have f1: "electing s1 = [i]" "trying s1 = ips" "calls s1 = map (Pair i) ?js" "replies s1 = []" "confirms s1 = []"
    "beating s1 = []" "node_count s1 i = ?n"
    by (simp_all add: s1_def set_peer_def raft_start_def raft_started_def)
  define s2 where "s2 = s1\<lparr>calls := [], replies := replicate (length ?js) (i, True),
    peers := (\<lambda>j. if j \<in> set ?js then setVoteFor i (peers s1 j) else peers s1 j)\<rparr>"
  have r2: "do_events ips (map (VoteCall i) ?js) s1 = Some s2"
  proof -
    have "votedFor (peers s1 j) = nobody \<and> currentLeader (peers s1 j) = nobody" if "j \<in> set ?js" for j
      using js(2) p1(2) [of j] that by (cases "j = i") (auto simp: NewRaft_def)
    moreover have "rIP (peers s1 i) = i" by (simp add: p1 NewRaft_def)
    ultimately show ?thesis using vote_calls [OF f1(3) js(1,2), of ips] by (simp add: s2_def f1 cong: if_cong)
  qed
  define s3 where "s3 = s2\<lparr>replies := replicate (length ?js - Suc k) (i, True), electing := [], trying := remove1 i ips,
    beating := [i], confirms := map (Pair i) ?js,
    peers := (peers s2)(i := (peers s1 i)\<lparr>vote := 1 + int (Suc k), state := 2, currentLeader := i @ ''3302''\<rparr>)\<rparr>"
  have "Suc k \<le> length ?js" using k js(4) assms(3) by linarith
  moreover have "peers s2 i = peers s1 i" using js(2) by (simp add: s2_def)
  ultimately have r3: "do_events ips (replicate (?n div 2) (Reply i True)) s2 = Some s3"
    using vote_replies [of i s2 "length ?js" k ips] assms(2) k
    by (simp add: s3_def s2_def f1 p1 NewRaft_def broadcast_others del: replicate.simps)
  define s4 where "s4 = s3\<lparr>confirms := [],
    peers := (\<lambda>j. if j \<in> set ?js then ConfirmationLeader (rIP (peers s3 i)) (peers s3 j) else peers s3 j)\<rparr>"
  have r4: "do_events ips (map (Confirm i) ?js) s3 = Some s4"
    using confirm_calls [of s3 i ?js ips] js(1,2) by (simp add: s3_def s4_def)
  have "do_events ips (undisturbed i ips) (raft_start ips) = Some s4"
    by (simp add: undisturbed_def r1 do_events_append r2 r3 r4 del: do_event.simps)
  moreover have "rIP (peers s3 i) = i" by (simp add: s3_def p1 NewRaft_def)
  ultimately show ?thesis
    using js(2,3) assms(1) by (auto simp: s4_def s3_def ConfirmationLeader_def reDefault_def)
qed

text \<open>
  C8. An election that nothing disturbs succeeds: in a cluster of at least two members that all counted
  it when they started, if one becomes a candidate, its calls arrive before anybody else's and its
  confirmations are delivered, it is the only leader, all others are followers that know it, no
  matter how many they are, and its heart beats have begun.
\<close>

theorem undisturbed_election:
  assumes "distinct ips" and "i \<in> set ips" and "2 \<le> length ips"
  shows "\<exists>s. do_events ips (undisturbed i ips) (raft_start ips) = Some s \<and> leaders ips s = {i} \<and> i \<in> set (beating s)
    \<and> (\<forall>j \<in> set ips. j \<noteq> i \<longrightarrow> currentLeader (peers s j) = i)"
proof -
  obtain s where s: "do_events ips (undisturbed i ips) (raft_start ips) = Some s" "state (peers s i) = 2" "beating s = [i]"
    "\<forall>j \<in> set ips. j \<noteq> i \<longrightarrow> state (peers s j) = 0 \<and> currentLeader (peers s j) = i"
    using undisturbed_run [OF assms] by auto
  then have "leaders ips s = {i}" using assms(2) by (force simp: leaders_def)
  then show ?thesis using s by auto
qed

theorem undisturbed_election_witness:
  "\<exists>s. do_events [''A'', ''B'', ''C''] (undisturbed ''B'' [''A'', ''B'', ''C'']) (raft_start [''A'', ''B'', ''C'']) = Some s
    \<and> leaders [''A'', ''B'', ''C''] s = {''B''}"
  using undisturbed_election [of "[''A'', ''B'', ''C'']" "''B''"] by auto

section \<open>A cluster of one node\<close>

definition alone :: "string \<Rightarrow> raft_net \<Rightarrow> bool" where
  "alone i s \<longleftrightarrow> calls s = [] \<and> replies s = [] \<and> confirms s = [] \<and> state (peers s i) \<noteq> 2"

lemma alone_step: "alone i s \<Longrightarrow> do_event [i] e s = Some s' \<Longrightarrow> alone i s'"
  by (cases e) (auto simp: alone_def set_peer_def becomeCandidate_def broadcast_def reDefault_def heartTimeout_def
      heart_sent_def HeartBeatResponse_def split: if_splits)

lemma alone_run: "alone i s \<Longrightarrow> do_events [i] es s = Some s' \<Longrightarrow> alone i s'"
  by (induction es arbitrary: s) (auto simp: bind_eq_Some_conv dest: alone_step)



section \<open>A cluster that has grown\<close>

lemma creator_counts_one:
  assumes "run_creat T [command, key] t = Inr (out, t')"
  shows "fst (Raft_Start ip (t_cluster t')) = 1"
  using assms by (auto simp: run_creat_def Raft_Start_def cluster_Init_def SaveClusterFile_def bind_go_Inr_iff split: option.splits)

text \<open>
  C10. Counting the members once is not safe. The node that created the cluster with \<open>creat\<close> counted one
  member, so its own vote is a majority for ever after and the first reply makes it leader even if it
  is a refusal. When two more nodes have joined, the last of which counted three members, the creator and
  the last one can both win: each is a candidate, the third one votes for the last, and its refusal
  elects the creator. No time-out is involved.
\<close>

theorem grown_cluster_two_leaders:
  assumes "run_creat T [command, key] t = Inr (out, t')" and "n i = fst (Raft_Start i (t_cluster t'))" and "n k = 3"
    and "distinct [i, j, k]" and "nobody \<notin> {i, j, k}"
  shows "\<exists>s. do_events [i, j, k] [Candidate i, Candidate k, VoteCall k j, VoteCall i j, Reply i False, Reply k True]
       (raft_started n [i, j, k]) = Some s
     \<and> leaders [i, j, k] s = {i, k} \<and> vote (peers s i) = 1"
proof -
  have "n i = 1" using creator_counts_one [OF assms(1)] assms(2) by simp
  moreover have "i @ ''3302'' \<noteq> ''-1''" "k @ ''3302'' \<noteq> ''-1''" by (simp_all add: append_eq_Cons_conv)
  ultimately show ?thesis
    using assms(3-5) by (auto simp: raft_eval Let_def)
qed

theorem grown_cluster_two_leaders_witness:
  "\<exists>t' s. run_creat toy_terminal_env [''creat'', ''k''] (toy_terminal no_users) = Inr (NoOutput, t')
    \<and> do_events [''A'', ''B'', ''C''] [Candidate ''A'', Candidate ''C'', VoteCall ''C'' ''B'', VoteCall ''A'' ''B'',
        Reply ''A'' False, Reply ''C'' True]
      (raft_started (\<lambda>i. if i = ''A'' then fst (Raft_Start i (t_cluster t')) else 3) [''A'', ''B'', ''C'']) = Some s
    \<and> leaders [''A'', ''B'', ''C''] s = {''A'', ''C''}"
proof -
  obtain t' where t': "run_creat toy_terminal_env [''creat'', ''k''] (toy_terminal no_users) = Inr (NoOutput, t')"
    by (simp add: run_creat_def SaveClusterFile_eq)
  let ?n = "\<lambda>i. if i = ''A'' then fst (Raft_Start i (t_cluster t')) else 3"
  have "?n ''A'' = fst (Raft_Start ''A'' (t_cluster t'))" "?n ''C'' = 3" by simp_all
  moreover have "distinct [''A'', ''B'', ''C'']" "nobody \<notin> {''A'', ''B'', ''C''}" by (simp_all add: nobody_def)
  ultimately show ?thesis using grown_cluster_two_leaders [where j = "''B''" and n = ?n, OF t'] t' by blast
qed

end
