(* ===== verification/Spec2Isabelle.thy ===== *)
theory Spec2Isabelle
  imports Prelude Codec Hash_Types Merkle Strconv Linked_Queue Tx_Queue Block_Queue Data_Block
    Bolt_Store Chain_Store Data_Chain Table_Chain Table_Info Lru_Cache Cache_Api Sortition
    Cluster_Files Raft_Election Alg_Messages Alg_Peer Consensus Agreement Pools
    Grpc_Convert Grpc_Service Grpc_Client User_Manage Server_Api Exec Exec_Streams
    Cluster_Transfer Cluster_Update Permissions Terminal_Session Table_Sync Keeper Joining Reading
    Distribution Broken_Chain Whole_Round Agreement_Safety Raft_Runs Startup
begin

text \<open>
  A model of \<open>alg_bcDB\<close> and what can be proved of it.

  \<^bold>\<open>The program.\<close> A node keeps key/value tables that are shared by a cluster. Every change is a
  transaction; transactions wait in pools, are packed into blocks, and blocks are appended to two
  chains in embedded key/value files: the data chain (values) and the table chain (tables and
  permissions). A Raft-like election marks one node as book-keeper, which alone packs table blocks;
  who proposes data blocks is drawn by sortition and agreed by an Algorand-like Byzantine agreement.
  Blocks reach the other nodes over gRPC, and a joining node fetches what it has missed. A cache
  answers reads: it holds recent transactions, the permissions, and per table a log of the hashes of the
  blocks that touch it. Users register, sign in and read or write at a terminal, over a remote
  command service, or look at two web pages.

  \<^bold>\<open>How Go is represented\<close> (\<open>Prelude\<close>, \<open>Strconv\<close>, \<open>Bolt_Store\<close>). A byte is a \<open>char\<close>, so slices and strings
  are lists. An operation that can panic has the type \<open>'a go\<close>: \<open>Inl\<close> the panic or \<open>Inr\<close> the result; one that may also
  not return has the type \<open>'a run\<close>, an option of that, where \<open>None\<close> is a call that never ends (loops
  without a bound are \<open>partial_function (option)\<close>). Errors that the code returns as values are values.
  Structures are records, pointers are addresses in a store where the code links nodes by hand, and
  integers are words where the width matters (rounds, lengths, time stamps) and \<open>int\<close> elsewhere. What a
  command prints is a result. Packages outside the repository are parameters: bbolt is a record of
  operations with laws (\<open>bolt_laws\<close>, shown to hold of a map), hashes, ECDSA, Ed25519, VRF, gob, JSON and AES key
  streams are functions whose documented laws are hypotheses where a property needs them.

  \<^bold>\<open>Data.\<close>
  \<open>Codec\<close> and \<open>Hash_Types\<close>: \<open>util/util.go\<close>, \<open>common/bytes.go\<close>, \<open>common/types.go\<close>, the conversions with their panics.
  \<open>Merkle\<close>: \<open>MerkleTree/merkel.go\<close>; the root binds the list, every datum has a proof path.
  \<open>Data_Block\<close>, \<open>Chain_Store\<close>, \<open>Data_Chain\<close>, \<open>Table_Chain\<close>: \<open>blockchain/\<close>; transactions, blocks and the
  chain code, which both chains share. The locale \<open>block_store\<close> is the contract of a chain (adding, looking up, tail),
  interpreted for the shared code and for both chains; \<open>chain_rep\<close> says which blocks a file holds.
  \<open>Linked_Queue\<close>, \<open>Tx_Queue\<close>, \<open>Block_Queue\<close>: the hand-made linked lists of \<open>txpool/\<close> and \<open>blockqueue/queue.go\<close>, refined to
  lists under the locales \<open>timed_queue\<close> and \<open>fifo\<close>; the interleavings of two consumers of the hand-over queue are
  a step relation.

  \<^bold>\<open>Cache.\<close>
  \<open>Lru_Cache\<close>: \<open>cache/cache_lru.go\<close>, pointer by pointer (locale \<open>evicting_queue\<close>).
  \<open>Table_Info\<close>: \<open>cache/table-chain.go\<close>, permissions and logs (locale \<open>block_log\<close>); histories and table contents are read
  along the log. \<open>Cache_Api\<close>: \<open>cache/cache.go\<close>. \<open>Permissions\<close>: the tables a node has after a run and after
  a restart, and that tables in memory and logs in the file belong together (\<open>logged\<close>). \<open>Reading\<close>: what
  a read returns at a node that has received a block, wherever the item is cached.

  \<^bold>\<open>Consensus.\<close>
  \<open>Sortition\<close>: \<open>util/binomial.go\<close> and \<open>subUsers\<close>. \<open>Alg_Messages\<close>, \<open>Alg_Peer\<close>, \<open>Consensus\<close>: \<open>algorand/\<close>, with the state
  a node keeps of a round. Time is a schedule: \<open>a_arrive\<close> lists the messages that arrive in each pause and
  \<open>e_ticks\<close> how many polls fit into a time-out. \<open>Agreement\<close>: when votes count, when the agreement ends with a
  final block, when it hangs or crashes. \<open>Agreement_Safety\<close>: when two nodes agree, and how the same votes
  lead to two final blocks. \<open>Raft_Election\<close>: \<open>Raft/raft.go\<close>, \<open>Raft/rpc.go\<close>, as interleavings of
  atomic actions; one leader while no time-out fires, two after a partition. \<open>Raft_Runs\<close>: elections that
  succeed, a cluster of one node, and one that has grown (\<open>node_count\<close> is \<open>nodeCount\<close>, which a node
  sets once).

  \<^bold>\<open>Pools.\<close>
  \<open>Pools\<close>: \<open>txpool/\<close>, taking in, packing, both book-keeper loops; \<open>dk_spins\<close> says how often the node looks for the block
  of a lost round. \<open>Keeper\<close>: the loop of the pool, what a run of the table book-keeper makes of the
  waiting transactions, and what becomes of a block of one's own.

  \<^bold>\<open>Cluster.\<close>
  \<open>Cluster_Files\<close>, \<open>Cluster_Update\<close>, \<open>Cluster_Transfer\<close>: \<open>Cluster/\<close>; membership and its encrypted file, the clean-up
  loop (which works in place on the list it was started with), and the transfer of the file.
  \<open>Grpc_Convert\<close>, \<open>Grpc_Service\<close>, \<open>Grpc_Client\<close>: \<open>GRPC/\<close>; messages, handlers and the calls at other nodes, which
  are a map from addresses to states (locale \<open>trading\<close> for the two kinds of transactions).
  \<open>Distribution\<close>: the two distribution loops of \<open>GRPC/util.go\<close>, pass by pass. \<open>Broken_Chain\<close>: what a received block
  does whose parent the node does not have.
  \<open>Table_Sync\<close>, \<open>Joining\<close>: catching up on the table chain, and the command \<open>join\<close> as a whole; \<open>tm_marks\<close> is
  what heart beats make of the marks while it sleeps.

  \<^bold>\<open>Requests.\<close>
  \<open>User_Manage\<close>: \<open>userManage/userManage.go\<close>. \<open>Server_Api\<close>: \<open>server/serverFuncs_*.go\<close> and \<open>server.go\<close>.
  \<open>Exec\<close>, \<open>Exec_Streams\<close>: \<open>serverExec/service.go\<close>. \<open>Terminal\<close>, \<open>Terminal_Session\<close>: \<open>server/cmd.go\<close>, a line at a time.
  \<open>Startup\<close>: \<open>main.go\<close>, \<open>client/serviceClient.go\<close>, \<open>Raft/server.go\<close>.

  \<^bold>\<open>What is proved.\<close> Per component: the refinement of the linked structures to lists, of the chain files to
  lists of blocks and of the logs to lists of hashes; round trips of messages, files and accounts; every
  branch of the requests. Across components: a transaction sent to the cluster is in every pool that
  has room; a run of the table book-keeper ends with exactly the ready transactions on the chain,
  in the permissions and in the hand-over queue; a block handed over reaches the chain, pool and logs of all other
  nodes, all blocks that wait do so in order, and the values of a packed batch are what is read at every
  node afterwards (\<open>Whole_Round\<close>); a node that joins or catches up ends with the book-keeper's blocks (as far as messages carry them) and the logs
  and permissions that belong to them; a restarted node comes up with its blocks and its cluster. Where the
  code does not keep such a promise, the property states what it does instead: permissions that a restart forgets,
  the batch of a lost round, two final blocks or two leaders, members that the clean-up loop drops, a session that outlives its
  user name, messages and votes that stop a node,
  a forged block that cuts the chain off.

  \<^bold>\<open>Bounds and fuel.\<close> Nothing is bounded by fuel chosen for the proof: loops recurse on their data, have a
  measure, or are partial with \<open>None\<close> for not returning, and properties that say a call returns
  prove it. The limits that occur are the code's: 4096 bytes a read, pools of 1000000 and 10
  transactions, 64-bit rounds and log numbers (logs of fewer than \<open>2 ^ 64 - 1\<close> entries), keys and values that bbolt can store, 21
  texts of a two-way stream, \<open>MAXSTEPS\<close> steps of an agreement.

  \<^bold>\<open>Not modelled.\<close> Generated protocol code (\<open>Proto/\<close>, \<open>serverExec/service/\<close>): its messages are records of the fields the
  code uses. Listeners, dialling and the registration of services (\<open>GRPC/server.go\<close>, \<open>rpcRegister\<close>, \<open>ServerStart\<close>,
  \<open>GetLocalIp\<close>): operating system and library calls. \<open>test/test.go\<close>, \<open>txpool/root.go\<close>, \<open>userManage/root*.go\<close>: a test
  client and functions that only print. Wall-clock time beyond the schedules above, and data races of single
  memory accesses: goroutines are interleaved at their locks, calls and pauses.
\<close>

end
